(* ===== verification/Prelude.thy ===== *)
theory Prelude
  imports Main "HOL-Library.Word"
begin

text \<open>
  Shared vocabulary of the development.

  \<^item> The result of running a piece of nucleus code: either it returns to its caller
    with a value, or control leaves it for good (a processor state is loaded, the machine
    sleeps or halts, \<open>panic\<close> stops the simulator, or an invalid address is used).
    Sequencing is \<open>rbind\<close>; it never continues after an exit, as the C code never
    continues after \<open>LDST\<close>, \<open>HALT\<close> or \<open>panic\<close>.
  \<^item> Chains of cells linked by a successor function: \<open>seg\<close> is the list segment
    that all linked structures of the program are described with (circular process
    queues, the free lists, the active semaphore list, the brother chain of a process).
  \<^item> Named collections of facts for the component proofs.
\<close>

named_theorems hoca_wf \<open>unfolding of the well-formedness predicates\<close>
named_theorems hoca_frame \<open>what an operation leaves unchanged\<close>

section \<open>Results with non-local exits\<close>

datatype ('e, 'a) res = Ok 'a | Exit 'e

fun rbind :: "('e, 'a) res \<Rightarrow> ('a \<Rightarrow> ('e, 'b) res) \<Rightarrow> ('e, 'b) res" where
  "rbind (Ok x) f = f x"
| "rbind (Exit e) f = Exit e"

lemma rbind_eq_Ok_iff: "rbind m f = Ok y \<longleftrightarrow> (\<exists>x. m = Ok x \<and> f x = Ok y)"
  by (cases m) auto

lemma rbind_eq_Exit_iff:
  "rbind m f = Exit e \<longleftrightarrow> m = Exit e \<or> (\<exists>x. m = Ok x \<and> f x = Exit e)"
  by (cases m) auto

lemma rbind_assoc: "rbind (rbind m f) g = rbind m (\<lambda>x. rbind (f x) g)"
  by (cases m) auto

lemma rbind_Ok_right: "rbind m Ok = m"
  by (cases m) auto

lemma rbind_if: "rbind (if b then m else n) f = (if b then rbind m f else rbind n f)"
  by simp

definition is_Ok :: "('e, 'a) res \<Rightarrow> bool" where
  "is_Ok m = (case m of Ok _ \<Rightarrow> True | Exit _ \<Rightarrow> False)"

lemma is_Ok_simps [simp]: "is_Ok (Ok x)" "\<not> is_Ok (Exit e)"
  by (simp_all add: is_Ok_def)

section \<open>Machine integers\<close>

type_synonym int32 = "32 word"
type_synonym addr = "32 word"

text \<open>The value \<open>-1\<close>, cast to a pointer, is the null pointer of the program.\<close>

abbreviation ENULL_addr :: addr where
  "ENULL_addr \<equiv> - 1"

lemma sint_word32_bounds: "- (2 ^ 31) \<le> sint (x :: int32)" "sint (x :: int32) < 2 ^ 31"
  using sint_greater_eq [of x] sint_less [of x] by simp_all

lemma sint_dec32:
  fixes x :: int32
  assumes "- (2 ^ 31) < sint x"
  shows "sint (x - 1) = sint x - 1"
  using assms sint_word32_bounds [of x]
  by (simp add: sint_word_ariths signed_take_bit_int_eq_self)

lemma sint_inc32:
  fixes x :: int32
  assumes "sint x < 2 ^ 31 - 1"
  shows "sint (x + 1) = sint x + 1"
  using assms sint_word32_bounds [of x]
  by (simp add: sint_word_ariths signed_take_bit_int_eq_self)

lemma sint_dec_neg:
  fixes x :: int32
  assumes "sint (x - 1) < 0"
  shows "sint (x - 1) = sint x - 1" "sint x \<le> 0"
proof -
  have "- (2 ^ 31) < sint x"
  proof (rule ccontr)
    assume "\<not> ?thesis"
    then have "sint x = - (2 ^ 31)" using sint_word32_bounds [of x] by simp
    then have "sint (x - 1) = 2 ^ 31 - 1" by (simp add: sint_word_ariths signed_take_bit_eq_take_bit_minus take_bit_eq_mod)
    with assms show False by simp
  qed
  then show e: "sint (x - 1) = sint x - 1" by (rule sint_dec32)
  show "sint x \<le> 0" using assms e by simp
qed

section \<open>Linked segments\<close>

text \<open>
  \<open>seg f xs e\<close>: following \<open>f\<close> from the first cell of \<open>xs\<close> visits exactly the
  cells of \<open>xs\<close>, in order, and then arrives at \<open>e\<close>. The link field \<open>f\<close> gives an
  optional cell; \<open>None\<close> is the null pointer.
\<close>

fun seg :: "('a \<Rightarrow> 'a option) \<Rightarrow> 'a list \<Rightarrow> 'a option \<Rightarrow> bool" where
  "seg f [] e = True"
| "seg f [x] e = (f x = e)"
| "seg f (x # y # zs) e = (f x = Some y \<and> seg f (y # zs) e)"

definition first_of :: "'a list \<Rightarrow> 'a option" where
  "first_of xs = (case xs of [] \<Rightarrow> None | x # _ \<Rightarrow> Some x)"

lemma first_of_simps [simp]: "first_of [] = None" "first_of (x # xs) = Some x"
  by (simp_all add: first_of_def)

lemma first_of_append [simp]:
  "first_of (xs @ ys) = (if xs = [] then first_of ys else first_of xs)"
  by (cases xs) auto

lemma first_of_eq_None [simp]: "first_of xs = None \<longleftrightarrow> xs = []"
  by (cases xs) auto

lemma first_of_eq_Some: "first_of xs = Some x \<longleftrightarrow> (\<exists>ys. xs = x # ys)"
  by (cases xs) auto

lemma seg_Cons: "seg f (x # xs) e \<longleftrightarrow> f x = (if xs = [] then e else first_of xs) \<and> seg f xs e"
  by (cases xs) auto

lemma seg_append:
  "seg f (xs @ ys) e \<longleftrightarrow> seg f xs (if ys = [] then e else first_of ys) \<and> seg f ys e"
  by (induction xs) (auto simp: seg_Cons)

lemma seg_cong:
  assumes "\<And>x. x \<in> set xs \<Longrightarrow> f x = g x"
  shows "seg f xs e = seg g xs e"
  using assms by (induction xs) (auto simp: seg_Cons)

lemma seg_upd_notin [simp]: "x \<notin> set xs \<Longrightarrow> seg (f(x := v)) xs e = seg f xs e"
  by (rule seg_cong) auto

lemma seg_last: "seg f xs e \<Longrightarrow> xs \<noteq> [] \<Longrightarrow> f (last xs) = e"
  by (induction xs) (auto simp: seg_Cons)

lemma seg_redirect:
  assumes "seg f xs e" "distinct xs" "xs \<noteq> []"
  shows "seg (f(last xs := v)) xs v"
  using assms by (induction xs) (auto simp: seg_Cons)

lemma seg_unique:
  assumes "seg f xs None" "seg f ys None" "first_of xs = first_of ys"
  shows "xs = ys"
  using assms
proof (induction xs arbitrary: ys)
  case Nil
  then show ?case by (auto dest: sym)
next
  case (Cons x xs)
  then obtain ys' where ys: "ys = x # ys'"
    by (auto dest!: sym [of "Some x"] simp: first_of_eq_Some)
  with Cons.prems have "first_of xs = first_of ys'"
    by (auto simp: seg_Cons split: if_splits)
  with Cons ys show ?case by (auto simp: seg_Cons)
qed

lemma seg_unique_last:
  assumes "seg f (x # xs) d" "seg f (x # ys) e" "distinct (x # xs)" "distinct (x # ys)"
    "last (x # xs) = last (x # ys)"
  shows "xs = ys"
  using assms
proof (induction xs arbitrary: x ys)
  case Nil
  then show ?case by (cases ys rule: rev_cases) auto
next
  case (Cons z xs)
  have "ys \<noteq> []" using Cons.prems by (auto split: if_splits)
  then obtain w zs where ys: "ys = w # zs" by (cases ys) auto
  with Cons.prems have "w = z" by simp
  with Cons.IH [of z zs] Cons.prems ys show ?case by simp
qed

section \<open>Circular lists\<close>

text \<open>\<open>cyc f xs\<close>: following \<open>f\<close> from the head visits \<open>xs\<close> and returns to the head.\<close>

definition cyc :: "('a \<Rightarrow> 'a option) \<Rightarrow> 'a list \<Rightarrow> bool" where
  "cyc f xs = seg f xs (first_of xs)"

lemma cyc_Nil [simp]: "cyc f []"
  by (simp add: cyc_def)

lemma cyc_cong: "(\<And>x. x \<in> set xs \<Longrightarrow> f x = g x) \<Longrightarrow> cyc f xs = cyc g xs"
  unfolding cyc_def by (rule seg_cong)

lemma cyc_upd_notin [simp]: "x \<notin> set xs \<Longrightarrow> cyc (f(x := v)) xs = cyc f xs"
  by (intro cyc_cong) auto

lemma cyc_single [simp]: "cyc f [x] \<longleftrightarrow> f x = Some x"
  by (simp add: cyc_def)

lemma cyc_last: "cyc f xs \<Longrightarrow> xs \<noteq> [] \<Longrightarrow> f (last xs) = first_of xs"
  by (simp add: cyc_def seg_last)

lemma cyc_defined:
  assumes "cyc f xs" "x \<in> set xs"
  shows "\<exists>y \<in> set xs. f x = Some y"
proof -
  from assms(2) obtain as bs where xs: "xs = as @ x # bs" by (auto simp: in_set_conv_decomp)
  with assms(1) have "f x = (if bs = [] then first_of xs else first_of bs)"
    by (simp add: cyc_def seg_append seg_Cons)
  with xs show ?thesis by (cases as; cases bs) auto
qed

lemma cyc_insert:
  assumes "cyc f xs" "distinct xs" "x \<notin> set xs" "xs \<noteq> []"
  shows "cyc (f(x := first_of xs, last xs := Some x)) (xs @ [x])"
proof -
  let ?g = "f(x := first_of xs)"
  have "seg ?g xs (first_of xs)" using assms by (simp add: cyc_def)
  then have "seg (?g(last xs := Some x)) xs (Some x)"
    using assms by (intro seg_redirect) auto
  moreover have "last xs \<noteq> x" using assms by (metis last_in_set)
  ultimately show ?thesis using assms by (simp add: cyc_def seg_append)
qed

text \<open>Unlinking a cell: its predecessor takes over its successor.\<close>

definition cyc_pred :: "'a list \<Rightarrow> 'a list \<Rightarrow> 'a" where
  "cyc_pred as bs = (if as \<noteq> [] then last as else last bs)"

lemma cyc_remove:
  assumes "cyc f (as @ x # bs)" "distinct (as @ x # bs)" "as @ bs \<noteq> []"
  shows "cyc (f(cyc_pred as bs := f x, x := None)) (as @ bs)"
proof (cases "as = []")
  case True
  with assms have bs: "bs \<noteq> []" and fx: "f x = first_of bs"
    and seg: "seg f bs (Some x)"
    by (auto simp: cyc_def seg_Cons)
  have "seg (f(last bs := f x)) bs (f x)" using seg bs assms by (intro seg_redirect) auto
  with True bs fx assms show ?thesis by (simp add: cyc_def cyc_pred_def)
next
  case False
  with assms have fx: "f x = (if bs = [] then first_of as else first_of bs)"
    and as: "seg f as (Some x)" and bs: "seg f bs (first_of as)"
    by (auto simp: cyc_def seg_append seg_Cons)
  have "seg (f(last as := f x)) as (f x)" using as False assms by (intro seg_redirect) auto
  moreover have "last as \<notin> set bs" using False assms by (auto dest!: last_in_set [of as])
  ultimately show ?thesis using False fx bs assms
    by (auto simp: cyc_def cyc_pred_def seg_append)
qed

lemma cyc_head_of_last:
  assumes "cyc f xs" "xs \<noteq> []"
  shows "f (last xs) = Some (hd xs)"
  using cyc_last [OF assms] assms(2) by (cases xs) auto

lemma cyc_unique:
  assumes "cyc f xs" "cyc f ys" "distinct xs" "distinct ys" "xs \<noteq> []" "ys \<noteq> []" "last xs = last ys"
  shows "xs = ys"
proof -
  have "hd xs = hd ys" using assms cyc_head_of_last by (metis option.inject)
  with assms obtain x xs' ys' where "xs = x # xs'" "ys = x # ys'" by (cases xs; cases ys) auto
  with assms show ?thesis using seg_unique_last [of f x xs' "Some x" ys' "Some x"] by (simp add: cyc_def)
qed

lemma distinct_concat_unique:
  assumes "distinct (concat (map f es))" "e \<in> set es" "e' \<in> set es" "x \<in> set (f e)" "x \<in> set (f e')"
  shows "e = e'"
  using assms by (induction es) auto

lemma filter_mid:
  assumes "distinct (xs @ x # ys)"
  shows "filter (\<lambda>y. y \<noteq> x) (xs @ x # ys) = xs @ ys"
proof -
  have "filter (\<lambda>y. y \<noteq> x) xs = xs" "filter (\<lambda>y. y \<noteq> x) ys = ys"
    using assms by (auto intro!: filter_True)
  then show ?thesis by simp
qed

section \<open>Scanning a small array for the first matching index\<close>

text \<open>
  \<open>for (i = 0; i < n; i++) if (P i) break;\<close> leaves the least matching index, or \<open>n\<close>.
\<close>

fun scan_from :: "(nat \<Rightarrow> bool) \<Rightarrow> nat \<Rightarrow> nat \<Rightarrow> nat" where
  "scan_from P i 0 = i"
| "scan_from P i (Suc k) = (if P i then i else scan_from P (Suc i) k)"

definition scan :: "(nat \<Rightarrow> bool) \<Rightarrow> nat \<Rightarrow> nat" where
  "scan P n = scan_from P 0 n"

lemma scan_from_spec:
  "i \<le> scan_from P i k \<and> scan_from P i k \<le> i + k
   \<and> (scan_from P i k < i + k \<longrightarrow> P (scan_from P i k))
   \<and> (\<forall>j. i \<le> j \<and> j < scan_from P i k \<longrightarrow> \<not> P j)"
proof (induction P i k rule: scan_from.induct)
  case (1 P i)
  then show ?case by auto
next
  case (2 P i k)
  then show ?case
    by (cases "P i") (auto, (metis Suc_leI le_neq_implies_less)+)
qed

lemma scan_le: "scan P n \<le> n"
  using scan_from_spec [of 0 P n] by (simp add: scan_def)

lemma scan_hit: "scan P n < n \<Longrightarrow> P (scan P n)"
  using scan_from_spec [of 0 P n] by (simp add: scan_def)

lemma scan_least: "j < scan P n \<Longrightarrow> \<not> P j"
  using scan_from_spec [of 0 P n] by (simp add: scan_def)

lemma scan_less_iff: "scan P n < n \<longleftrightarrow> (\<exists>j<n. P j)"
  by (metis linorder_neqE_nat not_less scan_hit scan_le scan_least order.strict_iff_order)

lemma scan_eq_limit_iff: "scan P n = n \<longleftrightarrow> (\<forall>j<n. \<not> P j)"
  using scan_le [of P n] scan_less_iff [of P n] by auto

end
