(* ===== verification/Machine.thy ===== *)
theory Machine
  imports Prelude
begin

text \<open>
  The data of the program, as the headers under \<open>src/h\<close> declare it: the processor
  state, device registers, semaphore operations, process table entries and semaphore
  descriptors, and the global variables of the nucleus gathered in one record.

  Memory is modelled by typed views, one per type of object the nucleus reads or writes
  through an integer that is cast to a pointer: \<open>heap_int\<close> for semaphores,
  \<open>heap_state\<close> for processor-state areas, \<open>heap_vpop\<close> for vectors of semaphore
  operations. Objects of different types are taken to be disjoint, as C's effective
  types demand. Pointers into \<open>proc_table\<close> and \<open>semd_table\<close> are optional
  indices, \<open>None\<close> being \<open>ENULL\<close>; a dereference of \<open>ENULL\<close> or outside an array
  is the exit \<open>FAULT\<close>.
\<close>

unbundle bit_operations_syntax

section \<open>Constants\<close>

definition MAXPROC :: nat where "MAXPROC = 20"
definition SEMMAX :: nat where "SEMMAX = 10"
definition ENULL :: int where "ENULL = - 1"

definition LOCK :: int32 where "LOCK = - 1"
definition UNLOCK :: int32 where "UNLOCK = 1"

definition PRIVILEGE :: "16 word" where "PRIVILEGE = 8"
definition NORMAL :: int32 where "NORMAL = 0"
definition IOREAD :: int32 where "IOREAD = 0"
definition IOWRITE :: int32 where "IOWRITE = 1"
definition IOSEEK :: int32 where "IOSEEK = 2"
definition ENDOFINPUT :: int32 where "ENDOFINPUT = 7"

definition TERMINAL :: nat where "TERMINAL = 0"
definition PRINTER :: nat where "PRINTER = 1"
definition DISK :: nat where "DISK = 2"
definition FLOPPY :: nat where "FLOPPY = 3"

lemmas const_defs [simp] =
  MAXPROC_def SEMMAX_def ENULL_def LOCK_def UNLOCK_def PRIVILEGE_def NORMAL_def
  IOREAD_def IOWRITE_def IOSEEK_def ENDOFINPUT_def
  TERMINAL_def PRINTER_def DISK_def FLOPPY_def

section \<open>Processor state\<close>

record sr_t =
  ps_t :: "1 word"
  ps_s :: "1 word"
  ps_m :: "1 word"
  ps_int :: "3 word"
  ps_x :: "1 word"
  ps_n :: "1 word"
  ps_z :: "1 word"
  ps_o :: "1 word"
  ps_c :: "1 word"

text \<open>
  The two bytes of \<open>tmp_t\<close> are a union of bit-field structures. The target is
  big-endian and allocates bit-fields from the most significant bit, so the last field
  of each structure is the low end of the 16-bit value.
\<close>

type_synonym tmp_t = "16 word"

definition in_dno :: "tmp_t \<Rightarrow> tmp_t" where "in_dno t = t AND 7"
definition in_dev :: "tmp_t \<Rightarrow> tmp_t" where "in_dev t = drop_bit 3 t AND 7"
definition mm_typ :: "tmp_t \<Rightarrow> tmp_t" where "mm_typ t = drop_bit 14 t AND 3"
definition mm_seg :: "tmp_t \<Rightarrow> tmp_t" where "mm_seg t = drop_bit 10 t AND 15"
definition mm_pg :: "tmp_t \<Rightarrow> tmp_t" where "mm_pg t = t AND 1023"
definition pr_typ :: "tmp_t \<Rightarrow> tmp_t" where "pr_typ t = t AND 255"
definition sys_no :: "tmp_t \<Rightarrow> tmp_t" where "sys_no t = t AND 255"

definition set_pr_typ :: "tmp_t \<Rightarrow> tmp_t \<Rightarrow> tmp_t" where
  "set_pr_typ v t = (t AND NOT 255) OR (v AND 255)"

record state_t =
  s_r :: "nat \<Rightarrow> int32"
  s_sr :: sr_t
  s_tmp :: tmp_t
  s_crp :: addr

definition set_reg :: "nat \<Rightarrow> int32 \<Rightarrow> state_t \<Rightarrow> state_t" where
  "set_reg i v st = st\<lparr>s_r := (s_r st)(i := v)\<rparr>"

definition s_sp :: "state_t \<Rightarrow> int32" where "s_sp st = s_r st 15"
definition s_pc :: "state_t \<Rightarrow> int32" where "s_pc st = s_r st 16"

section \<open>Device registers and semaphore operations\<close>

record devreg_t =
  d_op :: int32
  d_dadd :: int32
  d_badd :: addr
  d_stat :: int32

record vpop =
  vp_op :: int32
  vp_sem :: addr

section \<open>Process table entries and semaphore descriptors\<close>

type_synonym procptr = "nat option"
type_synonym semptr = "nat option"

record proc_link =
  index :: int
  nxt :: procptr

record proc_t =
  p_link :: "nat \<Rightarrow> proc_link"
  p_s :: state_t
  qcount :: int
  semvec :: "nat \<Rightarrow> addr"
  cpu_time :: int32
  start_t :: int32
  prog_old :: addr
  prog_new :: addr
  memory_management_old :: addr
  memory_management_new :: addr
  system_call_old :: addr
  system_call_new :: addr
  parent :: procptr
  child :: procptr
  brother :: procptr

record semd_t =
  s_next :: semptr
  s_prev :: semptr
  s_semAdd :: addr
  s_link :: proc_link

definition null_link :: proc_link where
  "null_link = \<lparr>index = ENULL, nxt = None\<rparr>"

lemma null_link_sel [simp]: "index null_link = - 1" "nxt null_link = None"
  by (simp_all add: null_link_def)

section \<open>The state of the nucleus\<close>

record saved_info =
  amnt :: int32
  stat :: int32

text \<open>
  \<open>clock_at\<close> gives the readings of the time-of-day register, one per \<open>STCK\<close>, and
  \<open>clock_reads\<close> counts them; nothing is assumed about how fast time passes.
  \<open>clock_lock_at\<close> and \<open>dev_sem_at\<close> are the addresses the linker gives to the
  variables \<open>clock_lock\<close> and \<open>dev_sem\<close>, which live in memory because the nucleus
  passes their addresses around as semaphores. \<open>interval_timer\<close> is the register
  \<open>LDIT\<close> writes. The trap and interrupt areas at 0x800 (program), 0x898 (memory
  management), 0x930 (system call), 0x9c8, 0xa60, 0xaf8, 0xb90 and 0xc28 (terminal,
  printer, disk, floppy and clock interrupts) are processor states in memory, reached
  through \<open>heap_state\<close>; the new state of an area follows its old state, 76 bytes further.
  \<open>print_polls\<close> says how printer 0 answers: it reports completion when its status
  register is read for the \<open>n\<close>-th time, or never. \<open>print_buf\<close> is the character array
  whose address \<open>print_buf_at\<close> the nucleus hands to the printer.
\<close>

record kstate =
  proc_table :: "nat \<Rightarrow> proc_t"
  free_head :: procptr
  semd_table :: "nat \<Rightarrow> semd_t"
  cur_sem :: semptr
  free_head_s :: semptr
  running_queue :: proc_link
  heap_int :: "addr \<Rightarrow> int32"
  heap_state :: "addr \<Rightarrow> state_t"
  heap_vpop :: "addr \<Rightarrow> vpop"
  clock_at :: "nat \<Rightarrow> int32"
  clock_reads :: nat
  interval_timer :: int32
  devreg :: "nat \<Rightarrow> devreg_t"
  save_arr :: "nat \<Rightarrow> saved_info"
  clock_count :: int32
  clock_lock_at :: addr
  dev_sem_at :: addr
  print_polls :: "nat option"
  print_buf :: string
  print_buf_at :: addr

text \<open>
  How control can leave the nucleus for good: a processor state is loaded (\<open>LDST\<close>), the
  processor waits for an interrupt (\<open>SLEEP\<close>, the \<open>stop\<close> instruction), the machine
  halts, \<open>panic\<close> stops the simulator, an invalid address is used (\<open>FAULT\<close>), or a
  loop over a linked structure never ends (\<open>HANG\<close>). The last is produced by loops that
  have visited as many cells as there are without reaching their end: by then some cell
  has been visited twice, and since the loop bodies only follow links they go round forever.
\<close>

datatype exit =
    LDST state_t kstate
  | SLEEP kstate
  | HALTED kstate
  | PANIC string
  | FAULT
  | HANG

type_synonym 'a kres = "(exit, 'a) res"

section \<open>Access through pointers\<close>

definition rd_proc :: "kstate \<Rightarrow> procptr \<Rightarrow> proc_t kres" where
  "rd_proc s p = (case p of None \<Rightarrow> Exit FAULT
     | Some i \<Rightarrow> if i < MAXPROC then Ok (proc_table s i) else Exit FAULT)"

definition wr_proc :: "kstate \<Rightarrow> procptr \<Rightarrow> (proc_t \<Rightarrow> proc_t) \<Rightarrow> kstate kres" where
  "wr_proc s p f = (case p of None \<Rightarrow> Exit FAULT
     | Some i \<Rightarrow> if i < MAXPROC
         then Ok (s\<lparr>proc_table := (proc_table s)(i := f (proc_table s i))\<rparr>)
         else Exit FAULT)"

text \<open>\<open>p->p_link[i]\<close>, read and assigned as a whole (both members).\<close>

definition rd_link :: "kstate \<Rightarrow> procptr \<Rightarrow> int \<Rightarrow> proc_link kres" where
  "rd_link s p i = rbind (rd_proc s p) (\<lambda>e.
     if 0 \<le> i \<and> i < int SEMMAX then Ok (p_link e (nat i)) else Exit FAULT)"

definition wr_link :: "kstate \<Rightarrow> procptr \<Rightarrow> int \<Rightarrow> proc_link \<Rightarrow> kstate kres" where
  "wr_link s p i l =
     (if 0 \<le> i \<and> i < int SEMMAX
      then wr_proc s p (\<lambda>e. e\<lparr>p_link := (p_link e)(nat i := l)\<rparr>) else Exit FAULT)"

definition rd_semd :: "kstate \<Rightarrow> semptr \<Rightarrow> semd_t kres" where
  "rd_semd s w = (case w of None \<Rightarrow> Exit FAULT
     | Some i \<Rightarrow> if i < MAXPROC then Ok (semd_table s i) else Exit FAULT)"

definition wr_semd :: "kstate \<Rightarrow> semptr \<Rightarrow> (semd_t \<Rightarrow> semd_t) \<Rightarrow> kstate kres" where
  "wr_semd s w f = (case w of None \<Rightarrow> Exit FAULT
     | Some i \<Rightarrow> if i < MAXPROC
         then Ok (s\<lparr>semd_table := (semd_table s)(i := f (semd_table s i))\<rparr>)
         else Exit FAULT)"

lemma rd_proc_Some [simp]: "i < 20 \<Longrightarrow> rd_proc s (Some i) = Ok (proc_table s i)"
  by (simp add: rd_proc_def)

lemma rd_proc_None [simp]: "rd_proc s None = Exit FAULT"
  by (simp add: rd_proc_def)

lemma wr_proc_Some:
  "i < 20 \<Longrightarrow> wr_proc s (Some i) f = Ok (s\<lparr>proc_table := (proc_table s)(i := f (proc_table s i))\<rparr>)"
  by (simp add: wr_proc_def)

lemma rd_link_Some:
  "p < 20 \<Longrightarrow> i < 10 \<Longrightarrow> rd_link s (Some p) (int i) = Ok (p_link (proc_table s p) i)"
  by (simp add: rd_link_def)

lemma wr_link_Some:
  "p < 20 \<Longrightarrow> i < 10 \<Longrightarrow> wr_link s (Some p) (int i) l =
     Ok (s\<lparr>proc_table := (proc_table s)(p := (proc_table s p)
           \<lparr>p_link := (p_link (proc_table s p))(i := l)\<rparr>)\<rparr>)"
  by (simp add: wr_link_def wr_proc_Some)

lemma rd_semd_Some [simp]: "i < 20 \<Longrightarrow> rd_semd s (Some i) = Ok (semd_table s i)"
  by (simp add: rd_semd_def)

lemma wr_semd_Some [simp]:
  "i < 20 \<Longrightarrow> wr_semd s (Some i) f = Ok (s\<lparr>semd_table := (semd_table s)(i := f (semd_table s i))\<rparr>)"
  by (simp add: wr_semd_def)

end
