(* ===== verification/Interfaces.thy ===== *)
theory Interfaces
  imports Prelude
begin

text \<open>
  The contracts the components of the nucleus rely on, as locales.

  \<^item> \<open>fifo\<close>: a first-in first-out queue inside a larger state. \<open>rep s xs\<close> says that the
    state \<open>s\<close> holds the queue \<open>xs\<close>, \<open>can x s xs\<close> that \<open>x\<close> may be added now. It is
    provided by the process queues (\<open>insertProc\<close>, \<open>removeProc\<close>), by the free list of
    process entries (\<open>freeProc\<close>, \<open>allocProc\<close>) and, for every semaphore, by the
    active semaphore list (\<open>insertBlocked\<close>, \<open>removeBlocked\<close>).
  \<^item> \<open>fifo_head\<close>: moreover the head can be looked at (\<open>headQueue\<close>, \<open>headBlocked\<close>).
  \<^item> \<open>machine\<close>: a set of steps that keep an invariant, hence keep it along every run.
\<close>

fun seq_enq :: "('x \<Rightarrow> 's \<Rightarrow> ('e, 's) res) \<Rightarrow> 'x list \<Rightarrow> 's \<Rightarrow> ('e, 's) res" where
  "seq_enq f [] s = Ok s"
| "seq_enq f (x # xs) s = rbind (f x s) (seq_enq f xs)"

fun seq_deq :: "('s \<Rightarrow> ('e, 'x option \<times> 's) res) \<Rightarrow> nat \<Rightarrow> 's \<Rightarrow> ('e, 'x option list \<times> 's) res" where
  "seq_deq g 0 s = Ok ([], s)"
| "seq_deq g (Suc n) s = rbind (g s) (\<lambda>(x, s). rbind (seq_deq g n s) (\<lambda>(xs, s). Ok (x # xs, s)))"

locale fifo =
  fixes enq :: "'x \<Rightarrow> 's \<Rightarrow> ('e, 's) res"
    and deq :: "'s \<Rightarrow> ('e, 'x option \<times> 's) res"
    and rep :: "'s \<Rightarrow> 'x list \<Rightarrow> bool"
    and can :: "'x \<Rightarrow> 's \<Rightarrow> 'x list \<Rightarrow> bool"
  assumes enq_rep: "rep s xs \<Longrightarrow> can x s xs \<Longrightarrow> \<exists>s'. enq x s = Ok s' \<and> rep s' (xs @ [x])"
    and deq_empty: "rep s [] \<Longrightarrow> deq s = Ok (None, s)"
    and deq_rep: "rep s (x # xs) \<Longrightarrow> \<exists>s'. deq s = Ok (Some x, s') \<and> rep s' xs"
    and can_enq: "rep s xs \<Longrightarrow> can x s xs \<Longrightarrow> can y s xs \<Longrightarrow> x \<noteq> y \<Longrightarrow> enq x s = Ok s'
      \<Longrightarrow> can y s' (xs @ [x])"
begin

lemma seq_enq_rep:
  assumes "rep s xs" "\<forall>y \<in> set ys. can y s xs" "distinct ys"
  shows "\<exists>s'. seq_enq enq ys s = Ok s' \<and> rep s' (xs @ ys)"
  using assms
proof (induction ys arbitrary: s xs)
  case (Cons y ys)
  then obtain s1 where s1: "enq y s = Ok s1" "rep s1 (xs @ [y])"
    using enq_rep by (metis list.set_intros(1))
  have "\<forall>z \<in> set ys. can z s1 (xs @ [y])"
    using Cons.prems s1 by (auto intro: can_enq)
  with Cons.IH [OF s1(2)] Cons.prems s1(1) show ?case by simp
qed simp

lemma seq_deq_rep:
  assumes "rep s (xs @ ys)"
  shows "\<exists>s'. seq_deq deq (length xs) s = Ok (map Some xs, s') \<and> rep s' ys"
  using assms
proof (induction xs arbitrary: s)
  case (Cons x xs)
  then obtain s1 where s1: "deq s = Ok (Some x, s1)" "rep s1 (xs @ ys)"
    using deq_rep by fastforce
  from Cons.IH [OF s1(2)] s1(1) show ?case by auto
qed simp

text \<open>What was in the queue comes out first, then what was put in, each in order.\<close>

lemma fifo_order:
  assumes "rep s xs" "\<forall>y \<in> set ys. can y s xs" "distinct ys"
  shows "\<exists>s1 s2. seq_enq enq ys s = Ok s1
    \<and> seq_deq deq (length xs + length ys) s1 = Ok (map Some (xs @ ys), s2) \<and> rep s2 []"
  using seq_enq_rep [OF assms] seq_deq_rep [where ys = "[]" and xs = "xs @ ys"] by fastforce

lemma drained_empty:
  assumes "rep s xs"
  shows "\<exists>s'. seq_deq deq (length xs) s = Ok (map Some xs, s') \<and> deq s' = Ok (None, s')"
  using seq_deq_rep [of s xs "[]"] assms deq_empty by fastforce

end

locale fifo_head = fifo +
  fixes front :: "'s \<Rightarrow> ('e, 'x option) res"
  assumes front_rep: "rep s xs \<Longrightarrow> front s = Ok (first_of xs)"
begin

text \<open>Looking at the head tells what the next removal returns.\<close>

lemma front_deq: "rep s xs \<Longrightarrow> \<exists>s'. deq s = Ok (first_of xs, s') \<and> front s = Ok (first_of xs)"
  using front_rep [of s xs] deq_empty [of s] deq_rep [of s] by (cases xs) auto

lemma front_None: "rep s xs \<Longrightarrow> front s = Ok None \<longleftrightarrow> xs = []"
  by (simp add: front_rep)

lemma front_enq:
  assumes "rep s xs" "can x s xs" "enq x s = Ok s'"
  shows "front s' = Ok (if xs = [] then Some x else first_of xs)"
  using assms enq_rep [of s xs x] front_rep [of s' "xs @ [x]"] by (auto split: if_splits)

end

locale machine =
  fixes init :: "'s \<Rightarrow> bool" and step :: "'s \<Rightarrow> 's \<Rightarrow> bool" and inv :: "'s \<Rightarrow> bool"
  assumes init_inv: "init s \<Longrightarrow> inv s"
    and step_inv: "inv s \<Longrightarrow> step s t \<Longrightarrow> inv t"
begin

lemma run_inv: "step\<^sup>*\<^sup>* s t \<Longrightarrow> inv s \<Longrightarrow> inv t"
  by (induction rule: rtranclp_induct) (auto intro: step_inv)

lemma reachable_inv: "init s \<Longrightarrow> step\<^sup>*\<^sup>* s t \<Longrightarrow> inv t"
  by (blast intro: run_inv init_inv)

end

end
