(* ===== verification/Procq.thy ===== *)
theory Procq
  imports Machine Interfaces
begin

text \<open>
  The process queue module, \<open>src/queues/procq.c\<close>: the table of process entries, its free
  list, and circular queues threaded through the \<open>p_link\<close> arrays of the entries. A queue
  is held by its tail pointer, a \<open>proc_link\<close> naming an entry and the link of that
  entry that belongs to this queue. The module's functions take a pointer to the tail
  pointer; here the tail pointer is passed by value and its new value returned, which
  is the same since no caller passes a pointer into the process table.
\<close>

section \<open>Operations\<close>

definition panic :: "string \<Rightarrow> 'a kres" where
  "panic sp = Exit (PANIC sp)"

definition headQueue :: "proc_link \<Rightarrow> kstate \<Rightarrow> procptr kres" where
  "headQueue tp s =
     (if nxt tp = None then Ok None
      else rbind (rd_link s (nxt tp) (index tp)) (\<lambda>l. Ok (nxt l)))"

definition allocProc :: "kstate \<Rightarrow> (procptr \<times> kstate) kres" where
  "allocProc s =
     (if free_head s = None then Ok (None, s)
      else let rv = free_head s in
        rbind (rd_link s rv 0) (\<lambda>l.
        rbind (wr_link (s\<lparr>free_head := nxt l\<rparr>) rv 0 null_link) (\<lambda>s.
        Ok (rv, s))))"

definition init_entry :: "proc_t \<Rightarrow> proc_t" where
  "init_entry e = e\<lparr>
     p_link := fold (\<lambda>j f. f(j := null_link)) [0..<SEMMAX] (p_link e),
     semvec := fold (\<lambda>j f. f(j := ENULL_addr)) [0..<SEMMAX] (semvec e),
     qcount := 0, cpu_time := 0, start_t := 0,
     prog_old := ENULL_addr, prog_new := ENULL_addr,
     system_call_old := ENULL_addr, system_call_new := ENULL_addr,
     memory_management_old := ENULL_addr, memory_management_new := ENULL_addr,
     parent := None, child := None, brother := None\<rparr>"

definition set_link0 :: "proc_link \<Rightarrow> proc_t \<Rightarrow> proc_t" where
  "set_link0 l e = e\<lparr>p_link := (p_link e)(0 := l)\<rparr>"

definition initProc :: "kstate \<Rightarrow> kstate" where
  "initProc s =
     (let t = fold (\<lambda>i t. t(i := init_entry (t i))) [0..<MAXPROC] (proc_table s);
          t = fold (\<lambda>i t. t(i := set_link0 \<lparr>index = 0, nxt = Some (Suc i)\<rparr> (t i)))
                [0..<MAXPROC - 1] t;
          t = t(MAXPROC - 1 := set_link0 null_link (t (MAXPROC - 1)))
      in s\<lparr>proc_table := t, free_head := Some 0\<rparr>)"

definition insertProc :: "proc_link \<Rightarrow> procptr \<Rightarrow> kstate \<Rightarrow> (proc_link \<times> kstate) kres" where
  "insertProc tp p s =
     rbind (rd_proc s p) (\<lambda>e.
     let i = scan (\<lambda>i. index (p_link e i) = ENULL) SEMMAX in
     if i = SEMMAX then panic (''This process is already in 20 sem queue'' @ [CHR 0x0A])
     else
       rbind (if nxt tp = None
              then wr_link s p (int i) \<lparr>index = int i, nxt = p\<rparr>
              else rbind (rd_link s (nxt tp) (index tp)) (\<lambda>l.
                   rbind (wr_link s p (int i) l) (\<lambda>s.
                   wr_link s (nxt tp) (index tp) \<lparr>index = int i, nxt = p\<rparr>))) (\<lambda>s.
       rbind (wr_proc s p (\<lambda>e. e\<lparr>qcount := qcount e + 1\<rparr>)) (\<lambda>s.
       Ok (\<lparr>index = int i, nxt = p\<rparr>, s))))"

definition removeProc :: "proc_link \<Rightarrow> kstate \<Rightarrow> (procptr \<times> proc_link \<times> kstate) kres" where
  "removeProc tp s =
     (if nxt tp = None then Ok (None, tp, s)
      else rbind (headQueue tp s) (\<lambda>h.
        rbind (if nxt tp = h
               then rbind (wr_link s (nxt tp) (index tp) null_link) (\<lambda>s.
                    Ok (nxt tp, null_link, s))
               else rbind (rd_link s (nxt tp) (index tp)) (\<lambda>l.
                    rbind (rd_link s h (index l)) (\<lambda>new_head.
                    rbind (wr_link s (nxt tp) (index tp) new_head) (\<lambda>s.
                    rbind (wr_link s h (index l) null_link) (\<lambda>s.
                    Ok (h, tp, s)))))) (\<lambda>(rv, tp, s).
        rbind (wr_proc s rv (\<lambda>e. e\<lparr>qcount := qcount e - 1\<rparr>)) (\<lambda>s.
        Ok (rv, tp, s)))))"

text \<open>
  The loop of \<open>freeProc\<close> that looks for the last entry of the free list. It visits at
  most \<open>MAXPROC\<close> entries unless the list is circular.
\<close>

fun free_walk :: "nat \<Rightarrow> kstate \<Rightarrow> procptr \<Rightarrow> procptr kres" where
  "free_walk 0 s walker = Exit HANG"
| "free_walk (Suc n) s walker =
     rbind (rd_link s walker 0) (\<lambda>l.
     if nxt l = None then Ok walker else free_walk n s (nxt l))"

definition free_entry :: "proc_t \<Rightarrow> proc_t" where
  "free_entry e = e\<lparr>
     p_link := fold (\<lambda>j f. f(j := null_link)) [0..<SEMMAX] (p_link e),
     semvec := fold (\<lambda>j f. f(j := ENULL_addr)) [0..<SEMMAX] (semvec e),
     qcount := 0\<rparr>"

definition freeProc :: "procptr \<Rightarrow> kstate \<Rightarrow> kstate kres" where
  "freeProc p s =
     rbind (wr_proc s p free_entry) (\<lambda>s.
     if free_head s = None then Ok (s\<lparr>free_head := p\<rparr>)
     else rbind (free_walk MAXPROC s (free_head s)) (\<lambda>walker.
          rbind (rd_link s walker 0) (\<lambda>l.
          wr_link s walker 0 (l\<lparr>nxt := p\<rparr>))))"

text \<open>
  The loop of \<open>outProc\<close>: \<open>prev\<close> and \<open>cur\<close> are the pairs (entry, link) that the code
  keeps in four variables. It stops at the tail's entry or at the wanted entry.
\<close>

fun out_walk :: "nat \<Rightarrow> proc_link \<Rightarrow> procptr \<Rightarrow> proc_link \<Rightarrow> proc_link \<Rightarrow> kstate
    \<Rightarrow> (proc_link \<times> proc_link) kres" where
  "out_walk 0 tp p prev cur s = Exit HANG"
| "out_walk (Suc n) tp p prev cur s =
     (if nxt cur = nxt tp \<or> nxt cur = p then Ok (prev, cur)
      else rbind (rd_link s (nxt cur) (index cur)) (\<lambda>l. out_walk n tp p cur l s))"

definition out_unlink :: "proc_link \<Rightarrow> proc_link \<Rightarrow> kstate \<Rightarrow> kstate kres" where
  "out_unlink prev cur s =
     rbind (rd_link s (nxt cur) (index cur)) (\<lambda>l.
     rbind (wr_link s (nxt prev) (index prev) l) (\<lambda>s.
     rbind (wr_link s (nxt cur) (index cur) null_link) (\<lambda>s.
     wr_proc s (nxt cur) (\<lambda>e. e\<lparr>qcount := qcount e - 1\<rparr>))))"

definition outProc :: "proc_link \<Rightarrow> procptr \<Rightarrow> kstate \<Rightarrow> (procptr \<times> proc_link \<times> kstate) kres" where
  "outProc tp p s =
     (if nxt tp = None then Ok (None, tp, s)
      else rbind (headQueue tp s) (\<lambda>h.
        if nxt tp = h \<and> nxt tp = p then
          rbind (wr_link s (nxt tp) (index tp) null_link) (\<lambda>s.
          rbind (wr_proc s (nxt tp) (\<lambda>e. e\<lparr>qcount := qcount e - 1\<rparr>)) (\<lambda>s.
          Ok (nxt tp, null_link, s)))
        else if nxt tp = h \<and> nxt tp \<noteq> p then Ok (None, tp, s)
        else
          rbind (rd_link s (nxt tp) (index tp)) (\<lambda>cur.
          rbind (out_walk (MAXPROC * SEMMAX) tp p tp cur s) (\<lambda>(prev, cur).
          if nxt cur \<noteq> nxt tp then
            rbind (out_unlink prev cur s) (\<lambda>s. Ok (nxt cur, tp, s))
          else if nxt cur = p then
            rbind (out_unlink prev cur s) (\<lambda>s. Ok (nxt cur, prev, s))
          else Ok (None, tp, s)))))"

section \<open>Abstraction: rings of slots\<close>

text \<open>
  A slot \<open>(p, i)\<close> is link \<open>i\<close> of entry \<open>p\<close>; \<open>lk\<close> is the \<open>proc_link\<close> value that
  points to it. \<open>ring s tp xs\<close>: the tail pointer \<open>tp\<close> holds the queue with the slots
  \<open>xs\<close>, head first.
\<close>

type_synonym slot = "nat \<times> nat"

definition lk :: "slot \<Rightarrow> proc_link" where
  "lk x = \<lparr>index = int (snd x), nxt = Some (fst x)\<rparr>"

lemma lk_sel [simp]: "index (lk x) = int (snd x)" "nxt (lk x) = Some (fst x)"
  by (simp_all add: lk_def)

lemma lk_inject [simp]: "lk x = lk y \<longleftrightarrow> x = y"
  by (auto simp: lk_def prod_eq_iff)

lemma lk_not_null [simp]: "lk x \<noteq> null_link" "null_link \<noteq> lk x"
  by (auto simp: lk_def null_link_def)

lemma lk_fold: "\<lparr>index = int i, nxt = Some p\<rparr> = lk (p, i)"
  by (simp add: lk_def)

definition slot_of :: "proc_link \<Rightarrow> slot option" where
  "slot_of l = (case nxt l of None \<Rightarrow> None
     | Some p \<Rightarrow> if 0 \<le> index l then Some (p, nat (index l)) else None)"

lemma slot_of_lk [simp]: "slot_of (lk x) = Some x"
  by (simp add: slot_of_def)

lemma slot_of_null [simp]: "slot_of null_link = None"
  by (simp add: slot_of_def)

lemma slot_of_eq_Some: "slot_of l = Some x \<longleftrightarrow> l = lk x"
  by (cases l) (auto simp: slot_of_def lk_def split: option.splits if_splits)

definition lnk :: "kstate \<Rightarrow> slot \<Rightarrow> proc_link" where
  "lnk s x = p_link (proc_table s (fst x)) (snd x)"

definition succ :: "kstate \<Rightarrow> slot \<Rightarrow> slot option" where
  "succ s x = slot_of (lnk s x)"

definition valid_slot :: "slot \<Rightarrow> bool" where
  "valid_slot x \<longleftrightarrow> fst x < MAXPROC \<and> snd x < SEMMAX"

definition tail_link :: "slot list \<Rightarrow> proc_link" where
  "tail_link xs = (if xs = [] then null_link else lk (last xs))"

definition ring :: "kstate \<Rightarrow> proc_link \<Rightarrow> slot list \<Rightarrow> bool" where
  "ring s tp xs \<longleftrightarrow> tp = tail_link xs \<and> distinct xs
     \<and> list_all valid_slot xs \<and> cyc (succ s) xs"

text \<open>\<open>pring\<close>: moreover no process is twice in the queue.\<close>

definition pring :: "kstate \<Rightarrow> proc_link \<Rightarrow> slot list \<Rightarrow> bool" where
  "pring s tp xs \<longleftrightarrow> ring s tp xs \<and> distinct (map fst xs)"

section \<open>Elementary updates\<close>

definition set_lnk :: "slot \<Rightarrow> proc_link \<Rightarrow> kstate \<Rightarrow> kstate" where
  "set_lnk x l s = s\<lparr>proc_table := (proc_table s)(fst x :=
     (proc_table s (fst x))\<lparr>p_link := (p_link (proc_table s (fst x)))(snd x := l)\<rparr>)\<rparr>"

definition add_qcount :: "nat \<Rightarrow> int \<Rightarrow> kstate \<Rightarrow> kstate" where
  "add_qcount p d s = s\<lparr>proc_table := (proc_table s)(p :=
     (proc_table s p)\<lparr>qcount := qcount (proc_table s p) + d\<rparr>)\<rparr>"

lemma lnk_set_lnk [simp]: "lnk (set_lnk x l s) y = (if y = x then l else lnk s y)"
  by (auto simp: lnk_def set_lnk_def prod_eq_iff)

lemma lnk_add_qcount [simp]: "lnk (add_qcount p d s) = lnk s"
  by (rule ext) (simp add: lnk_def add_qcount_def)

lemma succ_set_lnk [simp]: "succ (set_lnk x l s) = (succ s)(x := slot_of l)"
  by (rule ext) (simp add: succ_def)

lemma succ_add_qcount [simp]: "succ (add_qcount p d s) = succ s"
  by (rule ext) (simp add: succ_def)

lemma qcount_set_lnk [simp]: "qcount (proc_table (set_lnk x l s) q) = qcount (proc_table s q)"
  by (simp add: set_lnk_def)

lemma qcount_add_qcount [simp]:
  "qcount (proc_table (add_qcount p d s) q) = qcount (proc_table s q) + (if q = p then d else 0)"
  by (simp add: add_qcount_def)

text \<open>
  Everything but the links and queue counters of entries is left alone by the queue
  operations; \<open>strip\<close> forgets those two fields, and two states with the same \<open>strip\<close>
  differ nowhere else.
\<close>

definition strip :: "kstate \<Rightarrow> kstate" where
  "strip s = s\<lparr>proc_table := (\<lambda>p. (proc_table s p)\<lparr>p_link := (\<lambda>_. null_link), qcount := 0\<rparr>)\<rparr>"

lemma strip_set_lnk [simp]: "strip (set_lnk x l s) = strip s"
  by (auto simp: strip_def set_lnk_def fun_upd_def intro!: kstate.equality)

lemma strip_add_qcount [simp]: "strip (add_qcount p d s) = strip s"
  by (auto simp: strip_def add_qcount_def intro!: kstate.equality)

lemma rd_link_lk:
  "valid_slot x \<Longrightarrow> rd_link s (Some (fst x)) (int (snd x)) = Ok (lnk s x)"
  by (simp add: valid_slot_def lnk_def rd_link_Some)

lemma wr_link_lk:
  "valid_slot x \<Longrightarrow> wr_link s (Some (fst x)) (int (snd x)) l = Ok (set_lnk x l s)"
  by (simp add: valid_slot_def set_lnk_def wr_link_Some)

lemma wr_qcount:
  "p < 20 \<Longrightarrow> wr_proc s (Some p) (\<lambda>e. e\<lparr>qcount := qcount e + d\<rparr>) = Ok (add_qcount p d s)"
  by (simp add: add_qcount_def wr_proc_Some)

lemma wr_qcount_dec:
  "p < 20 \<Longrightarrow> wr_proc s (Some p) (\<lambda>e. e\<lparr>qcount := qcount e - 1\<rparr>) = Ok (add_qcount p (-1) s)"
  by (simp add: add_qcount_def wr_proc_Some)

lemmas slot_access = rd_link_lk wr_link_lk wr_qcount wr_qcount_dec

section \<open>Facts about rings\<close>

lemma ring_NilD [simp]: "ring s tp [] \<longleftrightarrow> tp = null_link"
  by (simp add: ring_def tail_link_def)

lemma ring_Nil_iff: "ring s tp xs \<Longrightarrow> nxt tp = None \<longleftrightarrow> xs = []"
  by (auto simp: ring_def tail_link_def)

lemma ring_tail: "ring s tp xs \<Longrightarrow> xs \<noteq> [] \<Longrightarrow> tp = lk (last xs)"
  by (simp add: ring_def tail_link_def)

lemma ring_valid: "ring s tp xs \<Longrightarrow> x \<in> set xs \<Longrightarrow> valid_slot x"
  by (auto simp: ring_def list_all_iff)

lemma ring_lnk: "ring s tp xs \<Longrightarrow> x \<in> set xs \<Longrightarrow> \<exists>y \<in> set xs. lnk s x = lk y"
  by (auto simp: ring_def succ_def slot_of_eq_Some dest: cyc_defined)

lemma ring_lnk_last: "ring s tp xs \<Longrightarrow> xs \<noteq> [] \<Longrightarrow> lnk s (last xs) = lk (hd xs)"
  by (auto simp: ring_def succ_def slot_of_eq_Some dest: cyc_head_of_last)

lemma ring_cong:
  assumes "ring s tp xs" "\<And>x. x \<in> set xs \<Longrightarrow> lnk t x = lnk s x"
  shows "ring t tp xs"
  using assms cyc_cong [of xs "succ t" "succ s"] by (simp add: ring_def succ_def)

text \<open>A slot whose link has index \<open>ENULL\<close> is in no ring.\<close>

lemma ring_used: "ring s tp xs \<Longrightarrow> x \<in> set xs \<Longrightarrow> index (lnk s x) \<noteq> ENULL"
  by (auto dest: ring_lnk)

lemma headQueue_ring:
  assumes "ring s tp xs"
  shows "headQueue tp s = Ok (map_option fst (first_of xs))"
proof (cases "xs = []")
  case True
  with assms show ?thesis by (simp add: headQueue_def)
next
  case False
  with assms have "tp = lk (last xs)" "valid_slot (last xs)" "lnk s (last xs) = lk (hd xs)"
    by (auto simp: ring_tail ring_lnk_last intro: ring_valid)
  with False show ?thesis
    by (cases xs) (simp_all add: headQueue_def slot_access)
qed

section \<open>The queue operations on rings\<close>

definition enq_state :: "slot list \<Rightarrow> slot \<Rightarrow> kstate \<Rightarrow> kstate" where
  "enq_state xs x s = add_qcount (fst x) 1
     (if xs = [] then set_lnk x (lk x) s
      else set_lnk (last xs) (lk x) (set_lnk x (lk (hd xs)) s))"

definition out_state :: "slot list \<Rightarrow> slot \<Rightarrow> slot list \<Rightarrow> kstate \<Rightarrow> kstate" where
  "out_state as x bs s = add_qcount (fst x) (- 1)
     (set_lnk x null_link
       (if as @ bs = [] then s else set_lnk (cyc_pred as bs) (lnk s x) s))"

definition free_slot :: "kstate \<Rightarrow> nat \<Rightarrow> nat" where
  "free_slot s p = scan (\<lambda>i. index (p_link (proc_table s p) i) = ENULL) SEMMAX"

lemma strip_enq_state [simp, hoca_frame]: "strip (enq_state xs x s) = strip s"
  by (simp add: enq_state_def)

lemma strip_out_state [simp, hoca_frame]: "strip (out_state as x bs s) = strip s"
  by (simp add: out_state_def)

lemma lnk_enq_state:
  "y \<notin> set xs \<Longrightarrow> y \<noteq> x \<Longrightarrow> lnk (enq_state xs x s) y = lnk s y"
  by (auto simp: enq_state_def)

lemma cyc_pred_mem: "as @ bs \<noteq> [] \<Longrightarrow> cyc_pred as bs \<in> set as \<union> set bs"
  by (auto simp: cyc_pred_def)

lemma lnk_out_state:
  "y \<notin> set (as @ x # bs) \<Longrightarrow> lnk (out_state as x bs s) y = lnk s y"
  using cyc_pred_mem [of as bs] by (auto simp: out_state_def)

lemma lnk_out_state_self: "lnk (out_state as x bs s) x = null_link"
  by (simp add: out_state_def)

lemma lnk_enq_state_used:
  assumes "ring s tp xs" "y \<in> set xs \<or> y = x"
  shows "index (lnk (enq_state xs x s) y) \<noteq> ENULL"
  using assms ring_used [OF assms(1), of y] by (auto simp: enq_state_def)

lemma qcount_enq_state [simp]:
  "qcount (proc_table (enq_state xs x s) q) = qcount (proc_table s q) + (if q = fst x then 1 else 0)"
  by (simp add: enq_state_def)

lemma qcount_out_state [simp]:
  "qcount (proc_table (out_state as x bs s) q) = qcount (proc_table s q) - (if q = fst x then 1 else 0)"
  by (simp add: out_state_def)

text \<open>The free link that \<open>insertProc\<close> picks, when there is one.\<close>

lemma free_slot_valid:
  assumes "p < 20" "free_slot s p < 10"
  shows "valid_slot (p, free_slot s p)" "index (lnk s (p, free_slot s p)) = ENULL"
  using assms scan_hit [of "\<lambda>i. index (p_link (proc_table s p) i) = ENULL" 10]
  by (simp_all add: valid_slot_def free_slot_def lnk_def)

lemma free_slot_notin:
  assumes "ring s tp xs" "p < 20" "free_slot s p < 10"
  shows "(p, free_slot s p) \<notin> set xs"
  using assms free_slot_valid ring_used by blast

lemma insertProc_ring:
  assumes r: "ring s tp xs" and p: "p < 20" and free: "free_slot s p < 10"
  shows "insertProc tp (Some p) s = Ok (lk (p, free_slot s p), enq_state xs (p, free_slot s p) s)"
    and "ring (enq_state xs (p, free_slot s p) s) (lk (p, free_slot s p)) (xs @ [(p, free_slot s p)])"
proof -
  let ?x = "(p, free_slot s p)"
  have v: "valid_slot ?x" using free_slot_valid [OF p free] by simp
  have nin: "?x \<notin> set xs" by (rule free_slot_notin [OF r p free])
  have i: "scan (\<lambda>i. index (p_link (proc_table s p) i) = -1) 10 = free_slot s p"
    by (simp add: free_slot_def)
  show "insertProc tp (Some p) s = Ok (lk ?x, enq_state xs ?x s)"
  proof (cases "xs = []")
    case True
    with r p free show ?thesis
      using wr_link_lk [OF v]
      by (simp add: insertProc_def Let_def i enq_state_def lk_fold slot_access)
  next
    case False
    with r have t: "tp = lk (last xs)" "valid_slot (last xs)" "lnk s (last xs) = lk (hd xs)"
      by (auto simp: ring_tail ring_lnk_last intro: ring_valid)
    from t p free False show ?thesis
      using wr_link_lk [OF v]
      by (simp add: insertProc_def Let_def i enq_state_def lk_fold slot_access)
  qed
  have "cyc (succ (enq_state xs ?x s)) (xs @ [?x])"
  proof (cases "xs = []")
    case True
    then show ?thesis by (simp add: enq_state_def)
  next
    case False
    then have "first_of xs = Some (hd xs)" by (cases xs) auto
    moreover have "cyc ((succ s)(?x := first_of xs, last xs := Some ?x)) (xs @ [?x])"
      using r nin False by (intro cyc_insert) (auto simp: ring_def)
    ultimately show ?thesis using False by (simp add: enq_state_def)
  qed
  then show "ring (enq_state xs ?x s) (lk ?x) (xs @ [?x])"
    using r v nin by (simp add: ring_def tail_link_def)
qed

lemma insertProc_panic:
  assumes "p < 20" "free_slot s p = 10"
  shows "insertProc tp (Some p) s = panic (''This process is already in 20 sem queue'' @ [CHR 0x0A])"
  using assms by (simp add: insertProc_def free_slot_def)

lemma ring_out_state:
  assumes r: "ring s tp (as @ x # bs)"
  shows "ring (out_state as x bs s) (tail_link (as @ bs)) (as @ bs)"
proof -
  have "cyc (succ (out_state as x bs s)) (as @ bs)"
  proof (cases "as @ bs = []")
    case False
    have "cyc ((succ s)(cyc_pred as bs := succ s x, x := None)) (as @ bs)"
      using r False by (intro cyc_remove) (auto simp: ring_def)
    with False show ?thesis by (simp add: out_state_def succ_def)
  qed auto
  with r show ?thesis by (simp add: ring_def)
qed

lemma removeProc_empty: "removeProc null_link s = Ok (None, null_link, s)"
  by (simp add: removeProc_def)

text \<open>
  \<open>removeProc\<close> decides whether the queue has one element by comparing the entries at
  head and tail. It takes the head slot off provided those entries differ or the queue
  is a singleton.
\<close>

lemma removeProc_ring:
  assumes r: "ring s tp (x # ys)" and once: "ys \<noteq> [] \<Longrightarrow> fst (last ys) \<noteq> fst x"
  shows "removeProc tp s = Ok (Some (fst x), tail_link ys, out_state [] x ys s)"
proof -
  have v: "valid_slot x" "valid_slot (last (x # ys))" using r by (auto intro: ring_valid)
  then have p: "fst x < 20" by (simp add: valid_slot_def)
  have t: "tp = lk (last (x # ys))" and l: "lnk s (last (x # ys)) = lk x"
    using r by (auto dest: ring_tail ring_lnk_last)
  have h: "headQueue tp s = Ok (Some (fst x))" using headQueue_ring [OF r] by simp
  show ?thesis
  proof (cases "ys = []")
    case True
    with t h v p show ?thesis
      by (simp add: removeProc_def slot_access out_state_def tail_link_def)
  next
    case False
    with t l h v p once show ?thesis
      by (simp add: removeProc_def slot_access out_state_def tail_link_def cyc_pred_def)
  qed
qed

lemma pring_length:
  assumes "pring s tp xs"
  shows "length xs \<le> 20"
proof -
  have "set (map fst xs) \<subseteq> {..<20}"
    using assms by (auto simp: pring_def valid_slot_def dest!: ring_valid)
  then have "card (set (map fst xs)) \<le> card {..<20 :: nat}" by (intro card_mono) auto
  with assms show ?thesis using distinct_card [of "map fst xs"] by (simp add: pring_def)
qed

text \<open>The walk of \<open>outProc\<close> stops at the first slot of the wanted or of the tail's entry.\<close>

lemma out_walk_seg:
  assumes "seg (succ s) (cs @ [x]) e" "list_all valid_slot cs"
    and "\<forall>c \<in> set cs. fst c \<noteq> t \<and> fst c \<noteq> p" "fst x = t \<or> fst x = p"
    and "length cs < n" "nxt tp = Some t"
  shows "out_walk n tp (Some p) (lk pv) (lk (hd (cs @ [x]))) s = Ok (lk (last (pv # cs)), lk x)"
  using assms
proof (induction cs arbitrary: pv n)
  case Nil
  then show ?case by (cases n) auto
next
  case (Cons c cs)
  then obtain m where n: "n = Suc m" by (cases n) auto
  have "succ s c = Some (hd (cs @ [x]))" using Cons.prems(1) by (cases cs) (auto simp: seg_Cons)
  then have l: "lnk s c = lk (hd (cs @ [x]))" by (simp add: succ_def slot_of_eq_Some)
  have IH: "out_walk m tp (Some p) (lk c) (lk (hd (cs @ [x]))) s = Ok (lk (last (c # cs)), lk x)"
    using Cons.prems n by (intro Cons.IH) (auto simp: seg_Cons)
  from Cons.prems l IH n show ?case by (simp add: slot_access)
qed

lemma out_unlink_slots:
  assumes "valid_slot pv" "valid_slot x"
  shows "out_unlink (lk pv) (lk x) s = Ok (add_qcount (fst x) (- 1)
    (set_lnk x null_link (set_lnk pv (lnk s x) s)))"
  using assms by (simp add: out_unlink_def slot_access valid_slot_def)

lemma distinct_ends:
  assumes "distinct (map fst xs)" "xs \<noteq> []"
  shows "fst (hd xs) = fst (last xs) \<longleftrightarrow> tl xs = []"
proof (cases xs)
  case (Cons x ys)
  with assms show ?thesis by (cases "ys = []") (force dest: last_in_set)+
qed (use assms in simp)

lemma outProc_walk:
  assumes pr: "pring s tp xs" and ne: "xs \<noteq> []" and multi: "fst (hd xs) \<noteq> fst (last xs)"
    and xs: "xs = cs @ x # ds" and stop: "fst x = p \<or> ds = []"
    and cs: "p \<notin> fst ` set cs"
  shows "out_walk 200 tp (Some p) tp (lk (hd xs)) s = Ok (lk (cyc_pred cs xs), lk x)"
proof -
  have r: "ring s tp xs" using pr by (simp add: pring_def)
  have t: "tp = lk (last xs)" using r ne by (rule ring_tail)
  have segx: "seg (succ s) (cs @ [x]) (succ s x)"
    using r by (auto simp: ring_def cyc_def xs seg_append seg_Cons)
  have tail: "fst (last xs) \<notin> fst ` set cs"
    using pr xs by (cases ds rule: rev_cases) (auto simp: pring_def image_iff)
  have vc: "list_all valid_slot cs" using r by (simp add: ring_def xs)
  have len: "length cs < 200" using pring_length [OF pr] xs by simp
  have "out_walk 200 tp (Some p) (lk (last xs)) (lk (hd (cs @ [x]))) s
      = Ok (lk (last (last xs # cs)), lk x)"
    using segx cs stop tail len t vc
    by (intro out_walk_seg [where t = "fst (last xs)"]) (auto simp: xs image_iff)
  with t show ?thesis by (auto simp: xs cyc_pred_def hd_append split: if_splits)
qed

lemma pring_ring: "pring s tp xs \<Longrightarrow> ring s tp xs"
  by (simp add: pring_def)

lemma outProc_found:
  assumes pr: "pring s tp (as @ x # bs)"
  shows "outProc tp (Some (fst x)) s = Ok (Some (fst x), tail_link (as @ bs), out_state as x bs s)"
proof -
  let ?xs = "as @ x # bs"
  note r = pring_ring [OF pr]
  have t: "tp = lk (last ?xs)" and l: "lnk s (last ?xs) = lk (hd ?xs)"
    using r by (auto dest: ring_tail ring_lnk_last)
  have v: "valid_slot x" "valid_slot (last ?xs)" using r by (auto intro: ring_valid)
  have h: "headQueue tp s = Ok (Some (fst (hd ?xs)))"
    using headQueue_ring [OF r] by (cases as) auto
  show ?thesis
  proof (cases "as @ bs = []")
    case True
    with t h v show ?thesis
      by (simp add: outProc_def slot_access out_state_def tail_link_def valid_slot_def)
  next
    case False
    then have multi: "fst (hd ?xs) \<noteq> fst (last ?xs)"
      using pr distinct_ends [of ?xs] by (cases as) (auto simp: pring_def)
    have w: "out_walk 200 tp (Some (fst x)) tp (lk (hd ?xs)) s = Ok (lk (cyc_pred as ?xs), lk x)"
      using pr multi by (intro outProc_walk) (auto simp: pring_def)
    have pv: "cyc_pred as ?xs = cyc_pred as bs \<or> bs = []"
      by (auto simp: cyc_pred_def)
    have vp: "valid_slot (cyc_pred as ?xs)"
      using r by (auto simp: cyc_pred_def intro!: ring_valid [OF r])
    have tl: "fst (last ?xs) = fst x \<longleftrightarrow> bs = []"
      using pr by (cases bs rule: rev_cases) (auto simp: pring_def)
    show ?thesis
      using False multi tl t l h v w vp pv
      by (cases "bs = []")
        (auto simp: outProc_def slot_access out_state_def tail_link_def out_unlink_slots cyc_pred_def)
  qed
qed

lemma outProc_not_found:
  assumes pr: "pring s tp xs" and p: "p \<notin> fst ` set xs"
  shows "outProc tp (Some p) s = Ok (None, tp, s)"
proof (cases "xs = []")
  case True
  with pr show ?thesis by (simp add: pring_def outProc_def)
next
  case False
  note r = pring_ring [OF pr]
  from False obtain cs x where xs: "xs = cs @ [x]" by (cases xs rule: rev_cases) auto
  have t: "tp = lk x" "lnk s x = lk (hd xs)" "valid_slot x"
    using r xs by (auto dest: ring_tail ring_lnk_last intro: ring_valid)
  have h: "headQueue tp s = Ok (Some (fst (hd xs)))"
    using headQueue_ring [OF r] False by (cases xs) auto
  have px: "fst x \<noteq> p" using p xs by auto
  show ?thesis
  proof (cases "fst (hd xs) = fst x")
    case True
    with t h px show ?thesis by (simp add: outProc_def)
  next
    case False
    have "out_walk 200 tp (Some p) tp (lk (hd xs)) s = Ok (lk (cyc_pred cs xs), lk x)"
      using pr p xs False by (intro outProc_walk) auto
    with t h px False show ?thesis by (simp add: outProc_def slot_access)
  qed
qed

section \<open>The free list of process entries\<close>

definition fl_next :: "kstate \<Rightarrow> nat \<Rightarrow> procptr" where
  "fl_next s p = nxt (p_link (proc_table s p) 0)"

definition freelist :: "kstate \<Rightarrow> nat list \<Rightarrow> bool" where
  "freelist s fs \<longleftrightarrow> free_head s = first_of fs \<and> distinct fs \<and> list_all (\<lambda>p. p < MAXPROC) fs
     \<and> seg (fl_next s) fs None"

definition alloc_state :: "nat \<Rightarrow> procptr \<Rightarrow> kstate \<Rightarrow> kstate" where
  "alloc_state p h s = set_lnk (p, 0) null_link (s\<lparr>free_head := h\<rparr>)"

definition set_free_entry :: "nat \<Rightarrow> kstate \<Rightarrow> kstate" where
  "set_free_entry p s = s\<lparr>proc_table := (proc_table s)(p := free_entry (proc_table s p))\<rparr>"

definition free_state :: "nat \<Rightarrow> nat list \<Rightarrow> kstate \<Rightarrow> kstate" where
  "free_state p fs s =
     (let s = set_free_entry p s in
      if fs = [] then s\<lparr>free_head := Some p\<rparr>
      else set_lnk (last fs, 0) ((lnk s (last fs, 0))\<lparr>nxt := Some p\<rparr>) s)"

lemma freelist_cong:
  assumes "freelist s fs" "free_head t = free_head s"
    and "\<And>p. p \<in> set fs \<Longrightarrow> nxt (lnk t (p, 0)) = nxt (lnk s (p, 0))"
  shows "freelist t fs"
  using assms seg_cong [of fs "fl_next t" "fl_next s" None]
  by (simp add: freelist_def fl_next_def lnk_def)

lemma fold_upd_const:
  "fold (\<lambda>j f. f(j := c)) js f = (\<lambda>j. if j \<in> set js then c else f j)"
  by (induction js arbitrary: f) auto

lemma free_entry_links:
  "p_link (free_entry e) i = (if i < 10 then null_link else p_link e i)"
  "semvec (free_entry e) i = (if i < 10 then ENULL_addr else semvec e i)"
  "qcount (free_entry e) = 0"
  by (simp_all add: free_entry_def fold_upd_const del: upt_rec_numeral)

lemma allocProc_empty: "freelist s [] \<Longrightarrow> allocProc s = Ok (None, s)"
  by (simp add: freelist_def allocProc_def)

lemma set_lnk_free_head: "set_lnk x l (s\<lparr>free_head := h\<rparr>) = (set_lnk x l s)\<lparr>free_head := h\<rparr>"
  by (simp add: set_lnk_def)

lemma allocProc_freelist:
  assumes "freelist s (p # fs)"
  shows "allocProc s = Ok (Some p, alloc_state p (first_of fs) s)"
    and "freelist (alloc_state p (first_of fs) s) fs"
proof -
  have p: "p < 20" "p \<notin> set fs" and h: "free_head s = Some p"
    and n: "fl_next s p = first_of fs"
    using assms by (auto simp: freelist_def seg_Cons)
  show "allocProc s = Ok (Some p, alloc_state p (first_of fs) s)"
    using p h n rd_link_lk [of "(p, 0)" s] wr_link_lk [of "(p, 0)"]
    by (simp add: allocProc_def alloc_state_def valid_slot_def fl_next_def lnk_def)
  have "seg (fl_next (alloc_state p (first_of fs) s)) fs None"
  proof (rule seg_cong [THEN iffD2])
    show "seg (fl_next s) fs None" using assms by (simp add: freelist_def seg_Cons)
    show "fl_next (alloc_state p (first_of fs) s) q = fl_next s q" if "q \<in> set fs" for q
      using that p by (auto simp: fl_next_def alloc_state_def set_lnk_def)
  qed
  then show "freelist (alloc_state p (first_of fs) s) fs"
    using assms by (simp add: freelist_def alloc_state_def set_lnk_def)
qed

lemma free_walk_seg:
  assumes "seg (fl_next s) (f # fs) None" "list_all (\<lambda>p. p < 20) (f # fs)" "length fs < n"
  shows "free_walk n s (Some f) = Ok (Some (last (f # fs)))"
  using assms
proof (induction fs arbitrary: f n)
  case Nil
  then show ?case
    using rd_link_lk [of "(f, 0)" s]
    by (cases n) (auto simp: fl_next_def lnk_def valid_slot_def)
next
  case (Cons g fs)
  then obtain m where n: "n = Suc m" by (cases n) auto
  have g: "nxt (lnk s (f, 0)) = Some g" using Cons.prems(1) by (simp add: fl_next_def lnk_def)
  from Cons.IH [of g m] Cons.prems n g show ?case
    using rd_link_lk [of "(f, 0)" s] by (simp add: valid_slot_def)
qed

lemma freelist_length: "freelist s fs \<Longrightarrow> length fs \<le> 20"
proof -
  assume a: "freelist s fs"
  then have "set fs \<subseteq> {..<20}" by (auto simp: freelist_def list_all_iff)
  then have "card (set fs) \<le> card {..<20 :: nat}" by (intro card_mono) auto
  with a show "length fs \<le> 20" by (simp add: freelist_def distinct_card)
qed

lemma freeProc_freelist:
  assumes fl: "freelist s fs" and p: "p < 20" "p \<notin> set fs"
  shows "freeProc (Some p) s = Ok (free_state p fs s)"
    and "freelist (free_state p fs s) (fs @ [p])"
proof -
  let ?t = "set_free_entry p s"
  have wr: "wr_proc s (Some p) free_entry = Ok ?t"
    using p by (simp add: wr_proc_Some set_free_entry_def)
  have nx: "fl_next ?t q = fl_next s q" if "q \<in> set fs" for q
    using that p by (auto simp: fl_next_def set_free_entry_def)
  have segt: "seg (fl_next ?t) fs None"
    using fl seg_cong [OF nx, of fs] by (simp add: freelist_def)
  have head: "free_head ?t = first_of fs" using fl by (simp add: freelist_def set_free_entry_def)
  have v: "valid_slot (last fs, 0)" if "fs \<noteq> []"
    using that fl by (simp add: freelist_def valid_slot_def list_all_iff)
  show "freeProc (Some p) s = Ok (free_state p fs s)"
  proof (cases fs)
    case Nil
    with wr head show ?thesis by (simp add: freeProc_def free_state_def)
  next
    case (Cons f gs)
    have "free_walk 20 ?t (Some f) = Ok (Some (last fs))"
      using segt fl freelist_length [OF fl] Cons free_walk_seg [of ?t f gs 20]
      by (simp add: freelist_def)
    with wr head Cons v show ?thesis
      using rd_link_lk [of "(last fs, 0)" ?t] wr_link_lk [of "(last fs, 0)" ?t]
      by (simp add: freeProc_def free_state_def Let_def)
  qed
  have pn: "fl_next ?t p = None"
    by (simp add: fl_next_def set_free_entry_def free_entry_links)
  have "fl_next (free_state p fs s) = (fl_next ?t)(last fs := Some p)" if "fs \<noteq> []"
    using that by (auto simp: free_state_def fl_next_def set_lnk_def fun_eq_iff lnk_def Let_def)
  moreover have "seg ((fl_next ?t)(last fs := Some p)) fs (Some p)" if "fs \<noteq> []"
    using segt that fl by (intro seg_redirect) (auto simp: freelist_def)
  moreover have "fl_next (free_state p [] s) = fl_next ?t"
    by (auto simp: free_state_def fl_next_def fun_eq_iff)
  moreover have "last fs \<noteq> p" if "fs \<noteq> []" using p that by (metis last_in_set)
  ultimately have "seg (fl_next (free_state p fs s)) (fs @ [p]) None"
    using pn by (cases "fs = []") (auto simp: seg_append)
  moreover have "free_head (free_state p fs s) = first_of (fs @ [p])"
    using head by (auto simp: free_state_def set_lnk_def Let_def)
  ultimately show "freelist (free_state p fs s) (fs @ [p])"
    using fl p by (simp add: freelist_def)
qed

section \<open>Initialisation\<close>

lemma fold_upd_map:
  "distinct is \<Longrightarrow> fold (\<lambda>i t. t(i := g i (t i))) is t = (\<lambda>i. if i \<in> set is then g i (t i) else t i)"
  by (induction "is" arbitrary: t) (auto simp: fun_eq_iff)

lemma init_entry_fields:
  "p_link (init_entry e) i = (if i < 10 then null_link else p_link e i)"
  "semvec (init_entry e) i = (if i < 10 then ENULL_addr else semvec e i)"
  "qcount (init_entry e) = 0"
  "parent (init_entry e) = None" "child (init_entry e) = None" "brother (init_entry e) = None"
  by (simp_all add: init_entry_def fold_upd_const del: upt_rec_numeral)

lemma initProc_table:
  "proc_table (initProc s) i =
     (if i < 19 then set_link0 \<lparr>index = 0, nxt = Some (Suc i)\<rparr> (init_entry (proc_table s i))
      else if i = 19 then set_link0 null_link (init_entry (proc_table s 19))
      else proc_table s i)"
  by (auto simp: initProc_def Let_def fold_upd_map [where g = "\<lambda>i. init_entry"]
      fold_upd_map [where g = "\<lambda>i. set_link0 \<lparr>index = 0, nxt = Some (Suc i)\<rparr>"]
      simp del: upt_rec_numeral)

lemma initProc_freelist: "freelist (initProc s) [0..<20]"
proof -
  have "seg (fl_next (initProc s)) [k..<20] None" if "k \<le> 20" for k
    using that
  proof (induction rule: inc_induct)
    case (step k)
    then have "[k..<20] = k # [Suc k..<20]" by (simp add: upt_conv_Cons)
    moreover have "fl_next (initProc s) k = (if Suc k = 20 then None else Some (Suc k))"
      using step by (auto simp: fl_next_def initProc_table set_link0_def)
    moreover have "first_of [Suc k..<20] = Some (Suc k)" if "Suc k \<noteq> 20"
      using that step by (simp add: upt_conv_Cons)
    ultimately show ?case using step by (simp add: seg_Cons del: upt_rec_numeral upt_Suc)
  qed simp
  then have "seg (fl_next (initProc s)) [0..<20] None" by blast
  moreover have "free_head (initProc s) = first_of [0..<20]"
    by (simp add: initProc_def Let_def upt_conv_Cons del: upt_rec_numeral)
  ultimately show ?thesis by (simp add: freelist_def list_all_iff del: upt_rec_numeral)
qed

section \<open>The contracts the module provides\<close>

definition queue_rep :: "proc_link \<times> kstate \<Rightarrow> nat list \<Rightarrow> bool" where
  "queue_rep q ps \<longleftrightarrow> (\<exists>xs. pring (snd q) (fst q) xs \<and> map fst xs = ps)"

definition can_insert :: "nat \<Rightarrow> proc_link \<times> kstate \<Rightarrow> nat list \<Rightarrow> bool" where
  "can_insert p q ps \<longleftrightarrow> p < MAXPROC \<and> p \<notin> set ps \<and> free_slot (snd q) p < SEMMAX"

lemma free_slot_cong:
  "(\<And>i. i < 10 \<Longrightarrow> lnk t (p, i) = lnk s (p, i)) \<Longrightarrow> free_slot t p < 10 \<longleftrightarrow> free_slot s p < 10"
  by (auto simp: free_slot_def scan_less_iff lnk_def)

lemma pring_enq:
  assumes "pring s tp xs" "p < 20" "p \<notin> fst ` set xs" "free_slot s p < 10"
  shows "pring (enq_state xs (p, free_slot s p) s) (lk (p, free_slot s p)) (xs @ [(p, free_slot s p)])"
  using assms insertProc_ring(2) [of s tp xs p] by (simp add: pring_def)

lemma pring_out:
  assumes "pring s tp (as @ x # bs)"
  shows "pring (out_state as x bs s) (tail_link (as @ bs)) (as @ bs)"
  using assms ring_out_state [of s tp as x bs] by (simp add: pring_def)

lemma removeProc_pring:
  assumes "pring s tp (x # ys)"
  shows "removeProc tp s = Ok (Some (fst x), tail_link ys, out_state [] x ys s)"
proof (rule removeProc_ring)
  show "ring s tp (x # ys)" using assms by (rule pring_ring)
  show "fst (last ys) \<noteq> fst x" if "ys \<noteq> []"
    using assms imageI [OF last_in_set [OF that], of fst] by (metis distinct.simps(2) list.set_map list.simps(9) pring_def)
qed

interpretation pq: fifo_head
  "\<lambda>p (tp, s). insertProc tp (Some p) s" "\<lambda>(tp, s). removeProc tp s" queue_rep can_insert
  "\<lambda>(tp, s). headQueue tp s"
proof (unfold_locales, goal_cases)
  case (1 s xs x)
  then show ?case
    using insertProc_ring(1) pring_ring pring_enq
    by (cases s) (fastforce simp: queue_rep_def can_insert_def)
next
  case (2 s)
  then show ?case
    by (cases s) (auto simp: queue_rep_def pring_def removeProc_empty)
next
  case (3 s x xs)
  then show ?case
    using removeProc_pring pring_out [where as = "[]"]
    by (cases s) (fastforce simp: queue_rep_def map_eq_Cons_conv)
next
  case (4 s xs x y s')
  then obtain zs where z: "pring (snd s) (fst s) zs" "map fst zs = xs"
    by (auto simp: queue_rep_def)
  with 4 have s': "s' = (lk (x, free_slot (snd s) x), enq_state zs (x, free_slot (snd s) x) (snd s))"
    using insertProc_ring(1) [OF pring_ring [OF z(1)], of x]
    by (cases s) (auto simp: can_insert_def)
  have "free_slot (snd s') y < 10 \<longleftrightarrow> free_slot (snd s) y < 10"
    using 4 z s' by (intro free_slot_cong) (force simp: can_insert_def intro!: lnk_enq_state)
  with 4 show ?case by (simp add: can_insert_def)
next
  case (5 s xs)
  then show ?case
    using headQueue_ring pring_ring
    by (cases s) (fastforce simp: queue_rep_def first_of_def split: list.splits)
qed

definition can_free :: "nat \<Rightarrow> kstate \<Rightarrow> nat list \<Rightarrow> bool" where
  "can_free p s fs \<longleftrightarrow> p < MAXPROC \<and> p \<notin> set fs"

interpretation pool: fifo "\<lambda>p. freeProc (Some p)" allocProc freelist can_free
proof (unfold_locales, goal_cases)
  case (1 s xs x)
  then show ?case using freeProc_freelist by (simp add: can_free_def)
next
  case (2 s)
  then show ?case by (rule allocProc_empty)
next
  case (3 s x xs)
  then show ?case using allocProc_freelist by blast
next
  case (4 s xs x y s')
  then show ?case by (simp add: can_free_def)
qed

end
