(* ===== verification/Asl.thy ===== *)
theory Asl
  imports Procq
begin

text \<open>
  The active semaphore list, \<open>src/queues/asl.c\<close>: descriptors from \<open>semd_table\<close> form a
  doubly linked list, one per semaphore with blocked processes, each holding the tail
  pointer of its process queue; unused descriptors form a free list. The semaphores
  themselves are integers in memory, named by their address.
\<close>

section \<open>Operations\<close>

definition setSem :: "addr \<Rightarrow> procptr \<Rightarrow> kstate \<Rightarrow> kstate kres" where
  "setSem semAdd p s =
     rbind (rd_proc s p) (\<lambda>e.
     let i = scan (\<lambda>i. semvec e i = ENULL_addr) SEMMAX in
     if i < SEMMAX then wr_proc s p (\<lambda>e. e\<lparr>semvec := (semvec e)(i := semAdd)\<rparr>) else Ok s)"

definition setSem2 :: "addr \<Rightarrow> procptr \<Rightarrow> kstate \<Rightarrow> kstate kres" where
  "setSem2 semAdd p s =
     rbind (rd_proc s p) (\<lambda>e.
     let i = scan (\<lambda>i. semvec e i = semAdd) SEMMAX in
     if i < SEMMAX then wr_proc s p (\<lambda>e. e\<lparr>semvec := (semvec e)(i := ENULL_addr)\<rparr>) else Ok s)"

text \<open>
  \<open>while (walker != ENULL && walker->s_semAdd != semAdd) { prev = walker; walker = next; }\<close>;
  the callers that do not need \<open>prev\<close> ignore it.
\<close>

fun asl_find :: "nat \<Rightarrow> addr \<Rightarrow> semptr \<Rightarrow> semptr \<Rightarrow> kstate \<Rightarrow> (semptr \<times> semptr) kres" where
  "asl_find 0 semAdd prev walker s = (if walker = None then Ok (prev, walker) else Exit HANG)"
| "asl_find (Suc n) semAdd prev walker s =
     (if walker = None then Ok (prev, walker)
      else rbind (rd_semd s walker) (\<lambda>d.
        if s_semAdd d = semAdd then Ok (prev, walker)
        else asl_find n semAdd walker (s_next d) s))"

text \<open>The loop that looks for the last descriptor of the free list.\<close>

fun semd_last :: "nat \<Rightarrow> semptr \<Rightarrow> kstate \<Rightarrow> semptr kres" where
  "semd_last 0 w s = Exit HANG"
| "semd_last (Suc n) w s =
     rbind (rd_semd s w) (\<lambda>d. if s_next d = None then Ok w else semd_last n (s_next d) s)"

text \<open>\<open>removeBlockHelper\<close> takes a descriptor out of the active list (four cases, by whether it
  has a predecessor and a successor) and appends it to the free list.\<close>

definition semd_unlink :: "semptr \<Rightarrow> kstate \<Rightarrow> kstate kres" where
  "semd_unlink walker s =
     rbind (rd_semd s walker) (\<lambda>d.
     if s_prev d \<noteq> None \<and> s_next d \<noteq> None then
       rbind (wr_semd s (s_prev d) (\<lambda>e. e\<lparr>s_next := s_next d\<rparr>)) (\<lambda>s.
       wr_semd s (s_next d) (\<lambda>e. e\<lparr>s_prev := s_prev d\<rparr>))
     else if s_prev d \<noteq> None \<and> s_next d = None then
       wr_semd s (s_prev d) (\<lambda>e. e\<lparr>s_next := None\<rparr>)
     else if s_prev d = None \<and> s_next d \<noteq> None then
       rbind (wr_semd s (s_next d) (\<lambda>e. e\<lparr>s_prev := None\<rparr>)) (\<lambda>s.
       Ok (s\<lparr>cur_sem := s_next d\<rparr>))
     else Ok (s\<lparr>cur_sem := None\<rparr>))"

definition semd_release :: "semptr \<Rightarrow> kstate \<Rightarrow> kstate kres" where
  "semd_release walker s =
     (if free_head_s s = None then
        rbind (wr_semd s walker (\<lambda>e. e\<lparr>s_prev := None, s_next := None, s_semAdd := ENULL_addr\<rparr>)) (\<lambda>s.
        Ok (s\<lparr>free_head_s := walker\<rparr>))
      else
        rbind (semd_last MAXPROC (free_head_s s) s) (\<lambda>walker2.
        rbind (wr_semd s walker2 (\<lambda>e. e\<lparr>s_next := walker\<rparr>)) (\<lambda>s.
        wr_semd s walker (\<lambda>e. e\<lparr>s_prev := walker2, s_next := None, s_semAdd := ENULL_addr\<rparr>))))"

definition removeBlockHelper :: "semptr \<Rightarrow> kstate \<Rightarrow> kstate kres" where
  "removeBlockHelper walker s = rbind (semd_unlink walker s) (semd_release walker)"

text \<open>\<open>insertProc(&(w->s_link), p); setSem(semAdd, p);\<close>\<close>

definition insert_at :: "semptr \<Rightarrow> addr \<Rightarrow> procptr \<Rightarrow> kstate \<Rightarrow> kstate kres" where
  "insert_at w semAdd p s =
     rbind (rd_semd s w) (\<lambda>d.
     rbind (insertProc (s_link d) p s) (\<lambda>(tp, s).
     rbind (wr_semd s w (\<lambda>e. e\<lparr>s_link := tp\<rparr>)) (\<lambda>s.
     setSem semAdd p s)))"

definition insertBlocked :: "addr \<Rightarrow> procptr \<Rightarrow> kstate \<Rightarrow> (bool \<times> kstate) kres" where
  "insertBlocked semAdd p s =
     (if cur_sem s = None then
        let s = s\<lparr>cur_sem := free_head_s s\<rparr> in
        rbind (rd_semd s (free_head_s s)) (\<lambda>d.
        let s = s\<lparr>free_head_s := s_next d\<rparr> in
        rbind (wr_semd s (cur_sem s) (\<lambda>e. e\<lparr>s_next := None\<rparr>)) (\<lambda>s.
        rbind (wr_semd s (free_head_s s) (\<lambda>e. e\<lparr>s_prev := None\<rparr>)) (\<lambda>s.
        rbind (wr_semd s (cur_sem s) (\<lambda>e. e\<lparr>s_semAdd := semAdd\<rparr>)) (\<lambda>s.
        rbind (insert_at (cur_sem s) semAdd p s) (\<lambda>s.
        Ok (False, s))))))
      else
        rbind (asl_find MAXPROC semAdd None (cur_sem s) s) (\<lambda>(prev, walker).
        if walker = None \<and> free_head_s s = None then Ok (True, s)
        else if walker = None then
          let new_sem = free_head_s s in
          rbind (rd_semd s new_sem) (\<lambda>d.
          let s = s\<lparr>free_head_s := s_next d\<rparr> in
          rbind (wr_semd s new_sem (\<lambda>e. e\<lparr>s_next := None, s_semAdd := semAdd\<rparr>)) (\<lambda>s.
          rbind (wr_semd s prev (\<lambda>e. e\<lparr>s_next := new_sem\<rparr>)) (\<lambda>s.
          rbind (wr_semd s new_sem (\<lambda>e. e\<lparr>s_prev := prev\<rparr>)) (\<lambda>s.
          rbind (if free_head_s s \<noteq> None
                 then wr_semd s (free_head_s s) (\<lambda>e. e\<lparr>s_prev := None\<rparr>) else Ok s) (\<lambda>s.
          rbind (insert_at new_sem semAdd p s) (\<lambda>s.
          Ok (False, s)))))))
        else rbind (insert_at walker semAdd p s) (\<lambda>s. Ok (False, s))))"

definition init_semd :: "semd_t \<Rightarrow> semd_t" where
  "init_semd e = \<lparr>s_next = None, s_prev = None, s_semAdd = ENULL_addr, s_link = null_link\<rparr>"

definition initSemd :: "kstate \<Rightarrow> kstate" where
  "initSemd s =
     (let t = fold (\<lambda>i t. t(i := init_semd (t i))) [0..<MAXPROC] (semd_table s);
          t = fold (\<lambda>i t. t(i := (t i)\<lparr>s_next := Some (i + 1), s_prev := Some (i - 1)\<rparr>))
                [1..<MAXPROC - 1] t;
          t = t(0 := (t 0)\<lparr>s_next := Some 1\<rparr>);
          t = t(19 := (t 19)\<lparr>s_prev := Some 18\<rparr>)
      in s\<lparr>semd_table := t, cur_sem := None, free_head_s := Some 0\<rparr>)"

definition headBlocked :: "addr \<Rightarrow> kstate \<Rightarrow> procptr kres" where
  "headBlocked semAdd s =
     (if cur_sem s = None then Ok None
      else rbind (asl_find MAXPROC semAdd None (cur_sem s) s) (\<lambda>(prev, walker).
        if walker \<noteq> None
        then rbind (rd_semd s walker) (\<lambda>d. headQueue (s_link d) s)
        else Ok None))"

definition removeBlocked :: "addr \<Rightarrow> kstate \<Rightarrow> (procptr \<times> kstate) kres" where
  "removeBlocked semAdd s =
     rbind (asl_find MAXPROC semAdd None (cur_sem s) s) (\<lambda>(prev, walker).
     if walker = None then Ok (None, s)
     else
       rbind (rd_semd s walker) (\<lambda>d.
       rbind (removeProc (s_link d) s) (\<lambda>(rv, tp, s).
       rbind (wr_semd s walker (\<lambda>e. e\<lparr>s_link := tp\<rparr>)) (\<lambda>s.
       rbind (setSem2 semAdd rv s) (\<lambda>s.
       rbind (headBlocked semAdd s) (\<lambda>associate_queue.
       rbind (if associate_queue = None then removeBlockHelper walker s else Ok s) (\<lambda>s.
       Ok (rv, s))))))))"

text \<open>
  \<open>outBlocked\<close> goes through the semaphore vector of the process. Every semaphore found
  there is incremented, whether or not it is active.
\<close>

definition out_one :: "nat \<Rightarrow> procptr \<Rightarrow> procptr \<Rightarrow> kstate \<Rightarrow> (procptr \<times> kstate) kres" where
  "out_one i p rv s =
     rbind (rd_proc s p) (\<lambda>e.
     if semvec e i = ENULL_addr then Ok (rv, s)
     else
       let a = semvec e i; s = s\<lparr>heap_int := (heap_int s)(a := heap_int s a + 1)\<rparr> in
       rbind (asl_find MAXPROC a None (cur_sem s) s) (\<lambda>(prev, walker).
       if walker = None then Ok (rv, s)
       else
         rbind (wr_proc s p (\<lambda>e. e\<lparr>semvec := (semvec e)(i := ENULL_addr)\<rparr>)) (\<lambda>s.
         rbind (rd_semd s walker) (\<lambda>d.
         rbind (outProc (s_link d) p s) (\<lambda>(rv, tp, s).
         rbind (wr_semd s walker (\<lambda>e. e\<lparr>s_link := tp\<rparr>)) (\<lambda>s.
         rbind (headBlocked (s_semAdd d) s) (\<lambda>associate_queue.
         rbind (if associate_queue = None then removeBlockHelper walker s else Ok s) (\<lambda>s.
         Ok (rv, s)))))))))"

fun out_loop :: "nat list \<Rightarrow> procptr \<Rightarrow> procptr \<Rightarrow> kstate \<Rightarrow> (procptr \<times> kstate) kres" where
  "out_loop [] p rv s = Ok (rv, s)"
| "out_loop (i # is) p rv s = rbind (out_one i p rv s) (\<lambda>(rv, s). out_loop is p rv s)"

definition outBlocked :: "procptr \<Rightarrow> kstate \<Rightarrow> (procptr \<times> kstate) kres" where
  "outBlocked p s = out_loop [0..<SEMMAX] p None s"

definition headASL :: "kstate \<Rightarrow> bool" where
  "headASL s = (cur_sem s \<noteq> None)"

section \<open>Descriptors as linked lists\<close>

definition nx :: "kstate \<Rightarrow> nat \<Rightarrow> semptr" where "nx s d = s_next (semd_table s d)"
definition pv :: "kstate \<Rightarrow> nat \<Rightarrow> semptr" where "pv s d = s_prev (semd_table s d)"
definition sa :: "kstate \<Rightarrow> nat \<Rightarrow> addr" where "sa s d = s_semAdd (semd_table s d)"
definition sl :: "kstate \<Rightarrow> nat \<Rightarrow> proc_link" where "sl s d = s_link (semd_table s d)"

definition upd_semd :: "nat \<Rightarrow> (semd_t \<Rightarrow> semd_t) \<Rightarrow> kstate \<Rightarrow> kstate" where
  "upd_semd d f s = s\<lparr>semd_table := (semd_table s)(d := f (semd_table s d))\<rparr>"

lemma semd_fold [simp]:
  "s_next (semd_table s d) = nx s d" "s_prev (semd_table s d) = pv s d"
  "s_semAdd (semd_table s d) = sa s d" "s_link (semd_table s d) = sl s d"
  by (simp_all add: nx_def pv_def sa_def sl_def)

lemma upd_semd_fields [simp]:
  "nx (upd_semd d f s) = (nx s)(d := s_next (f (semd_table s d)))"
  "pv (upd_semd d f s) = (pv s)(d := s_prev (f (semd_table s d)))"
  "sa (upd_semd d f s) = (sa s)(d := s_semAdd (f (semd_table s d)))"
  "sl (upd_semd d f s) = (sl s)(d := s_link (f (semd_table s d)))"
  by (auto simp: upd_semd_def nx_def pv_def sa_def sl_def fun_eq_iff simp del: semd_fold)

lemma upd_semd_frame [simp]:
  "cur_sem (upd_semd d f s) = cur_sem s" "free_head_s (upd_semd d f s) = free_head_s s"
  "proc_table (upd_semd d f s) = proc_table s" "running_queue (upd_semd d f s) = running_queue s"
  by (simp_all add: upd_semd_def)

lemma ptr_upd_fields [simp]:
  "nx (s\<lparr>cur_sem := w\<rparr>) = nx s" "pv (s\<lparr>cur_sem := w\<rparr>) = pv s"
  "sa (s\<lparr>cur_sem := w\<rparr>) = sa s" "sl (s\<lparr>cur_sem := w\<rparr>) = sl s"
  "nx (s\<lparr>free_head_s := w\<rparr>) = nx s" "pv (s\<lparr>free_head_s := w\<rparr>) = pv s"
  "sa (s\<lparr>free_head_s := w\<rparr>) = sa s" "sl (s\<lparr>free_head_s := w\<rparr>) = sl s"
  by (auto simp: nx_def pv_def sa_def sl_def fun_eq_iff simp del: semd_fold)

lemma wr_semd_upd: "d < 20 \<Longrightarrow> wr_semd s (Some d) f = Ok (upd_semd d f s)"
  by (simp add: upd_semd_def)

declare wr_semd_Some [simp del]

definition asl_struct :: "kstate \<Rightarrow> nat list \<Rightarrow> nat list \<Rightarrow> bool" where
  "asl_struct s ds fs \<longleftrightarrow>
     cur_sem s = first_of ds \<and> seg (nx s) ds None \<and> seg (pv s) (rev ds) None
     \<and> free_head_s s = first_of fs \<and> seg (nx s) fs None \<and> (fs \<noteq> [] \<longrightarrow> pv s (hd fs) = None)
     \<and> distinct (ds @ fs) \<and> set (ds @ fs) = {..<MAXPROC}"

text \<open>Forgets the descriptor structure: what the helper routines may change.\<close>

definition strip_semd :: "kstate \<Rightarrow> kstate" where
  "strip_semd s = s\<lparr>semd_table := (\<lambda>_. init_semd (semd_table s 0)), cur_sem := None, free_head_s := None\<rparr>"

lemma strip_semd_simps [simp]:
  "strip_semd (upd_semd d f s) = strip_semd s"
  "strip_semd (s\<lparr>cur_sem := w\<rparr>) = strip_semd s"
  "strip_semd (s\<lparr>free_head_s := w\<rparr>) = strip_semd s"
  by (simp_all add: strip_semd_def upd_semd_def init_semd_def)

lemma first_of_rev: "ds \<noteq> [] \<Longrightarrow> first_of (rev ds) = Some (last ds)"
  by (cases ds rule: rev_cases) auto

lemma first_of_hd: "ds \<noteq> [] \<Longrightarrow> first_of ds = Some (hd ds)"
  by (cases ds) auto

lemma semd_unlink_struct:
  assumes st: "asl_struct s (ds1 @ d # ds2) fs"
  shows "\<exists>s'. semd_unlink (Some d) s = Ok s' \<and> strip_semd s' = strip_semd s
    \<and> sa s' = sa s \<and> sl s' = sl s \<and> free_head_s s' = free_head_s s
    \<and> cur_sem s' = first_of (ds1 @ ds2)
    \<and> nx s' = (if ds1 = [] then nx s else (nx s)(last ds1 := first_of ds2))
    \<and> pv s' = (if ds2 = [] then pv s else (pv s)(hd ds2 := first_of (rev ds1)))"
proof -
  have n: "nx s d = first_of ds2" and p: "pv s d = first_of (rev ds1)"
    using st by (auto simp: asl_struct_def seg_append seg_Cons)
  have mem: "set (ds1 @ d # ds2) \<subseteq> {..<20}"
    using st by (auto simp: asl_struct_def)
  then have d: "d < 20" "ds1 \<noteq> [] \<Longrightarrow> last ds1 < 20" "ds2 \<noteq> [] \<Longrightarrow> hd ds2 < 20"
    by (auto dest: last_in_set hd_in_set)
  have c: "cur_sem s = first_of (ds1 @ d # ds2)" using st by (simp add: asl_struct_def)
  show ?thesis
    using n p d c
    by (cases "ds1 = []"; cases "ds2 = []")
      (simp_all add: semd_unlink_def wr_semd_upd first_of_hd hd_rev fun_eq_iff)
qed


lemma semd_last_seg:
  assumes "seg (nx s) (d # ds) None" "\<forall>e \<in> set (d # ds). e < 20" "length ds < n"
  shows "semd_last n (Some d) s = Ok (Some (last (d # ds)))"
  using assms
proof (induction ds arbitrary: d n)
  case Nil
  then show ?case by (cases n) auto
next
  case (Cons e ds)
  then show ?case by (cases n) auto
qed

lemma semd_release_struct:
  assumes head: "free_head_s s = first_of fs" and segf: "seg (nx s) fs None"
    and first: "fs \<noteq> [] \<Longrightarrow> pv s (hd fs) = None"
    and rng: "distinct (d # fs)" "\<forall>e \<in> set (d # fs). e < 20" "length fs \<le> 20"
  shows "\<exists>s'. semd_release (Some d) s = Ok s' \<and> strip_semd s' = strip_semd s
    \<and> sa s' = (sa s)(d := ENULL_addr) \<and> sl s' = sl s \<and> cur_sem s' = cur_sem s
    \<and> free_head_s s' = first_of (fs @ [d])
    \<and> nx s' = (if fs = [] then (nx s)(d := None) else (nx s)(last fs := Some d, d := None))
    \<and> pv s' = (pv s)(d := if fs = [] then None else Some (last fs))"
proof (cases fs)
  case Nil
  then show ?thesis using head rng by (simp add: semd_release_def wr_semd_upd)
next
  case (Cons f gs)
  have l: "semd_last 20 (Some f) s = Ok (Some (last fs))"
    using Cons segf rng semd_last_seg [of s f gs 20] by simp
  have "last fs \<in> set fs" using Cons by simp
  then have "last fs < 20" "last fs \<noteq> d" using rng by auto
  with head l Cons rng show ?thesis
    by (auto simp: semd_release_def wr_semd_upd fun_eq_iff simp del: last.simps)
qed

lemma removeBlockHelper_struct:
  assumes st: "asl_struct s (ds1 @ d # ds2) fs"
  shows "\<exists>s'. removeBlockHelper (Some d) s = Ok s' \<and> strip_semd s' = strip_semd s
    \<and> asl_struct s' (ds1 @ ds2) (fs @ [d]) \<and> sa s' = (sa s)(d := ENULL_addr) \<and> sl s' = sl s"
proof -
  from semd_unlink_struct [OF st] obtain s1 where s1:
    "semd_unlink (Some d) s = Ok s1" "strip_semd s1 = strip_semd s" "sa s1 = sa s" "sl s1 = sl s"
    "free_head_s s1 = free_head_s s" "cur_sem s1 = first_of (ds1 @ ds2)"
    "nx s1 = (if ds1 = [] then nx s else (nx s)(last ds1 := first_of ds2))"
    "pv s1 = (if ds2 = [] then pv s else (pv s)(hd ds2 := first_of (rev ds1)))"
    by blast
  have dist: "distinct ds1" "distinct ds2" "distinct fs" "d \<notin> set ds1" "d \<notin> set ds2" "d \<notin> set fs"
    "set ds1 \<inter> set ds2 = {}" "set ds1 \<inter> set fs = {}" "set ds2 \<inter> set fs = {}"
    and all: "set ds1 \<union> {d} \<union> set ds2 \<union> set fs = {..<20}"
    using st by (auto simp: asl_struct_def)
  have l1: "ds1 \<noteq> [] \<Longrightarrow> last ds1 \<in> set ds1" and h2: "ds2 \<noteq> [] \<Longrightarrow> hd ds2 \<in> set ds2"
    and lf: "fs \<noteq> [] \<Longrightarrow> last fs \<in> set fs" and hf: "fs \<noteq> [] \<Longrightarrow> hd fs \<in> set fs" by auto
  have nin: "ds1 \<noteq> [] \<Longrightarrow> last ds1 \<notin> set fs" "ds1 \<noteq> [] \<Longrightarrow> last ds1 \<notin> set ds2"
    "ds2 \<noteq> [] \<Longrightarrow> hd ds2 \<notin> set ds1" "ds2 \<noteq> [] \<Longrightarrow> hd ds2 \<notin> set fs"
    "fs \<noteq> [] \<Longrightarrow> last fs \<notin> set ds1" "fs \<noteq> [] \<Longrightarrow> last fs \<notin> set ds2"
    using dist l1 h2 lf by blast+
  have nin': "ds2 \<noteq> [] \<Longrightarrow> fs \<noteq> [] \<Longrightarrow> hd fs \<noteq> hd ds2" "fs \<noteq> [] \<Longrightarrow> hd fs \<noteq> d"
    "fs \<noteq> [] \<Longrightarrow> last fs \<noteq> d"
    using dist hf lf nin by metis+
  have segs: "seg (nx s) ds1 (Some d)" "seg (nx s) ds2 None" "seg (nx s) fs None"
    "seg (pv s) (rev ds2) (Some d)" "seg (pv s) (rev ds1) None" "fs \<noteq> [] \<Longrightarrow> pv s (hd fs) = None"
    "free_head_s s = first_of fs"
    using st by (auto simp: asl_struct_def seg_append seg_Cons)
  have len: "length fs \<le> 20"
    using distinct_card [OF dist(3)] card_mono [of "{..<20 :: nat}" "set fs"] all by auto
  have f1: "seg (nx s1) fs None"
    using segs(3) nin s1(7) by auto
  have g1: "pv s1 (hd fs) = None" if "fs \<noteq> []"
    using segs(6) that nin' s1(8) by (auto simp: fun_upd_def)
  from semd_release_struct [of s1 fs d] s1(5) segs(7) f1 g1 dist all len
  obtain s2 where s2: "semd_release (Some d) s1 = Ok s2" "strip_semd s2 = strip_semd s1"
    "sa s2 = (sa s1)(d := ENULL_addr)" "sl s2 = sl s1" "cur_sem s2 = cur_sem s1"
    "free_head_s s2 = first_of (fs @ [d])"
    "nx s2 = (if fs = [] then (nx s1)(d := None) else (nx s1)(last fs := Some d, d := None))"
    "pv s2 = (pv s1)(d := if fs = [] then None else Some (last fs))"
    by (metis (no_types, lifting) UnCI distinct.simps(2) lessThan_iff list.set_intros(1) set_ConsD insertI1)
  have n1: "seg (nx s1) ds1 (first_of ds2)"
    using segs(1) dist s1(7) by (cases "ds1 = []") (auto intro: seg_redirect)
  have n2: "seg (nx s1) ds2 None"
    using segs(2) nin s1(7) by auto
  have lr: "last (rev ds2) = hd ds2" by (simp add: last_rev)
  have p2: "seg (pv s1) (rev ds2) (first_of (rev ds1))"
    using segs(4) dist s1(8) seg_redirect [of "pv s" "rev ds2" "Some d" "first_of (rev ds1)"]
    by (cases "ds2 = []") (auto simp: lr)
  have p1: "seg (pv s1) (rev ds1) None"
    using segs(5) nin s1(8) by auto
  have N: "seg (nx s2) (ds1 @ ds2) None"
    using n1 n2 dist nin s2(7) by (auto simp: seg_append)
  have P: "seg (pv s2) (rev (ds1 @ ds2)) None"
    using p1 p2 dist s2(8) by (auto simp: seg_append)
  have F: "seg (nx s2) (fs @ [d]) None"
    using f1 dist lf s2(7) seg_redirect [of "nx s1" fs None "Some d"]
    by (cases "fs = []") (auto simp: seg_append)
  have H: "pv s2 (hd (fs @ [d])) = None"
    using g1 s2(8) nin' by (cases "fs = []") (auto simp: fun_upd_def)
  have "asl_struct s2 (ds1 @ ds2) (fs @ [d])"
    using N P F H s2(5,6) s1(6) dist all by (auto simp: asl_struct_def)
  with s1 s2 show ?thesis by (auto simp: removeBlockHelper_def)
qed

end
