(* ===== verification/Queues.thy ===== *)
theory Queues
  imports Asl
begin

text \<open>
  The two queue modules together: one invariant \<open>wf\<close> over the process table, the free
  lists, the ready queue and the active semaphore list, and the abstract state it
  represents. A ghost value lists the slots of every queue. All operations of
  \<open>procq.c\<close> and \<open>asl.c\<close> are shown to act on the ghost as on plain lists of processes.
\<close>

section \<open>Observations and frames\<close>

definition qc :: "kstate \<Rightarrow> nat \<Rightarrow> int" where "qc s p = qcount (proc_table s p)"
definition sv :: "kstate \<Rightarrow> nat \<Rightarrow> nat \<Rightarrow> addr" where "sv s p = semvec (proc_table s p)"

definition set_sv :: "nat \<Rightarrow> nat \<Rightarrow> addr \<Rightarrow> kstate \<Rightarrow> kstate" where
  "set_sv p i a s = s\<lparr>proc_table := (proc_table s)(p :=
     (proc_table s p)\<lparr>semvec := (semvec (proc_table s p))(i := a)\<rparr>)\<rparr>"

text \<open>What is left of a state when the queue structures are forgotten.\<close>

definition core :: "kstate \<Rightarrow> kstate" where
  "core s = s\<lparr>
     proc_table := (\<lambda>p. (proc_table s p)
       \<lparr>p_link := (\<lambda>_. null_link), qcount := 0, semvec := (\<lambda>_. ENULL_addr)\<rparr>),
     semd_table := (\<lambda>_. init_semd (semd_table s 0)), cur_sem := None, free_head_s := None,
     free_head := None, running_queue := null_link\<rparr>"

lemma core_updates [simp, hoca_frame]:
  "core (set_lnk x l s) = core s" "core (add_qcount p d s) = core s"
  "core (upd_semd w f s) = core s" "core (set_sv p i a s) = core s"
  "core (s\<lparr>cur_sem := w'\<rparr>) = core s" "core (s\<lparr>free_head_s := w'\<rparr>) = core s"
  "core (s\<lparr>free_head := h\<rparr>) = core s" "core (s\<lparr>running_queue := q\<rparr>) = core s"
  by (auto simp: core_def set_lnk_def add_qcount_def upd_semd_def set_sv_def init_semd_def
      fun_eq_iff intro!: kstate.equality)

lemma core_strip_semd: "strip_semd s = strip_semd t \<Longrightarrow> core s = core t"
proof -
  assume a: "strip_semd s = strip_semd t"
  have "core (strip_semd u) = core u" for u
    by (simp add: core_def strip_semd_def init_semd_def)
  with a show ?thesis by metis
qed

lemma core_enq_out [simp, hoca_frame]:
  "core (enq_state xs x s) = core s" "core (out_state as x bs s) = core s"
  by (simp_all add: enq_state_def out_state_def)

lemma core_heap_int: "core (s\<lparr>heap_int := h\<rparr>) = (core s)\<lparr>heap_int := h\<rparr>"
  by (simp add: core_def)

lemma core_eqD:
  assumes "core s = core t"
  shows "heap_int s = heap_int t" "heap_state s = heap_state t" "heap_vpop s = heap_vpop t"
    "clock_at s = clock_at t" "clock_reads s = clock_reads t" "interval_timer s = interval_timer t"
    "devreg s = devreg t" "save_arr s = save_arr t" "clock_count s = clock_count t"
    "clock_lock_at s = clock_lock_at t" "dev_sem_at s = dev_sem_at t"
    "parent (proc_table s p) = parent (proc_table t p)"
    "child (proc_table s p) = child (proc_table t p)"
    "brother (proc_table s p) = brother (proc_table t p)"
    "p_s (proc_table s p) = p_s (proc_table t p)"
proof -
  have e: "heap_int (core s) = heap_int (core t)" "heap_state (core s) = heap_state (core t)"
    "heap_vpop (core s) = heap_vpop (core t)" "clock_at (core s) = clock_at (core t)"
    "clock_reads (core s) = clock_reads (core t)" "interval_timer (core s) = interval_timer (core t)"
    "devreg (core s) = devreg (core t)" "save_arr (core s) = save_arr (core t)"
    "clock_count (core s) = clock_count (core t)"
    "clock_lock_at (core s) = clock_lock_at (core t)" "dev_sem_at (core s) = dev_sem_at (core t)"
    "parent (proc_table (core s) p) = parent (proc_table (core t) p)"
    "child (proc_table (core s) p) = child (proc_table (core t) p)"
    "brother (proc_table (core s) p) = brother (proc_table (core t) p)"
    "p_s (proc_table (core s) p) = p_s (proc_table (core t) p)"
    using assms by simp_all
  show "heap_int s = heap_int t" "heap_state s = heap_state t" "heap_vpop s = heap_vpop t"
    "clock_at s = clock_at t" "clock_reads s = clock_reads t" "interval_timer s = interval_timer t"
    "devreg s = devreg t" "save_arr s = save_arr t" "clock_count s = clock_count t"
    "clock_lock_at s = clock_lock_at t" "dev_sem_at s = dev_sem_at t"
    "parent (proc_table s p) = parent (proc_table t p)"
    "child (proc_table s p) = child (proc_table t p)"
    "brother (proc_table s p) = brother (proc_table t p)"
    "p_s (proc_table s p) = p_s (proc_table t p)"
    using e by (simp_all add: core_def)
qed

lemma core_proc_eqD:
  assumes "core s = core t"
  shows "cpu_time (proc_table s p) = cpu_time (proc_table t p)"
    "start_t (proc_table s p) = start_t (proc_table t p)"
    "prog_old (proc_table s p) = prog_old (proc_table t p)"
    "prog_new (proc_table s p) = prog_new (proc_table t p)"
    "memory_management_old (proc_table s p) = memory_management_old (proc_table t p)"
    "memory_management_new (proc_table s p) = memory_management_new (proc_table t p)"
    "system_call_old (proc_table s p) = system_call_old (proc_table t p)"
    "system_call_new (proc_table s p) = system_call_new (proc_table t p)"
    "print_polls s = print_polls t"
    "print_buf s = print_buf t"
    "print_buf_at s = print_buf_at t"
proof -
  have e: "cpu_time (proc_table (core s) p) = cpu_time (proc_table (core t) p)"
    "start_t (proc_table (core s) p) = start_t (proc_table (core t) p)"
    "prog_old (proc_table (core s) p) = prog_old (proc_table (core t) p)"
    "prog_new (proc_table (core s) p) = prog_new (proc_table (core t) p)"
    "memory_management_old (proc_table (core s) p) = memory_management_old (proc_table (core t) p)"
    "memory_management_new (proc_table (core s) p) = memory_management_new (proc_table (core t) p)"
    "system_call_old (proc_table (core s) p) = system_call_old (proc_table (core t) p)"
    "system_call_new (proc_table (core s) p) = system_call_new (proc_table (core t) p)"
    "print_polls (core s) = print_polls (core t)"
    "print_buf (core s) = print_buf (core t)"
    "print_buf_at (core s) = print_buf_at (core t)"
    using assms by simp_all
  show "cpu_time (proc_table s p) = cpu_time (proc_table t p)"
    "start_t (proc_table s p) = start_t (proc_table t p)"
    "prog_old (proc_table s p) = prog_old (proc_table t p)"
    "prog_new (proc_table s p) = prog_new (proc_table t p)"
    "memory_management_old (proc_table s p) = memory_management_old (proc_table t p)"
    "memory_management_new (proc_table s p) = memory_management_new (proc_table t p)"
    "system_call_old (proc_table s p) = system_call_old (proc_table t p)"
    "system_call_new (proc_table s p) = system_call_new (proc_table t p)"
    "print_polls s = print_polls t"
    "print_buf s = print_buf t"
    "print_buf_at s = print_buf_at t"
    using e by (simp_all add: core_def)
qed

text \<open>Which observation each elementary update changes.\<close>

lemma semd_obs_frame [simp]:
  "nx (set_lnk x l s) = nx s" "pv (set_lnk x l s) = pv s" "sa (set_lnk x l s) = sa s" "sl (set_lnk x l s) = sl s"
  "nx (add_qcount p d s) = nx s" "pv (add_qcount p d s) = pv s" "sa (add_qcount p d s) = sa s" "sl (add_qcount p d s) = sl s"
  "nx (set_sv p i a s) = nx s" "pv (set_sv p i a s) = pv s" "sa (set_sv p i a s) = sa s" "sl (set_sv p i a s) = sl s"
  "nx (s\<lparr>running_queue := q\<rparr>) = nx s" "pv (s\<lparr>running_queue := q\<rparr>) = pv s"
  "sa (s\<lparr>running_queue := q\<rparr>) = sa s" "sl (s\<lparr>running_queue := q\<rparr>) = sl s"
  "nx (s\<lparr>heap_int := h\<rparr>) = nx s" "pv (s\<lparr>heap_int := h\<rparr>) = pv s"
  "sa (s\<lparr>heap_int := h\<rparr>) = sa s" "sl (s\<lparr>heap_int := h\<rparr>) = sl s"
  "nx (s\<lparr>free_head := f\<rparr>) = nx s" "pv (s\<lparr>free_head := f\<rparr>) = pv s"
  "sa (s\<lparr>free_head := f\<rparr>) = sa s" "sl (s\<lparr>free_head := f\<rparr>) = sl s"
  by (auto simp: nx_def pv_def sa_def sl_def set_lnk_def add_qcount_def set_sv_def fun_eq_iff simp del: semd_fold)

lemma ptr_obs_frame [simp]:
  "cur_sem (set_lnk x l s) = cur_sem s" "free_head_s (set_lnk x l s) = free_head_s s"
  "free_head (set_lnk x l s) = free_head s" "running_queue (set_lnk x l s) = running_queue s"
  "cur_sem (add_qcount p d s) = cur_sem s" "free_head_s (add_qcount p d s) = free_head_s s"
  "free_head (add_qcount p d s) = free_head s" "running_queue (add_qcount p d s) = running_queue s"
  "cur_sem (set_sv p i a s) = cur_sem s" "free_head_s (set_sv p i a s) = free_head_s s"
  "free_head (set_sv p i a s) = free_head s" "running_queue (set_sv p i a s) = running_queue s"
  "free_head (upd_semd w f s) = free_head s"
  by (simp_all add: set_lnk_def add_qcount_def set_sv_def upd_semd_def)

lemma proc_obs [simp]:
  "lnk (set_sv p i a s) = lnk s" "lnk (upd_semd w f s) = lnk s"
  "lnk (s\<lparr>cur_sem := w'\<rparr>) = lnk s" "lnk (s\<lparr>free_head_s := w'\<rparr>) = lnk s"
  "lnk (s\<lparr>free_head := h\<rparr>) = lnk s" "lnk (s\<lparr>running_queue := q\<rparr>) = lnk s"
  "lnk (s\<lparr>heap_int := m\<rparr>) = lnk s"
  "qc (set_sv p i a s) = qc s" "qc (upd_semd w f s) = qc s" "qc (set_lnk x l s) = qc s"
  "qc (s\<lparr>cur_sem := w'\<rparr>) = qc s" "qc (s\<lparr>free_head_s := w'\<rparr>) = qc s"
  "qc (s\<lparr>free_head := h\<rparr>) = qc s" "qc (s\<lparr>running_queue := q\<rparr>) = qc s"
  "qc (s\<lparr>heap_int := m\<rparr>) = qc s"
  "qc (add_qcount p d s) = (qc s)(p := qc s p + d)"
  "sv (set_lnk x l s) = sv s" "sv (upd_semd w f s) = sv s" "sv (add_qcount p d s) = sv s"
  "sv (s\<lparr>cur_sem := w'\<rparr>) = sv s" "sv (s\<lparr>free_head_s := w'\<rparr>) = sv s"
  "sv (s\<lparr>free_head := h\<rparr>) = sv s" "sv (s\<lparr>running_queue := q\<rparr>) = sv s"
  "sv (s\<lparr>heap_int := m\<rparr>) = sv s"
  "sv (set_sv p i a s) = (sv s)(p := (sv s p)(i := a))"
  by (auto simp: fun_eq_iff lnk_def qc_def sv_def set_sv_def upd_semd_def set_lnk_def add_qcount_def)

lemma enq_obs [simp]:
  "nx (enq_state xs x s) = nx s" "pv (enq_state xs x s) = pv s" "sa (enq_state xs x s) = sa s"
  "sl (enq_state xs x s) = sl s" "sv (enq_state xs x s) = sv s"
  "qc (enq_state xs x s) = (qc s)(fst x := qc s (fst x) + 1)"
  "cur_sem (enq_state xs x s) = cur_sem s" "free_head_s (enq_state xs x s) = free_head_s s"
  "free_head (enq_state xs x s) = free_head s" "running_queue (enq_state xs x s) = running_queue s"
  by (simp_all add: enq_state_def)

lemma out_obs [simp]:
  "nx (out_state as x bs s) = nx s" "pv (out_state as x bs s) = pv s" "sa (out_state as x bs s) = sa s"
  "sl (out_state as x bs s) = sl s" "sv (out_state as x bs s) = sv s"
  "qc (out_state as x bs s) = (qc s)(fst x := qc s (fst x) - 1)"
  "cur_sem (out_state as x bs s) = cur_sem s" "free_head_s (out_state as x bs s) = free_head_s s"
  "free_head (out_state as x bs s) = free_head s" "running_queue (out_state as x bs s) = running_queue s"
  by (simp_all add: out_state_def)

lemma pring_lnk_cong:
  assumes "pring s tp xs" "\<And>x. x \<in> set xs \<Longrightarrow> lnk t x = lnk s x"
  shows "pring t tp xs"
  using assms by (auto simp: pring_def intro: ring_cong)

lemma pring_lnk_eq: "lnk t = lnk s \<Longrightarrow> pring t = pring s"
  by (auto simp: fun_eq_iff intro!: pring_lnk_cong [of s _ _ t] pring_lnk_cong [of t _ _ s])

lemma pring_frame [simp]:
  "pring (s\<lparr>running_queue := q\<rparr>) = pring s" "pring (s\<lparr>heap_int := m\<rparr>) = pring s"
  "pring (s\<lparr>cur_sem := w\<rparr>) = pring s" "pring (s\<lparr>free_head_s := w\<rparr>) = pring s"
  "pring (upd_semd d f s) = pring s" "pring (set_sv p i a s) = pring s"
  by (rule pring_lnk_eq, simp)+

section \<open>Which links of an entry are in use\<close>

text \<open>
  \<open>links_ok s F U\<close>: \<open>F\<close> is the set of free entries and \<open>U\<close> the set of slots in queues.
  A link is null exactly when its slot is in no queue (the link 0 of a free entry, which
  threads the free list, apart), and \<open>qcount\<close> counts the slots of an entry in use.
\<close>

definition links_ok :: "kstate \<Rightarrow> nat set \<Rightarrow> slot set \<Rightarrow> bool" where
  "links_ok s F U \<longleftrightarrow>
     (\<forall>x \<in> U. valid_slot x \<and> fst x \<notin> F \<and> index (lnk s x) \<noteq> ENULL)
     \<and> (\<forall>p < MAXPROC. p \<notin> F \<longrightarrow> (\<forall>i < SEMMAX. (p, i) \<notin> U \<longrightarrow> lnk s (p, i) = null_link))
     \<and> (\<forall>p \<in> F. \<forall>i < SEMMAX. 0 < i \<longrightarrow> lnk s (p, i) = null_link)
     \<and> (\<forall>p < MAXPROC. qc s p = int (card {i. i < SEMMAX \<and> (p, i) \<in> U}))"

lemma links_ok_free: "links_ok s F U \<Longrightarrow> q \<in> F \<Longrightarrow> (q, i) \<notin> U"
  by (force simp: links_ok_def)

lemma links_ok_cong:
  assumes "links_ok s F U" "lnk t = lnk s" "qc t = qc s"
  shows "links_ok t F U"
  using assms by (simp add: links_ok_def)

lemma free_slot_iff:
  assumes "links_ok s F U" "p < 20" "p \<notin> F"
  shows "free_slot s p < 10 \<longleftrightarrow> (\<exists>i < 10. (p, i) \<notin> U)"
proof -
  have "index (lnk s (p, i)) = - 1 \<longleftrightarrow> (p, i) \<notin> U" if "i < 10" for i
    using assms that by (auto simp: links_ok_def)
  then show ?thesis by (auto simp: free_slot_def scan_less_iff lnk_def)
qed

lemma free_slot_unused:
  assumes "links_ok s F U" "p < 20" "free_slot s p < 10"
  shows "(p, free_slot s p) \<notin> U"
  using assms free_slot_valid [of p s] by (auto simp: links_ok_def)

lemma card_slot_insert:
  assumes "(p, i) \<notin> U" "i < 10"
  shows "card {j. j < (10::nat) \<and> (q, j) \<in> insert (p, i) U}
    = card {j. j < 10 \<and> (q, j) \<in> U} + (if q = p then 1 else 0)"
proof (cases "q = p")
  case True
  then have "{j. j < 10 \<and> (q, j) \<in> insert (p, i) U} = insert i {j. j < 10 \<and> (q, j) \<in> U}"
    using assms by auto
  with True assms show ?thesis by simp
qed simp

lemma card_slot_remove:
  assumes "(p, i) \<in> U" "i < 10"
  shows "card {j. j < (10::nat) \<and> (q, j) \<in> U - {(p, i)}}
    = card {j. j < 10 \<and> (q, j) \<in> U} - (if q = p then 1 else 0)"
    and "q = p \<Longrightarrow> 0 < card {j. j < (10::nat) \<and> (q, j) \<in> U}"
proof -
  show "card {j. j < (10::nat) \<and> (q, j) \<in> U - {(p, i)}}
    = card {j. j < 10 \<and> (q, j) \<in> U} - (if q = p then 1 else 0)"
  proof (cases "q = p")
    case True
    then have "{j. j < 10 \<and> (q, j) \<in> U - {(p, i)}} = {j. j < 10 \<and> (q, j) \<in> U} - {i}"
      by auto
    with True assms show ?thesis by simp
  qed (auto intro: arg_cong [where f = card])
  show "q = p \<Longrightarrow> 0 < card {j. j < (10::nat) \<and> (q, j) \<in> U}"
    using assms by (auto simp: card_gt_0_iff)
qed

lemma links_enq:
  assumes ok: "links_ok s F U" and r: "ring s tp xs" and sub: "set xs \<subseteq> U"
    and p: "p < 20" "p \<notin> F" and f: "free_slot s p < 10"
  shows "links_ok (enq_state xs (p, free_slot s p) s) F (insert (p, free_slot s p) U)"
proof -
  let ?x = "(p, free_slot s p)"
  have nin: "?x \<notin> U" by (rule free_slot_unused [OF ok p(1) f])
  have v: "valid_slot ?x" using free_slot_valid [OF p(1) f] by simp
  have used: "index (lnk (enq_state xs ?x s) y) \<noteq> ENULL" if "y \<in> insert ?x U" for y
    using that ok lnk_enq_state_used [OF r, of y ?x] lnk_enq_state [of y xs ?x s]
    by (cases "y \<in> set xs \<or> y = ?x") (auto simp: links_ok_def)
  have same: "lnk (enq_state xs ?x s) y = lnk s y" if "y \<notin> insert ?x U" for y
    using that sub by (intro lnk_enq_state) auto
  have F: "lnk (enq_state xs ?x s) (q, i) = lnk s (q, i)" if "q \<in> F" for q i
    using that p links_ok_free [OF ok that, of i] sub by (intro lnk_enq_state) auto
  define U' where "U' = insert ?x U"
  have c: "card {j. j < (10::nat) \<and> (q, j) \<in> U'}
      = card {j. j < 10 \<and> (q, j) \<in> U} + (if q = p then 1 else 0)" for q
    unfolding U'_def by (rule card_slot_insert [OF nin f])
  have "valid_slot y \<and> fst y \<notin> F \<and> index (lnk (enq_state xs ?x s) y) \<noteq> ENULL" if "y \<in> U'" for y
    using that ok v used [of y] p by (auto simp: U'_def links_ok_def)
  moreover have "lnk (enq_state xs ?x s) (q, i) = null_link"
    if "(q, i) \<notin> U'" "q < 20" "q \<notin> F" "i < 10" for q i
    using that ok same [of "(q, i)"] by (auto simp: U'_def links_ok_def)
  ultimately have "links_ok (enq_state xs ?x s) F U'"
    using ok F p by (auto simp: links_ok_def c)
  then show ?thesis by (simp add: U'_def)
qed

lemma links_out:
  assumes ok: "links_ok s F U" and r: "ring s tp (as @ x # bs)" and sub: "set (as @ x # bs) \<subseteq> U"
  shows "links_ok (out_state as x bs s) F (U - {x})"
proof -
  let ?t = "out_state as x bs s"
  have xU: "x \<in> U" using sub by auto
  then have v: "valid_slot x" "fst x \<notin> F" using ok by (auto simp: links_ok_def)
  have nr: "ring ?t (tail_link (as @ bs)) (as @ bs)" by (rule ring_out_state [OF r])
  have used: "index (lnk ?t y) \<noteq> ENULL" if "y \<in> U - {x}" for y
    using that ok ring_used [OF nr, of y] lnk_out_state [of y as x bs s]
    by (cases "y \<in> set (as @ bs)") (auto simp: links_ok_def)
  have same: "lnk ?t y = (if y = x then null_link else lnk s y)" if "y \<notin> U - {x}" for y
  proof (cases "y = x")
    case False
    with that sub have "y \<notin> set (as @ x # bs)" by blast
    with False show ?thesis by (simp add: lnk_out_state)
  qed (simp add: lnk_out_state_self)
  have F: "lnk ?t (q, i) = lnk s (q, i)" if "q \<in> F" for q i
    using links_ok_free [OF ok that, of i] sub by (intro lnk_out_state) auto
  have c: "int (card {j. j < 10 \<and> (q, j) \<in> U - {x}})
      = int (card {j. j < 10 \<and> (q, j) \<in> U}) - (if q = fst x then 1 else 0)" for q
    using card_slot_remove [of "fst x" "snd x" U q] xU v
    by (cases "q = fst x") (simp_all add: valid_slot_def of_nat_diff Suc_leI)
  define U' where "U' = U - {x}"
  have c': "int (card {j. j < 10 \<and> (q, j) \<in> U'})
      = int (card {j. j < 10 \<and> (q, j) \<in> U}) - (if q = fst x then 1 else 0)" for q
    using c by (simp add: U'_def)
  have "valid_slot y \<and> fst y \<notin> F \<and> index (lnk ?t y) \<noteq> ENULL" if "y \<in> U'" for y
    using that ok used [of y] by (auto simp: U'_def links_ok_def)
  moreover have "lnk ?t (q, i) = null_link"
    if "(q, i) \<notin> U'" "q < 20" "q \<notin> F" "i < 10" for q i
    using that ok same [of "(q, i)"] by (auto simp: U'_def links_ok_def)
  ultimately have "links_ok ?t F U'"
    using ok F by (auto simp: links_ok_def c')
  then show ?thesis by (simp add: U'_def)
qed

section \<open>The invariant of the queue modules\<close>

type_synonym sem_entry = "nat \<times> addr \<times> slot list"

abbreviation sem_of :: "sem_entry \<Rightarrow> addr" where "sem_of e \<equiv> fst (snd e)"
abbreviation slots_of :: "sem_entry \<Rightarrow> slot list" where "slots_of e \<equiv> snd (snd e)"

record ghost =
  g_rq :: "slot list"
  g_asl :: "sem_entry list"
  g_sfree :: "nat list"
  g_free :: "nat list"

definition all_slots :: "ghost \<Rightarrow> slot list" where
  "all_slots g = g_rq g @ concat (map slots_of (g_asl g))"

definition blocked_on :: "sem_entry list \<Rightarrow> nat \<Rightarrow> addr \<Rightarrow> bool" where
  "blocked_on as p a \<longleftrightarrow> (\<exists>e \<in> set as. sem_of e = a \<and> p \<in> fst ` set (slots_of e))"

definition entry_ok :: "kstate \<Rightarrow> sem_entry \<Rightarrow> bool" where
  "entry_ok s e \<longleftrightarrow> sa s (fst e) = sem_of e \<and> sem_of e \<noteq> ENULL_addr
     \<and> pring s (sl s (fst e)) (slots_of e)"

definition semvec_ok :: "kstate \<Rightarrow> sem_entry list \<Rightarrow> bool" where
  "semvec_ok s as \<longleftrightarrow> (\<forall>p < MAXPROC. \<forall>a. a \<noteq> ENULL_addr \<longrightarrow>
     card {i. i < SEMMAX \<and> sv s p i = a} = (if blocked_on as p a then 1 else 0))"

definition asl_ok :: "kstate \<Rightarrow> sem_entry list \<Rightarrow> nat list \<Rightarrow> bool" where
  "asl_ok s as ds \<longleftrightarrow> asl_struct s (map fst as) ds \<and> list_all (entry_ok s) as
     \<and> distinct (map sem_of as) \<and> list_all (\<lambda>d. sl s d = null_link) ds"

definition base_ok :: "kstate \<Rightarrow> nat list \<Rightarrow> slot set \<Rightarrow> bool" where
  "base_ok s F U \<longleftrightarrow> freelist s F \<and> links_ok s (set F) U"

text \<open>
  \<open>wf0\<close> allows active descriptors with an empty queue, as they exist inside
  \<open>insertBlocked\<close> and \<open>removeBlocked\<close>; between operations, \<open>wf\<close> holds: a semaphore
  is active exactly when a process is blocked on it.
\<close>

definition wf0 :: "kstate \<Rightarrow> ghost \<Rightarrow> bool" where
  "wf0 s g \<longleftrightarrow> pring s (running_queue s) (g_rq g) \<and> asl_ok s (g_asl g) (g_sfree g)
     \<and> distinct (all_slots g) \<and> base_ok s (g_free g) (set (all_slots g))
     \<and> semvec_ok s (g_asl g)"

definition wf :: "kstate \<Rightarrow> ghost \<Rightarrow> bool" where
  "wf s g \<longleftrightarrow> wf0 s g \<and> list_all (\<lambda>e. slots_of e \<noteq> []) (g_asl g)"

lemma asl_struct_cong:
  assumes "asl_struct s ds fs" "nx t = nx s" "pv t = pv s" "cur_sem t = cur_sem s"
    "free_head_s t = free_head_s s"
  shows "asl_struct t ds fs"
  using assms by (simp add: asl_struct_def)

lemma semvec_ok_cong: "semvec_ok s as \<Longrightarrow> sv t = sv s \<Longrightarrow> semvec_ok t as"
  by (simp add: semvec_ok_def)

lemma freelist_lnk_cong:
  assumes "freelist s F" "free_head t = free_head s"
    "\<And>p. p \<in> set F \<Longrightarrow> lnk t (p, 0) = lnk s (p, 0)"
  shows "freelist t F"
  using assms by (auto intro: freelist_cong)

lemma base_ok_cong:
  assumes "base_ok s F U" "lnk t = lnk s" "qc t = qc s" "free_head t = free_head s"
  shows "base_ok t F U"
  using assms by (auto simp: base_ok_def intro: freelist_lnk_cong links_ok_cong)

lemma base_enq:
  assumes b: "base_ok s F U" and r: "ring s tp xs" and sub: "set xs \<subseteq> U"
    and p: "p < 20" "p \<notin> set F" and f: "free_slot s p < 10"
  shows "base_ok (enq_state xs (p, free_slot s p) s) F (insert (p, free_slot s p) U)"
proof -
  have ok: "links_ok s (set F) U" using b by (simp add: base_ok_def)
  have "lnk (enq_state xs (p, free_slot s p) s) (q, 0) = lnk s (q, 0)" if "q \<in> set F" for q
    using links_ok_free [OF ok that] that p sub by (intro lnk_enq_state) auto
  with b links_enq [OF ok r sub p f] show ?thesis
    by (auto simp: base_ok_def intro: freelist_lnk_cong)
qed

lemma base_out:
  assumes b: "base_ok s F U" and r: "ring s tp (as @ x # bs)" and sub: "set (as @ x # bs) \<subseteq> U"
  shows "base_ok (out_state as x bs s) F (U - {x})"
proof -
  have ok: "links_ok s (set F) U" using b by (simp add: base_ok_def)
  have "lnk (out_state as x bs s) (q, 0) = lnk s (q, 0)" if "q \<in> set F" for q
    using links_ok_free [OF ok that] sub by (intro lnk_out_state) auto
  with b links_out [OF ok r sub] show ?thesis
    by (auto simp: base_ok_def intro: freelist_lnk_cong)
qed

lemma pring_enq_other:
  assumes "pring s tp ys" "set ys \<inter> set xs = {}" "x \<notin> set ys"
  shows "pring (enq_state xs x s) tp ys"
  using assms by (intro pring_lnk_cong [OF assms(1)] lnk_enq_state) auto

lemma pring_out_other:
  assumes "pring s tp ys" "set ys \<inter> set (as @ x # bs) = {}"
  shows "pring (out_state as x bs s) tp ys"
  using assms by (intro pring_lnk_cong [OF assms(1)] lnk_out_state) auto

lemma base_slot_unused:
  assumes "base_ok s F U" "p < 20" "free_slot s p < 10"
  shows "(p, free_slot s p) \<notin> U"
  using assms free_slot_unused by (auto simp: base_ok_def)

lemma base_free_slot:
  assumes "base_ok s F U" "p < 20" "p \<notin> set F" "\<exists>i < 10. (p, i) \<notin> U"
  shows "free_slot s p < 10"
  using assms free_slot_iff by (auto simp: base_ok_def)

lemma entry_ok_cong:
  assumes "entry_ok s e" "sa t (fst e) = sa s (fst e)" "sl t (fst e) = sl s (fst e)"
    "\<And>x. x \<in> set (slots_of e) \<Longrightarrow> lnk t x = lnk s x"
  shows "entry_ok t e"
  using assms by (auto simp: entry_ok_def intro: pring_lnk_cong)

section \<open>The ready queue\<close>

lemma wf0_rq_insert:
  assumes w: "wf0 s g" and p: "p < 20" "p \<notin> set (g_free g)" "p \<notin> fst ` set (g_rq g)"
    and room: "\<exists>i < 10. (p, i) \<notin> set (all_slots g)"
  shows "\<exists>x s'. insertProc (running_queue s) (Some p) s = Ok (lk x, s') \<and> fst x = p
    \<and> wf0 (s'\<lparr>running_queue := lk x\<rparr>) (g\<lparr>g_rq := g_rq g @ [x]\<rparr>) \<and> core s' = core s"
proof -
  let ?x = "(p, free_slot s p)"
  let ?t = "enq_state (g_rq g) ?x s"
  have pr: "pring s (running_queue s) (g_rq g)" and b: "base_ok s (g_free g) (set (all_slots g))"
    and a: "asl_ok s (g_asl g) (g_sfree g)" and d: "distinct (all_slots g)"
    and sem: "semvec_ok s (g_asl g)"
    using w by (auto simp: wf0_def)
  have f: "free_slot s p < 10" using base_free_slot [OF b p(1,2) room] .
  have nin: "?x \<notin> set (all_slots g)" using base_slot_unused [OF b p(1) f] .
  have "base_ok ?t (g_free g) (insert ?x (set (all_slots g)))"
    using b pr p f by (intro base_enq) (auto simp: pring_def all_slots_def)
  then have b': "base_ok (?t\<lparr>running_queue := lk ?x\<rparr>) (g_free g) (set (all_slots (g\<lparr>g_rq := g_rq g @ [?x]\<rparr>)))"
    by (auto simp: all_slots_def insert_commute intro: base_ok_cong)
  have es: "entry_ok ?t e" if "e \<in> set (g_asl g)" for e
  proof (rule entry_ok_cong)
    show "entry_ok s e" using a that by (simp add: asl_ok_def list_all_iff)
    show "lnk ?t y = lnk s y" if "y \<in> set (slots_of e)" for y
      using that \<open>e \<in> set (g_asl g)\<close> d nin by (intro lnk_enq_state) (auto simp: all_slots_def)
  qed simp_all
  then have a': "asl_ok (?t\<lparr>running_queue := lk ?x\<rparr>) (g_asl g) (g_sfree g)"
    using a by (auto simp: asl_ok_def list_all_iff entry_ok_def
        intro: asl_struct_cong)
  have "pring (?t\<lparr>running_queue := lk ?x\<rparr>) (lk ?x) (g_rq g @ [?x])"
    using pring_enq [OF pr p(1,3) f] by simp
  with a' b' d nin sem have "wf0 (?t\<lparr>running_queue := lk ?x\<rparr>) (g\<lparr>g_rq := g_rq g @ [?x]\<rparr>)"
    by (auto simp: wf0_def all_slots_def intro: semvec_ok_cong)
  with insertProc_ring(1) [OF pring_ring [OF pr] p(1) f] show ?thesis by auto
qed

lemma wf0_rq_out:
  assumes w: "wf0 s g" and rq: "g_rq g = as @ x # bs"
  shows "wf0 ((out_state as x bs s)\<lparr>running_queue := tail_link (as @ bs)\<rparr>) (g\<lparr>g_rq := as @ bs\<rparr>)"
proof -
  let ?t = "out_state as x bs s"
  have pr: "pring s (running_queue s) (as @ x # bs)" and b: "base_ok s (g_free g) (set (all_slots g))"
    and a: "asl_ok s (g_asl g) (g_sfree g)" and d: "distinct (all_slots g)"
    and sem: "semvec_ok s (g_asl g)"
    using w rq by (auto simp: wf0_def)
  have "base_ok ?t (g_free g) (set (all_slots g) - {x})"
    using b pr rq by (intro base_out) (auto simp: pring_def all_slots_def)
  moreover have "set (all_slots g) - {x} = set (all_slots (g\<lparr>g_rq := as @ bs\<rparr>))"
    using d rq by (auto simp: all_slots_def)
  ultimately have b': "base_ok (?t\<lparr>running_queue := tail_link (as @ bs)\<rparr>) (g_free g)
      (set (all_slots (g\<lparr>g_rq := as @ bs\<rparr>)))"
    by (auto intro: base_ok_cong)
  have "entry_ok ?t e" if "e \<in> set (g_asl g)" for e
  proof (rule entry_ok_cong)
    show "entry_ok s e" using a that by (simp add: asl_ok_def list_all_iff)
    show "lnk ?t y = lnk s y" if "y \<in> set (slots_of e)" for y
      using that \<open>e \<in> set (g_asl g)\<close> d rq by (intro lnk_out_state) (auto simp: all_slots_def)
  qed simp_all
  then have a': "asl_ok (?t\<lparr>running_queue := tail_link (as @ bs)\<rparr>) (g_asl g) (g_sfree g)"
    using a by (auto simp: asl_ok_def list_all_iff entry_ok_def
        intro: asl_struct_cong)
  have "pring (?t\<lparr>running_queue := tail_link (as @ bs)\<rparr>) (tail_link (as @ bs)) (as @ bs)"
    using pring_out [OF pr] by simp
  with a' b' d rq sem show ?thesis
    by (auto simp: wf0_def all_slots_def intro: semvec_ok_cong)
qed

section \<open>Searching the active semaphore list\<close>

lemma asl_find_hit:
  assumes "seg (nx s) (map fst (as @ e # es)) z" "\<forall>f \<in> set (as @ [e]). fst f < 20 \<and> sa s (fst f) = sem_of f"
    and "sem_of e \<notin> sem_of ` set as" "length as < n"
  shows "asl_find n (sem_of e) pr (first_of (map fst (as @ e # es))) s
    = Ok (if as = [] then pr else Some (fst (last as)), Some (fst e))"
  using assms
proof (induction as arbitrary: pr n)
  case Nil
  then show ?case by (cases n) auto
next
  case (Cons f as)
  then obtain m where n: "n = Suc m" by (cases n) auto
  have f: "fst f < 20" "sa s (fst f) \<noteq> sem_of e" using Cons.prems by auto
  have nf: "nx s (fst f) = first_of (map fst (as @ e # es))"
    using Cons.prems(1) by (simp add: seg_Cons)
  from Cons.IH [of m "Some (fst f)"] Cons.prems n f nf show ?case
    by (auto simp: seg_Cons split: if_splits)
qed

lemma asl_find_miss:
  assumes "seg (nx s) (map fst as) None" "\<forall>f \<in> set as. fst f < 20 \<and> sa s (fst f) = sem_of f"
    and "a \<notin> sem_of ` set as" "length as \<le> n"
  shows "asl_find n a pr (first_of (map fst as)) s
    = Ok (if as = [] then pr else Some (fst (last as)), None)"
  using assms
proof (induction as arbitrary: pr n)
  case Nil
  then show ?case by (cases n) auto
next
  case (Cons f as)
  then obtain m where n: "n = Suc m" by (cases n) auto
  have f: "fst f < 20" "sa s (fst f) \<noteq> a" using Cons.prems by auto
  have nf: "nx s (fst f) = first_of (map fst as)"
    using Cons.prems(1) by (auto simp: seg_Cons split: if_splits)
  from Cons.IH [of m "Some (fst f)"] Cons.prems n f nf show ?case
    by (auto simp: seg_Cons split: if_splits)
qed

text \<open>The list is searched in states where a queue may just have become empty, so the
  lemmas ask for the pointer structure and the addresses only.\<close>

definition asl_view :: "kstate \<Rightarrow> sem_entry list \<Rightarrow> nat list \<Rightarrow> bool" where
  "asl_view s as ds \<longleftrightarrow> asl_struct s (map fst as) ds
     \<and> (\<forall>e \<in> set as. sa s (fst e) = sem_of e) \<and> distinct (map sem_of as)"

lemma asl_ok_view: "asl_ok s as ds \<Longrightarrow> asl_view s as ds"
  by (auto simp: asl_ok_def asl_view_def list_all_iff entry_ok_def)

lemma asl_view_range:
  assumes "asl_view s as ds"
  shows "\<forall>e \<in> set as. fst e < 20" "length as + length ds = 20" "\<forall>d \<in> set ds. d < 20"
proof -
  have st: "distinct (map fst as @ ds)" "set (map fst as @ ds) = {..<20}"
    using assms by (auto simp: asl_view_def asl_struct_def)
  then show "\<forall>e \<in> set as. fst e < 20" "\<forall>d \<in> set ds. d < 20" by auto
  show "length as + length ds = 20" using distinct_card [OF st(1)] st(2) by simp
qed

lemma find_hit:
  assumes v: "asl_view s (as1 @ e # as2) ds"
  shows "asl_find 20 (sem_of e) None (cur_sem s) s
    = Ok (if as1 = [] then None else Some (fst (last as1)), Some (fst e))"
proof -
  have c: "cur_sem s = first_of (map fst (as1 @ e # as2))"
    and g: "seg (nx s) (map fst (as1 @ e # as2)) None"
    using v by (auto simp: asl_view_def asl_struct_def)
  show ?thesis unfolding c
    using v asl_view_range [OF v]
    by (intro asl_find_hit [OF g]) (auto simp: asl_view_def)
qed

lemma find_miss:
  assumes v: "asl_view s as ds" and a: "a \<notin> sem_of ` set as"
  shows "asl_find 20 a None (cur_sem s) s
    = Ok (if as = [] then None else Some (fst (last as)), None)"
proof -
  have c: "cur_sem s = first_of (map fst as)" and g: "seg (nx s) (map fst as) None"
    using v by (auto simp: asl_view_def asl_struct_def)
  show ?thesis unfolding c
    using v a asl_view_range [OF v]
    by (intro asl_find_miss [OF g]) (auto simp: asl_view_def)
qed

definition waiting :: "sem_entry list \<Rightarrow> addr \<Rightarrow> nat list" where
  "waiting as a = (case find (\<lambda>e. sem_of e = a) as of None \<Rightarrow> [] | Some e \<Rightarrow> map fst (slots_of e))"

lemma find_split:
  assumes "distinct (map sem_of (as1 @ e # as2))"
  shows "find (\<lambda>f. sem_of f = sem_of e) (as1 @ e # as2) = Some e"
  using assms by (induction as1) auto

lemma waiting_hit:
  "distinct (map sem_of (as1 @ e # as2)) \<Longrightarrow> waiting (as1 @ e # as2) (sem_of e) = map fst (slots_of e)"
  using find_split [of as1 e as2] by (simp add: waiting_def)

lemma waiting_miss: "a \<notin> sem_of ` set as \<Longrightarrow> waiting as a = []"
proof -
  assume "a \<notin> sem_of ` set as"
  then have "find (\<lambda>e. sem_of e = a) as = None" by (induction as) auto
  then show ?thesis by (simp add: waiting_def)
qed

lemma asl_split: "a \<in> sem_of ` set as \<Longrightarrow> \<exists>as1 e as2. as = as1 @ e # as2 \<and> sem_of e = a"
  by (force simp: in_set_conv_decomp)

lemma headBlocked_view:
  assumes v: "asl_view s as ds" and q: "\<forall>e \<in> set as. ring s (sl s (fst e)) (slots_of e)"
  shows "headBlocked a s = Ok (first_of (waiting as a))"
proof (cases "a \<in> sem_of ` set as")
  case True
  then obtain as1 e as2 where as: "as = as1 @ e # as2" "sem_of e = a"
    using asl_split [OF True] by blast
  have c: "cur_sem s \<noteq> None" and d: "distinct (map sem_of as)"
    using v as by (auto simp: asl_view_def asl_struct_def)
  have "headQueue (sl s (fst e)) s = Ok (map_option fst (first_of (slots_of e)))"
    using q as by (auto intro: headQueue_ring)
  moreover have "map_option fst (first_of xs) = first_of (map fst xs)" for xs :: "slot list"
    by (cases xs) auto
  ultimately show ?thesis
    using c find_hit [of s as1 e as2 ds] v as waiting_hit [of as1 e as2] d asl_view_range(1) [OF v]
    by (auto simp: headBlocked_def)
next
  case False
  with v show ?thesis
    using find_miss [OF v False] waiting_miss [OF False] by (auto simp: headBlocked_def)
qed

lemma wf0_headBlocked: "wf0 s g \<Longrightarrow> headBlocked a s = Ok (first_of (waiting (g_asl g) a))"
  by (rule headBlocked_view [of s "g_asl g" "g_sfree g"])
    (auto simp: wf0_def asl_ok_view, auto simp: asl_ok_def list_all_iff entry_ok_def pring_def)

section \<open>The semaphore vector of a process\<close>

lemma semvec_add:
  assumes ok: "semvec_ok s as" and i: "i < 10" "sv s p i = ENULL_addr" and a: "a \<noteq> ENULL_addr"
    and nb: "\<not> blocked_on as p a"
    and new: "\<And>q b. blocked_on as' q b \<longleftrightarrow> blocked_on as q b \<or> (q = p \<and> b = a)"
  shows "semvec_ok (set_sv p i a s) as'"
proof -
  have "card {j. j < 10 \<and> sv (set_sv p i a s) q j = b} = (if blocked_on as' q b then 1 else 0)"
    if q: "q < 20" and b: "b \<noteq> ENULL_addr" for q b
  proof (cases "q = p \<and> b = a")
    case True
    then have "card {j. j < 10 \<and> sv s p j = a} = 0" using ok q b nb by (auto simp: semvec_ok_def)
    then have "{j. j < 10 \<and> sv (set_sv p i a s) q j = b} = {i}" using True i by auto
    with True new show ?thesis by simp
  next
    case False
    then have "{j. j < 10 \<and> sv (set_sv p i a s) q j = b} = {j. j < 10 \<and> sv s q j = b}"
      using i b by auto
    with False ok q b new show ?thesis by (simp add: semvec_ok_def)
  qed
  then show ?thesis by (simp add: semvec_ok_def)
qed

lemma semvec_del:
  assumes ok: "semvec_ok s as" and i: "i < 10" "sv s p i = a" and a: "a \<noteq> ENULL_addr" and p: "p < 20"
    and new: "\<And>q b. blocked_on as' q b \<longleftrightarrow> blocked_on as q b \<and> \<not> (q = p \<and> b = a)"
  shows "semvec_ok (set_sv p i ENULL_addr s) as'"
proof -
  have "card {j. j < 10 \<and> sv (set_sv p i ENULL_addr s) q j = b} = (if blocked_on as' q b then 1 else 0)"
    if q: "q < 20" and b: "b \<noteq> ENULL_addr" for q b
  proof (cases "q = p \<and> b = a")
    case True
    have c: "card {j. j < 10 \<and> sv s p j = a} = (if blocked_on as p a then 1 else 0)"
      using ok p a by (simp add: semvec_ok_def)
    have mem: "i \<in> {j. j < 10 \<and> sv s p j = a}" using i by simp
    then have "card {j. j < 10 \<and> sv s p j = a} \<noteq> 0" by (auto simp: card_eq_0_iff)
    with c have "card {j. j < 10 \<and> sv s p j = a} = 1" by (metis (full_types))
    then obtain k where "{j. j < 10 \<and> sv s p j = a} = {k}" by (rule card_1_singletonE)
    with mem have "{j. j < 10 \<and> sv s p j = a} = {i}" by (metis singletonD)
    then have "{j. j < 10 \<and> sv (set_sv p i ENULL_addr s) q j = b} = {}" using True b by auto
    with True new show ?thesis by simp
  next
    case False
    then have "{j. j < 10 \<and> sv (set_sv p i ENULL_addr s) q j = b} = {j. j < 10 \<and> sv s q j = b}"
      using i b by auto
    with False ok q b new show ?thesis by (simp add: semvec_ok_def)
  qed
  then show ?thesis by (simp add: semvec_ok_def)
qed


text \<open>A process that is not in ten queues has room in its semaphore vector.\<close>

lemma semvec_room:
  assumes w: "wf0 s g" and p: "p < 20" and room: "\<exists>i < 10. (p, i) \<notin> set (all_slots g)"
  shows "\<exists>i < 10. sv s p i = ENULL_addr"
proof (rule ccontr)
  assume "\<not> ?thesis"
  then have full: "sv s p i \<noteq> ENULL_addr" if "i < 10" for i using that by auto
  have ok: "semvec_ok s (g_asl g)" and d: "distinct (all_slots g)"
    and sems: "distinct (map sem_of (g_asl g))"
    using w by (auto simp: wf0_def asl_ok_def)
  have one: "card {j. j < 10 \<and> sv s p j = sv s p i} = 1 \<and> blocked_on (g_asl g) p (sv s p i)"
    if "i < 10" for i
  proof -
    have "card {j. j < 10 \<and> sv s p j = sv s p i} \<noteq> 0"
      using that by (auto simp: card_eq_0_iff)
    then show ?thesis using ok p full [OF that] by (auto simp: semvec_ok_def split: if_splits)
  qed
  then have "\<forall>i. \<exists>e j. i < 10 \<longrightarrow> e \<in> set (g_asl g) \<and> sem_of e = sv s p i \<and> (p, j) \<in> set (slots_of e)"
    by (fastforce simp: blocked_on_def)
  then obtain e j where ej: "\<And>i. i < 10 \<Longrightarrow> e i \<in> set (g_asl g) \<and> sem_of (e i) = sv s p i
      \<and> (p, j i) \<in> set (slots_of (e i))"
    by metis
  have used: "(p, j i) \<in> set (all_slots g)" if "i < 10" for i
    using ej [OF that] by (force simp: all_slots_def)
  then have jlt: "j i < 10" if "i < 10" for i
    using w that by (fastforce simp: wf0_def base_ok_def links_ok_def valid_slot_def)
  have "inj_on j {..<10}"
  proof (rule inj_onI)
    fix i k assume ik: "i \<in> {..<10}" "k \<in> {..<10}" and eq: "j i = j k"
    have dc: "distinct (concat (map slots_of (g_asl g)))" using d by (simp add: all_slots_def)
    have "e i = e k"
      using distinct_concat_unique [OF dc, of "e i" "e k" "(p, j i)"] ej [of i] ej [of k] ik eq
      by auto
    then have "sv s p i = sv s p k" using ej ik by (metis lessThan_iff)
    then have "{i, k} \<subseteq> {l. l < 10 \<and> sv s p l = sv s p i}" using ik by auto
    then have "card {i, k} \<le> 1"
      using one [of i] ik by (metis (no_types, lifting) card_mono lessThan_iff card.infinite zero_neq_one)
    then show "i = k" by (auto simp: card_insert_if split: if_splits)
  qed
  moreover have "j ` {..<10} \<subseteq> {..<10}" using jlt by auto
  ultimately have "j ` {..<10} = {..<10}" by (simp add: endo_inj_surj)
  with room used show False by (metis imageE lessThan_iff)
qed

lemma setSem_room:
  assumes "p < 20" "\<exists>i < 10. sv s p i = ENULL_addr"
  shows "\<exists>i < 10. sv s p i = ENULL_addr \<and> setSem a (Some p) s = Ok (set_sv p i a s)"
proof (intro exI conjI)
  let ?i = "scan (\<lambda>i. sv s p i = ENULL_addr) 10"
  show i: "?i < 10" using assms(2) by (simp add: scan_less_iff)
  show "sv s p ?i = ENULL_addr" using scan_hit [OF i] .
  show "setSem a (Some p) s = Ok (set_sv p ?i a s)"
    using assms(1) i by (simp add: setSem_def set_sv_def wr_proc_Some Let_def sv_def)
qed

lemma setSem2_hit:
  assumes "p < 20" "\<exists>i < 10. sv s p i = a"
  shows "\<exists>i < 10. sv s p i = a \<and> setSem2 a (Some p) s = Ok (set_sv p i ENULL_addr s)"
proof (intro exI conjI)
  let ?i = "scan (\<lambda>i. sv s p i = a) 10"
  show i: "?i < 10" using assms(2) by (simp add: scan_less_iff)
  show "sv s p ?i = a" using scan_hit [OF i] .
  show "setSem2 a (Some p) s = Ok (set_sv p ?i ENULL_addr s)"
    using assms(1) i by (simp add: setSem2_def set_sv_def wr_proc_Some Let_def sv_def)
qed

lemma semvec_has:
  assumes "semvec_ok s as" "p < 20" "a \<noteq> ENULL_addr" "blocked_on as p a"
  shows "\<exists>i < 10. sv s p i = a"
proof -
  have "card {i. i < 10 \<and> sv s p i = a} = 1" using assms by (simp add: semvec_ok_def)
  then show ?thesis by (metis (mono_tags, lifting) card.empty empty_Collect_eq zero_neq_one)
qed

section \<open>Blocking a process\<close>

lemma asl_ok_entries:
  assumes "asl_ok s (as1 @ e # as2) ds"
  shows "fst e \<notin> fst ` set as1" "fst e \<notin> fst ` set as2" "fst e \<notin> set ds" "fst e < 20"
    "entry_ok s e" "sem_of e \<notin> sem_of ` set as1" "sem_of e \<notin> sem_of ` set as2"
  using assms by (auto simp: asl_ok_def asl_struct_def)

text \<open>
  Replacing the queue of one descriptor: enough that its own ring is right afterwards
  and that the links of all other queues are as before.
\<close>

lemma asl_ok_replace:
  assumes a: "asl_ok s (as1 @ (d, a, q) # as2) ds"
    and obs: "nx t = nx s" "pv t = pv s" "sa t = sa s" "sl t = (sl s)(d := tp)"
      "cur_sem t = cur_sem s" "free_head_s t = free_head_s s"
    and own: "pring t tp q'"
    and other: "\<And>e x. e \<in> set as1 \<union> set as2 \<Longrightarrow> x \<in> set (slots_of e) \<Longrightarrow> lnk t x = lnk s x"
  shows "asl_ok t (as1 @ (d, a, q') # as2) ds"
proof -
  note ae = asl_ok_entries [OF a]
  have "entry_ok t e" if "e \<in> set as1 \<union> set as2" for e
  proof (rule entry_ok_cong)
    show "entry_ok s e" using a that by (auto simp: asl_ok_def list_all_iff)
    have "fst e \<noteq> d" using ae that by force
    then show "sl t (fst e) = sl s (fst e)" by (simp add: obs)
  qed (use other [OF that] in \<open>simp_all add: obs\<close>)
  moreover have "entry_ok t (d, a, q')" using ae own by (simp add: entry_ok_def obs)
  moreover have "asl_struct t (map fst (as1 @ (d, a, q') # as2)) ds"
    using a by (auto simp: asl_ok_def obs intro: asl_struct_cong)
  ultimately show ?thesis
    using a ae by (auto simp: asl_ok_def list_all_iff obs)
qed

lemma blocked_on_replace:
  assumes "fst ` set q' = insert p (fst ` set q)"
  shows "blocked_on (as1 @ (d, a, q') # as2) r b
    \<longleftrightarrow> blocked_on (as1 @ (d, a, q) # as2) r b \<or> (r = p \<and> b = a)"
  using assms by (auto simp: blocked_on_def)

lemma not_blocked_entry:
  assumes "asl_ok s (as1 @ (d, a, q) # as2) ds" "p \<notin> fst ` set q"
  shows "\<not> blocked_on (as1 @ (d, a, q) # as2) p a"
  using assms asl_ok_entries [OF assms(1)] by (auto simp: blocked_on_def)

lemma slots_disjoint:
  assumes "distinct (all_slots g)" "g_asl g = as1 @ (d, a, q) # as2"
  shows "x \<in> set (g_rq g) \<Longrightarrow> x \<in> set (all_slots g) \<and> x \<notin> set q"
    and "e \<in> set as1 \<union> set as2 \<Longrightarrow> x \<in> set (slots_of e) \<Longrightarrow> x \<in> set (all_slots g) \<and> x \<notin> set q"
    and "set q \<subseteq> set (all_slots g)" "distinct q"
  using assms by (auto simp: all_slots_def)

lemma wf0_insert_at:
  assumes w: "wf0 s g" and as: "g_asl g = as1 @ (d, a, q) # as2"
    and p: "p < 20" "p \<notin> set (g_free g)" "p \<notin> fst ` set q"
    and room: "\<exists>i < 10. (p, i) \<notin> set (all_slots g)"
  shows "\<exists>x s'. insert_at (Some d) a (Some p) s = Ok s' \<and> fst x = p
    \<and> wf0 s' (g\<lparr>g_asl := as1 @ (d, a, q @ [x]) # as2\<rparr>) \<and> core s' = core s"
proof -
  have b: "base_ok s (g_free g) (set (all_slots g))" and dd: "distinct (all_slots g)"
    and a: "asl_ok s (as1 @ (d, a, q) # as2) (g_sfree g)" and rq: "pring s (running_queue s) (g_rq g)"
    and sem: "semvec_ok s (as1 @ (d, a, q) # as2)"
    using w as by (auto simp: wf0_def)
  note ae = asl_ok_entries [OF a]
  let ?x = "(p, free_slot s p)"
  let ?s1 = "enq_state q ?x s"
  let ?s2 = "upd_semd d (\<lambda>e. e\<lparr>s_link := lk ?x\<rparr>) ?s1"
  have f: "free_slot s p < 10" using base_free_slot [OF b p(1,2) room] .
  have nin: "?x \<notin> set (all_slots g)" using base_slot_unused [OF b p(1) f] .
  have pr: "pring s (sl s d) q" and an: "a \<noteq> ENULL_addr" using ae by (auto simp: entry_ok_def)
  have ins: "insertProc (sl s d) (Some p) s = Ok (lk ?x, ?s1)"
    using insertProc_ring(1) [OF pring_ring [OF pr] p(1) f] .
  obtain i where i: "i < 10" "sv ?s2 p i = ENULL_addr" "setSem a (Some p) ?s2 = Ok (set_sv p i a ?s2)"
    using setSem_room [of p ?s2 a] semvec_room [OF w p(1) room] p by auto
  let ?t = "set_sv p i a ?s2"
  let ?g = "g\<lparr>g_asl := as1 @ (d, a, q @ [?x]) # as2\<rparr>"
  have sl: "set (all_slots ?g) = insert ?x (set (all_slots g))"
    by (auto simp: all_slots_def as)
  have "base_ok ?s1 (g_free g) (insert ?x (set (all_slots g)))"
    using b pring_ring [OF pr] p f by (intro base_enq) (auto simp: all_slots_def as)
  then have b': "base_ok ?t (g_free g) (set (all_slots ?g))"
    unfolding sl by (rule base_ok_cong) simp_all
  have disj: "lnk ?s1 y = lnk s y" if "y \<in> set (all_slots g)" "y \<notin> set q" for y
    using that nin by (intro lnk_enq_state) auto
  note sd = slots_disjoint [OF dd as]
  have rq': "pring ?t (running_queue ?t) (g_rq g)"
    using sd(1) disj pring_lnk_cong [OF rq, of ?s1] by simp
  have a': "asl_ok ?t (as1 @ (d, a, q @ [?x]) # as2) (g_sfree g)"
  proof (rule asl_ok_replace [OF a, where tp = "lk ?x"])
    show "pring ?t (lk ?x) (q @ [?x])" using pring_enq [OF pr p(1,3) f] by simp
    show "lnk ?t y = lnk s y" if "e \<in> set as1 \<union> set as2" "y \<in> set (slots_of e)" for e y
      using sd(2) [OF that] disj by simp
  qed simp_all
  have "semvec_ok ?t (as1 @ (d, a, q @ [?x]) # as2)"
    using semvec_ok_cong [OF sem, of ?s2] i an not_blocked_entry [OF a p(3)]
    by (intro semvec_add [where as = "as1 @ (d, a, q) # as2"])
      (auto simp: blocked_on_replace [where p = p])
  moreover have "distinct (all_slots ?g)" using dd nin by (auto simp: all_slots_def as)
  ultimately have "wf0 ?t ?g" using rq' a' b' by (simp add: wf0_def)
  moreover have "insert_at (Some d) a (Some p) s = Ok ?t"
    using ae ins i by (simp add: insert_at_def wr_semd_upd)
  ultimately show ?thesis by (auto intro!: exI [of _ "free_slot s p"])
qed

lemma struct_alloc:
  assumes st: "asl_struct s ds1 (d # ds)"
    and nx: "nx t = (if ds1 = [] then (nx s)(d := None) else (nx s)(d := None, last ds1 := Some d))"
    and pv: "pv t d = first_of (rev ds1)" "\<And>e. e \<in> set ds1 \<Longrightarrow> pv t e = pv s e"
      "ds \<noteq> [] \<Longrightarrow> pv t (hd ds) = None"
    and hd: "cur_sem t = first_of (ds1 @ [d])" "free_head_s t = first_of ds"
  shows "asl_struct t (ds1 @ [d]) ds"
proof -
  have n: "seg (nx s) ds1 None" "seg (nx s) ds None" "seg (pv s) (rev ds1) None"
    and dist: "d \<notin> set ds1" "d \<notin> set ds" "distinct ds1" "set ds1 \<inter> set ds = {}"
    using st by (auto simp: asl_struct_def seg_Cons)
  have l: "last ds1 \<noteq> d" "last ds1 \<notin> set ds" if "ds1 \<noteq> []"
    using dist last_in_set [OF that] by blast+
  have N: "seg (nx t) (ds1 @ [d]) None"
  proof (cases "ds1 = []")
    case False
    have "seg ((nx s)(d := None, last ds1 := Some d)) ds1 (Some d)"
      using n dist False by (intro seg_redirect) auto
    with False l nx show ?thesis by (simp add: seg_append)
  qed (simp add: nx)
  have F: "seg (nx t) ds None"
    using n dist l nx by (cases "ds1 = []") auto
  have P: "seg (pv t) (rev (ds1 @ [d])) None"
    using n pv(1) seg_cong [of "rev ds1" "pv t" "pv s" None] pv(2)
    by (simp add: seg_Cons)
  show ?thesis using N F P pv(3) hd st by (auto simp: asl_struct_def)
qed

lemma wf0_new_entry:
  assumes w: "wf0 s g" and free: "g_sfree g = d # ds" and a: "a \<noteq> ENULL_addr" "a \<notin> sem_of ` set (g_asl g)"
    and st: "asl_struct t (map fst (g_asl g) @ [d]) ds"
    and obs: "sa t = (sa s)(d := a)" "sl t = sl s" "lnk t = lnk s" "qc t = qc s" "sv t = sv s"
      "free_head t = free_head s" "running_queue t = running_queue s"
  shows "wf0 t (g\<lparr>g_asl := g_asl g @ [(d, a, [])], g_sfree := ds\<rparr>)"
proof -
  have ok: "asl_ok s (g_asl g) (d # ds)" using w free by (simp add: wf0_def)
  then have d: "d \<notin> fst ` set (g_asl g)" "sl s d = null_link" "list_all (\<lambda>d. sl s d = null_link) ds"
    by (auto simp: asl_ok_def asl_struct_def)
  have p: "pring t = pring s" by (rule pring_lnk_eq [OF obs(3)])
  have "entry_ok t e" if "e \<in> set (g_asl g)" for e
  proof -
    have "fst e \<noteq> d" using d that by auto
    then show ?thesis using ok that by (auto simp: asl_ok_def list_all_iff entry_ok_def obs p)
  qed
  moreover have "entry_ok t (d, a, [])" using a d by (simp add: entry_ok_def obs pring_def)
  ultimately have "asl_ok t (g_asl g @ [(d, a, [])]) ds"
    using ok st a d by (auto simp: asl_ok_def list_all_iff obs)
  moreover have "blocked_on (g_asl g @ [(d, a, [])]) = blocked_on (g_asl g)"
    by (auto simp: blocked_on_def fun_eq_iff)
  moreover have "base_ok t (g_free g) (set (all_slots g))"
    using w by (auto simp: wf0_def obs intro: base_ok_cong)
  ultimately show ?thesis
    using w by (auto simp: wf0_def all_slots_def semvec_ok_def obs p)
qed

text \<open>The first free descriptor, and the one that becomes first.\<close>

lemma free_descriptor:
  assumes w: "wf0 s g" and free: "g_sfree g = d # ds"
  shows "asl_view s (g_asl g) (d # ds)" "asl_struct s (map fst (g_asl g)) (d # ds)"
    and "d < 20" "d \<notin> set ds" "d \<notin> fst ` set (g_asl g)"
    and "free_head_s s = Some d" "nx s d = first_of ds" "pv s d = None"
    and "ds \<noteq> [] \<Longrightarrow> hd ds < 20 \<and> hd ds \<noteq> d \<and> hd ds \<notin> fst ` set (g_asl g)"
proof -
  have "asl_ok s (g_asl g) (d # ds)" using w free by (simp add: wf0_def)
  then show v: "asl_view s (g_asl g) (d # ds)" by (rule asl_ok_view)
  then show st: "asl_struct s (map fst (g_asl g)) (d # ds)" by (simp add: asl_view_def)
  show d: "d < 20" "d \<notin> set ds" "d \<notin> fst ` set (g_asl g)" using st by (auto simp: asl_struct_def)
  show "free_head_s s = Some d" "nx s d = first_of ds" "pv s d = None"
    using st by (auto simp: asl_struct_def seg_Cons)
  show "hd ds < 20 \<and> hd ds \<noteq> d \<and> hd ds \<notin> fst ` set (g_asl g)" if "ds \<noteq> []"
  proof -
    have "fst ` set (g_asl g) \<inter> set ds = {}" "\<forall>e \<in> set ds. e < 20"
      using st by (auto simp: asl_struct_def)
    with d hd_in_set [OF that] show ?thesis by blast
  qed
qed

lemma insertBlocked_unfold_first:
  assumes w: "wf0 s g" and a: "a \<notin> sem_of ` set (g_asl g)" "a \<noteq> ENULL_addr" and free: "g_sfree g = d # ds"
    and none: "g_asl g = []"
  shows "\<exists>t. wf0 t (g\<lparr>g_asl := g_asl g @ [(d, a, [])], g_sfree := ds\<rparr>) \<and> core t = core s
    \<and> insertBlocked a p s = rbind (insert_at (Some d) a p t) (\<lambda>s. Ok (False, s))"
proof -
  note v = free_descriptor [OF w free]
  have ds: "ds \<noteq> []" using asl_view_range(2) [OF v(1)] none by auto
  let ?t = "upd_semd d (\<lambda>e. e\<lparr>s_semAdd := a\<rparr>) (upd_semd (hd ds) (\<lambda>e. e\<lparr>s_prev := None\<rparr>)
    (upd_semd d (\<lambda>e. e\<lparr>s_next := None\<rparr>) (s\<lparr>cur_sem := Some d, free_head_s := first_of ds\<rparr>)))"
  have nd: "semd_table (upd_semd (hd ds) f u) d = semd_table u d" for f u
    using v(9) [OF ds] by (simp add: upd_semd_def)
  have "asl_struct ?t (map fst (g_asl g) @ [d]) ds"
    using v(3-8) v(9) [OF ds] ds none by (intro struct_alloc [OF v(2)]) (auto simp: fun_eq_iff)
  then have "wf0 ?t (g\<lparr>g_asl := g_asl g @ [(d, a, [])], g_sfree := ds\<rparr>)"
    using v(9) [OF ds] by (intro wf0_new_entry [OF w free a(2,1)]) (auto simp: fun_eq_iff)
  moreover have "insertBlocked a p s = rbind (insert_at (Some d) a p ?t) (\<lambda>s. Ok (False, s))"
    using v(2-8) none v(9) [OF ds] ds
    by (simp add: insertBlocked_def asl_struct_def wr_semd_upd Let_def first_of_hd)
  ultimately show ?thesis by (intro exI [of _ ?t]) simp
qed

lemma insertBlocked_unfold_later:
  assumes w: "wf0 s g" and a: "a \<notin> sem_of ` set (g_asl g)" "a \<noteq> ENULL_addr" and free: "g_sfree g = d # ds"
    and some: "g_asl g \<noteq> []"
  shows "\<exists>t. wf0 t (g\<lparr>g_asl := g_asl g @ [(d, a, [])], g_sfree := ds\<rparr>) \<and> core t = core s
    \<and> insertBlocked a p s = rbind (insert_at (Some d) a p t) (\<lambda>s. Ok (False, s))"
proof -
  note v = free_descriptor [OF w free]
  let ?l = "fst (last (g_asl g))"
  have m: "?l \<in> fst ` set (g_asl g)" using some by simp
  have "fst ` set (g_asl g) \<inter> set ds = {}" using v(2) by (auto simp: asl_struct_def)
  then have l: "?l < 20" "?l \<noteq> d" "?l \<notin> set ds" using m v(5) asl_view_range(1) [OF v(1)] by auto
  let ?t1 = "upd_semd d (\<lambda>e. e\<lparr>s_prev := Some ?l\<rparr>) (upd_semd ?l (\<lambda>e. e\<lparr>s_next := Some d\<rparr>)
    (upd_semd d (\<lambda>e. e\<lparr>s_next := None, s_semAdd := a\<rparr>) (s\<lparr>free_head_s := first_of ds\<rparr>)))"
  define t where "t = (if ds = [] then ?t1 else upd_semd (hd ds) (\<lambda>e. e\<lparr>s_prev := None\<rparr>) ?t1)"
  have nl: "first_of (rev (map fst (g_asl g))) = Some ?l"
    using some by (simp add: first_of_rev last_map)
  have cs: "cur_sem s = first_of (map fst (g_asl g))" using v(2) by (simp add: asl_struct_def)
  have ff: "first_of (map fst (g_asl g) @ [d]) = first_of (map fst (g_asl g))"
    using some by (cases "g_asl g") auto
  have sn: "nx t = (nx s)(d := None, ?l := Some d)" "pv t d = Some ?l"
      "ds \<noteq> [] \<Longrightarrow> pv t (hd ds) = None" "cur_sem t = cur_sem s" "free_head_s t = first_of ds"
    using l v(3-5,9) by (cases "ds = []"; auto simp: t_def fun_eq_iff)+
  have sp: "pv t e = pv s e" if "e \<in> fst ` set (g_asl g)" for e
  proof -
    have "e \<noteq> d" "ds \<noteq> [] \<Longrightarrow> e \<noteq> hd ds" using that v(5,9) by metis+
    then show ?thesis by (simp add: t_def)
  qed
  have "asl_struct t (map fst (g_asl g) @ [d]) ds"
    by (rule struct_alloc [OF v(2)]) (use sn sp nl cs ff some l m in \<open>simp_all add: last_map\<close>)
  then have "wf0 t (g\<lparr>g_asl := g_asl g @ [(d, a, [])], g_sfree := ds\<rparr>)"
    using v(9) l m by (intro wf0_new_entry [OF w free a(2,1)]) (cases "ds = []"; simp add: t_def fun_eq_iff)+
  moreover have "insertBlocked a p s = rbind (insert_at (Some d) a p t) (\<lambda>s. Ok (False, s))"
    using find_miss [OF v(1) a(1)] cs some v(3-9) l m
    by (cases "ds = []") (simp_all add: t_def insertBlocked_def wr_semd_upd Let_def first_of_hd)
  moreover have "core t = core s" by (simp add: t_def)
  ultimately show ?thesis by (intro exI [of _ t]) simp
qed

lemma insertBlocked_unfold_new:
  assumes "wf0 s g" "a \<notin> sem_of ` set (g_asl g)" "a \<noteq> ENULL_addr" "g_sfree g = d # ds"
  shows "\<exists>t. wf0 t (g\<lparr>g_asl := g_asl g @ [(d, a, [])], g_sfree := ds\<rparr>) \<and> core t = core s
    \<and> insertBlocked a p s = rbind (insert_at (Some d) a p t) (\<lambda>s. Ok (False, s))"
  using insertBlocked_unfold_first [OF assms, of p] insertBlocked_unfold_later [OF assms, of p] by blast

end
