(* ===== verification/Blocking.thy ===== *)
theory Blocking
  imports Queues
begin

text \<open>
  The queue modules as operations on an abstract state: the ready queue, the blocked
  processes per active semaphore in activation order, and the unused process entries.
  Every routine of \<open>procq.c\<close> and \<open>asl.c\<close> refines one function on it.
\<close>

section \<open>Unblocking a process: one slot leaves the queue of a descriptor\<close>

lemma set_sv_commute:
  "set_lnk x l (set_sv p i a s) = set_sv p i a (set_lnk x l s)"
  "add_qcount q d (set_sv p i a s) = set_sv p i a (add_qcount q d s)"
  "upd_semd w f (set_sv p i a s) = set_sv p i a (upd_semd w f s)"
  by (auto simp: set_lnk_def add_qcount_def set_sv_def upd_semd_def fun_eq_iff fun_upd_twist)

lemma out_state_set_sv: "out_state as x bs (set_sv p i a s) = set_sv p i a (out_state as x bs s)"
  by (simp add: out_state_def set_sv_commute)

lemma strip_semd_obs:
  assumes "strip_semd t = strip_semd s"
  shows "lnk t = lnk s" "qc t = qc s" "sv t = sv s" "free_head t = free_head s"
    "running_queue t = running_queue s" "proc_table t = proc_table s"
proof -
  have "proc_table (strip_semd t) = proc_table (strip_semd s)"
    "free_head (strip_semd t) = free_head (strip_semd s)"
    "running_queue (strip_semd t) = running_queue (strip_semd s)" using assms by simp_all
  then show p: "proc_table t = proc_table s" and "free_head t = free_head s"
    "running_queue t = running_queue s" by (simp_all add: strip_semd_def)
  show "lnk t = lnk s" "qc t = qc s" "sv t = sv s"
    by (auto simp: lnk_def qc_def sv_def p fun_eq_iff)
qed

lemma wf0_slot_out:
  assumes w: "wf0 s g" and as: "g_asl g = as1 @ (d, a, q1 @ x # q2) # as2"
    and i: "i < 10" "sv s (fst x) i = a"
  shows "wf0 (set_sv (fst x) i ENULL_addr (upd_semd d (\<lambda>e. e\<lparr>s_link := tail_link (q1 @ q2)\<rparr>)
      (out_state q1 x q2 s))) (g\<lparr>g_asl := as1 @ (d, a, q1 @ q2) # as2\<rparr>)" (is "wf0 ?t ?g")
proof -
  have b: "base_ok s (g_free g) (set (all_slots g))" and dd: "distinct (all_slots g)"
    and a: "asl_ok s (as1 @ (d, a, q1 @ x # q2) # as2) (g_sfree g)"
    and rq: "pring s (running_queue s) (g_rq g)"
    and sem: "semvec_ok s (as1 @ (d, a, q1 @ x # q2) # as2)"
    using w as by (auto simp: wf0_def)
  note ae = asl_ok_entries [OF a]
  have pr: "pring s (sl s d) (q1 @ x # q2)" and an: "a \<noteq> ENULL_addr" using ae by (auto simp: entry_ok_def)
  let ?s1 = "out_state q1 x q2 s"
  have v: "fst x < 20" using pring_ring [OF pr] ring_valid [of s _ _ x] by (force simp: valid_slot_def)
  note sd = slots_disjoint [OF dd as]
  have sl: "set (all_slots ?g) = set (all_slots g) - {x}"
    using dd by (auto simp: all_slots_def as)
  have "base_ok ?s1 (g_free g) (set (all_slots g) - {x})"
    using b pring_ring [OF pr] sd(3) by (intro base_out)
  then have b': "base_ok ?t (g_free g) (set (all_slots ?g))"
    unfolding sl by (rule base_ok_cong) simp_all
  have keep: "lnk ?s1 y = lnk s y" if "y \<notin> set (q1 @ x # q2)" for y
    using that by (rule lnk_out_state)
  have rq': "pring ?t (running_queue ?t) (g_rq g)"
    using sd(1) keep pring_lnk_cong [OF rq, of ?s1] by simp
  have a': "asl_ok ?t (as1 @ (d, a, q1 @ q2) # as2) (g_sfree g)"
  proof (rule asl_ok_replace [OF a, where tp = "tail_link (q1 @ q2)"])
    show "pring ?t (tail_link (q1 @ q2)) (q1 @ q2)" using pring_out [OF pr] by simp
    show "lnk ?t y = lnk s y" if "e \<in> set as1 \<union> set as2" "y \<in> set (slots_of e)" for e y
      using sd(2) [OF that] keep by simp
  qed simp_all
  have px: "fst x \<notin> fst ` set (q1 @ q2)" using pr by (auto simp: pring_def)
  have gone: "blocked_on (as1 @ (d, a, q1 @ q2) # as2) r c
      \<longleftrightarrow> blocked_on (as1 @ (d, a, q1 @ x # q2) # as2) r c \<and> \<not> (r = fst x \<and> c = a)" for r c
    using not_blocked_entry [OF a' px] blocked_on_replace [of "q1 @ x # q2" "fst x" "q1 @ q2" as1 d a as2 r c]
    by auto
  have "semvec_ok ?t (as1 @ (d, a, q1 @ q2) # as2)"
    using i an v gone by (intro semvec_del [OF semvec_ok_cong [OF sem]]) auto
  moreover have "distinct (all_slots ?g)" using dd by (auto simp: all_slots_def as)
  ultimately show ?thesis using rq' a' b' by (simp add: wf0_def)
qed

text \<open>A descriptor whose queue has become empty goes back to the free list.\<close>

lemma wf0_drop_entry:
  assumes w: "wf0 s g" and as: "g_asl g = as1 @ (d, a, []) # as2"
  shows "\<exists>s'. removeBlockHelper (Some d) s = Ok s' \<and> core s' = core s \<and> sv s' = sv s
    \<and> wf0 s' (g\<lparr>g_asl := as1 @ as2, g_sfree := g_sfree g @ [d]\<rparr>)"
proof -
  have a: "asl_ok s (as1 @ (d, a, []) # as2) (g_sfree g)" using w as by (simp add: wf0_def)
  note ae = asl_ok_entries [OF a]
  have "asl_struct s (map fst as1 @ d # map fst as2) (g_sfree g)" using a by (simp add: asl_ok_def)
  from removeBlockHelper_struct [OF this] obtain s' where s':
    "removeBlockHelper (Some d) s = Ok s'" "strip_semd s' = strip_semd s"
    "asl_struct s' (map fst as1 @ map fst as2) (g_sfree g @ [d])"
    "sa s' = (sa s)(d := ENULL_addr)" "sl s' = sl s" by blast
  note obs = strip_semd_obs [OF s'(2)]
  have p: "pring s' = pring s" by (rule pring_lnk_eq [OF obs(1)])
  have "entry_ok s' e" if "e \<in> set as1 \<union> set as2" for e
  proof -
    have "fst e \<noteq> d" using ae that by force
    then show ?thesis using a that by (auto simp: asl_ok_def list_all_iff entry_ok_def s' p)
  qed
  moreover have "sl s d = null_link" using ae by (simp add: entry_ok_def pring_def)
  ultimately have "asl_ok s' (as1 @ as2) (g_sfree g @ [d])"
    using a s' by (auto simp: asl_ok_def list_all_iff)
  moreover have "blocked_on (as1 @ as2) = blocked_on (as1 @ (d, a, []) # as2)"
    by (auto simp: blocked_on_def fun_eq_iff)
  moreover have "base_ok s' (g_free g) (set (all_slots g))"
    using w by (auto simp: wf0_def obs intro: base_ok_cong)
  ultimately have "wf0 s' (g\<lparr>g_asl := as1 @ as2, g_sfree := g_sfree g @ [d]\<rparr>)"
    using w as by (auto simp: wf0_def all_slots_def semvec_ok_def obs p)
  with s'(1) core_strip_semd [OF s'(2)] obs(3) show ?thesis by blast
qed

section \<open>The abstract queue state\<close>

type_synonym wait_list = "(addr \<times> nat list) list"

record aqueues =
  ready :: "nat list"
  blocked :: wait_list
  unused :: "nat list"

definition abs_q :: "ghost \<Rightarrow> aqueues" where
  "abs_q g = \<lparr>ready = map fst (g_rq g), blocked = map (\<lambda>e. (sem_of e, map fst (slots_of e))) (g_asl g),
     unused = g_free g\<rparr>"

definition repr :: "kstate \<Rightarrow> aqueues \<Rightarrow> bool" where
  "repr s Q \<longleftrightarrow> (\<exists>g. wf s g \<and> abs_q g = Q)"

lemma abs_q_simps [simp]:
  "ready (abs_q g) = map fst (g_rq g)" "unused (abs_q g) = g_free g"
  "blocked (abs_q g) = map (\<lambda>e. (sem_of e, map fst (slots_of e))) (g_asl g)"
  by (simp_all add: abs_q_def)

text \<open>The processes that wait at a semaphore, and the operations on the wait lists.\<close>

fun wait_of :: "wait_list \<Rightarrow> addr \<Rightarrow> nat list" where
  "wait_of [] a = []"
| "wait_of ((b, q) # B) a = (if b = a then q else wait_of B a)"

fun block :: "addr \<Rightarrow> nat \<Rightarrow> wait_list \<Rightarrow> wait_list" where
  "block a p [] = [(a, [p])]"
| "block a p ((b, q) # B) = (if b = a then (b, q @ [p]) # B else (b, q) # block a p B)"

text \<open>\<open>leave P B\<close> takes the processes \<open>p\<close> with \<open>P a p\<close> off the queue of \<open>a\<close>; a semaphore
  whose queue becomes empty is no longer active.\<close>

definition leave :: "(addr \<Rightarrow> nat \<Rightarrow> bool) \<Rightarrow> wait_list \<Rightarrow> wait_list" where
  "leave P B = filter (\<lambda>(a, q). q \<noteq> []) (map (\<lambda>(a, q). (a, filter (\<lambda>p. \<not> P a p) q)) B)"

definition occupied :: "aqueues \<Rightarrow> nat \<Rightarrow> nat" where
  "occupied Q p = count_list (ready Q @ concat (map snd (blocked Q))) p"

lemma slot_count:
  assumes "distinct xs" "\<forall>x \<in> set xs. snd x < 10"
  shows "card {i. i < (10::nat) \<and> (p, i) \<in> set xs} = count_list (map fst xs) p"
  using assms
proof (induction xs)
  case (Cons x xs)
  then show ?case using card_slot_insert [of "fst x" "snd x" "set xs" p] by simp
qed simp

lemma abs_slots: "map fst (all_slots g) = ready (abs_q g) @ concat (map snd (blocked (abs_q g)))"
  by (simp add: all_slots_def map_concat comp_def)

lemma wf_base: "wf0 s g \<Longrightarrow> base_ok s (g_free g) (set (all_slots g))"
  by (simp add: wf0_def)

lemma wf0_occupied:
  assumes "wf0 s g" "p < 20"
  shows "qc s p = int (occupied (abs_q g) p)"
    and "occupied (abs_q g) p < 10 \<longleftrightarrow> (\<exists>i < 10. (p, i) \<notin> set (all_slots g))"
proof -
  have l: "links_ok s (set (g_free g)) (set (all_slots g))" and d: "distinct (all_slots g)"
    using assms by (auto simp: wf0_def base_ok_def)
  then have "\<forall>x \<in> set (all_slots g). snd x < 10" by (auto simp: links_ok_def valid_slot_def)
  from slot_count [OF d this] have c: "card {i. i < 10 \<and> (p, i) \<in> set (all_slots g)} = occupied (abs_q g) p"
    by (simp only: abs_slots occupied_def)
  then show "qc s p = int (occupied (abs_q g) p)" using l assms by (simp add: links_ok_def)
  let ?S = "{i. i < (10::nat) \<and> (p, i) \<in> set (all_slots g)}"
  have "card ?S < 10 \<longleftrightarrow> ?S \<noteq> {..<10}"
  proof
    show "?S \<noteq> {..<10}" if "card ?S < 10" using that by (metis card_lessThan less_irrefl)
    assume "?S \<noteq> {..<10}"
    then have "?S \<subset> {..<10}" by blast
    then show "card ?S < 10" using psubset_card_mono [of "{..<10::nat}" ?S] by simp
  qed
  then show "occupied (abs_q g) p < 10 \<longleftrightarrow> (\<exists>i < 10. (p, i) \<notin> set (all_slots g))"
    unfolding c by (auto simp: set_eq_iff)
qed

lemma wait_of_abs: "wait_of (blocked (abs_q g)) a = waiting (g_asl g) a"
proof -
  have "wait_of (map (\<lambda>e. (sem_of e, map fst (slots_of e))) as) a = waiting as a" for as
    by (induction as) (auto simp: waiting_def)
  then show ?thesis by simp
qed

lemma block_hit:
  "a \<notin> fst ` set B1 \<Longrightarrow> block a p (B1 @ (a, q) # B2) = B1 @ (a, q @ [p]) # B2"
  by (induction B1) auto

lemma block_miss: "a \<notin> fst ` set B \<Longrightarrow> block a p B = B @ [(a, [p])]"
  by (induction B) auto

lemma wait_of_miss: "a \<notin> fst ` set B \<Longrightarrow> wait_of B a = []"
  by (induction B) auto

lemma wait_of_hit: "a \<notin> fst ` set B1 \<Longrightarrow> wait_of (B1 @ (a, q) # B2) a = q"
  by (induction B1) auto

text \<open>What the invariant says of the abstract state.\<close>

definition aq_ok :: "aqueues \<Rightarrow> bool" where
  "aq_ok Q \<longleftrightarrow> distinct (unused Q) \<and> (\<forall>p \<in> set (unused Q). p < 20 \<and> occupied Q p = 0)
     \<and> distinct (ready Q) \<and> (\<forall>p \<in> set (ready Q). p < 20)
     \<and> distinct (map fst (blocked Q)) \<and> length (blocked Q) \<le> 20
     \<and> (\<forall>(a, q) \<in> set (blocked Q). a \<noteq> ENULL_addr \<and> q \<noteq> [] \<and> distinct q \<and> (\<forall>p \<in> set q. p < 20))
     \<and> (\<forall>p < 20. occupied Q p \<le> 10)"

lemma wf_aq_ok:
  assumes "wf s g"
  shows "aq_ok (abs_q g)"
proof -
  have w: "wf0 s g" and ne: "\<forall>e \<in> set (g_asl g). slots_of e \<noteq> []"
    using assms by (auto simp: wf_def list_all_iff)
  have fl: "freelist s (g_free g)" and l: "links_ok s (set (g_free g)) (set (all_slots g))"
    and rq: "pring s (running_queue s) (g_rq g)" and a: "asl_ok s (g_asl g) (g_sfree g)"
    using w by (auto simp: wf0_def base_ok_def)
  have pr: "\<forall>x \<in> set xs. fst x < 20" if "pring s tp xs" for tp xs
    using that ring_valid [OF pring_ring [OF that]] by (auto simp: valid_slot_def)
  have "occupied (abs_q g) p = 0" if "p \<in> set (g_free g)" for p
  proof -
    have "p \<notin> fst ` set (all_slots g)" using l that by (force simp: links_ok_def)
    then have "count_list (map fst (all_slots g)) p = 0" by (simp add: count_list_0_iff)
    then show ?thesis by (simp only: abs_slots occupied_def)
  qed
  moreover have "occupied (abs_q g) p \<le> 10" if "p < 20" for p
  proof -
    have "int (occupied (abs_q g) p) = int (card {i. i < 10 \<and> (p, i) \<in> set (all_slots g)})"
      using wf0_occupied(1) [OF w that] l that by (simp add: links_ok_def)
    moreover have "card {i. i < 10 \<and> (p, i) \<in> set (all_slots g)} \<le> card {..<10 :: nat}"
      by (intro card_mono) auto
    ultimately show ?thesis by simp
  qed
  moreover have "length (g_asl g) \<le> 20" using asl_view_range(2) [OF asl_ok_view [OF a]] by simp
  moreover have "\<forall>e \<in> set (g_asl g). \<forall>x \<in> set (slots_of e). fst x < 20"
    using a pr by (auto simp: asl_ok_def list_all_iff entry_ok_def)
  ultimately show ?thesis
    using fl rq a ne pr [OF rq]
    by (auto simp: aq_ok_def freelist_def list_all_iff asl_ok_def pring_def comp_def entry_ok_def)
qed

lemma repr_aq_ok: "repr s Q \<Longrightarrow> aq_ok Q"
  by (auto simp: repr_def wf_aq_ok)

section \<open>Blocking: \<open>insertBlocked\<close>\<close>

abbreviation abs_entry :: "sem_entry \<Rightarrow> addr \<times> nat list" where
  "abs_entry e \<equiv> (sem_of e, map fst (slots_of e))"

lemma insertBlocked_hit:
  assumes w: "wf s g" and as: "g_asl g = as1 @ (d, a, q) # as2"
    and p: "p < 20" "p \<notin> set (g_free g)" "p \<notin> fst ` set q"
    and room: "occupied (abs_q g) p < 10"
  shows "\<exists>s' g'. insertBlocked a (Some p) s = Ok (False, s') \<and> wf s' g' \<and> core s' = core s
    \<and> abs_q g' = (abs_q g)\<lparr>blocked := block a p (blocked (abs_q g))\<rparr>"
proof -
  have w0: "wf0 s g" using w by (simp add: wf_def)
  have a: "asl_ok s (as1 @ (d, a, q) # as2) (g_sfree g)" using w0 as by (simp add: wf0_def)
  note v = asl_ok_view [OF a]
  have f: "asl_find 20 a None (cur_sem s) s = Ok (if as1 = [] then None else Some (fst (last as1)), Some d)"
    using find_hit [OF v] by simp
  have c: "cur_sem s \<noteq> None" using v by (cases as1) (auto simp: asl_view_def asl_struct_def)
  from wf0_insert_at [OF w0 as p wf0_occupied(2) [OF w0 p(1), THEN iffD1, OF room]]
  obtain x s' where s': "insert_at (Some d) a (Some p) s = Ok s'" "fst x = p" "core s' = core s"
    "wf0 s' (g\<lparr>g_asl := as1 @ (d, a, q @ [x]) # as2\<rparr>)" by blast
  have "wf s' (g\<lparr>g_asl := as1 @ (d, a, q @ [x]) # as2\<rparr>)"
    using w as s'(4) by (simp add: wf_def)
  moreover have "a \<notin> fst ` set (map abs_entry as1)"
    using asl_ok_entries(6) [OF a] by (simp add: image_image)
  then have "abs_q (g\<lparr>g_asl := as1 @ (d, a, q @ [x]) # as2\<rparr>)
      = (abs_q g)\<lparr>blocked := block a p (blocked (abs_q g))\<rparr>"
    using as s'(2) by (simp add: abs_q_def block_hit)
  moreover have "insertBlocked a (Some p) s = Ok (False, s')"
    using f c s'(1) by (auto simp: insertBlocked_def)
  ultimately show ?thesis using s'(3) by blast
qed

lemma insertBlocked_new:
  assumes w: "wf s g" and a: "a \<notin> sem_of ` set (g_asl g)" "a \<noteq> ENULL_addr"
    and free: "g_sfree g = d # ds"
    and p: "p < 20" "p \<notin> set (g_free g)" and room: "occupied (abs_q g) p < 10"
  shows "\<exists>s' g'. insertBlocked a (Some p) s = Ok (False, s') \<and> wf s' g' \<and> core s' = core s
    \<and> abs_q g' = (abs_q g)\<lparr>blocked := block a p (blocked (abs_q g))\<rparr>"
proof -
  have w0: "wf0 s g" using w by (simp add: wf_def)
  let ?g = "g\<lparr>g_asl := g_asl g @ [(d, a, [])], g_sfree := ds\<rparr>"
  from insertBlocked_unfold_new [OF w0 a free, of "Some p"] obtain t where t: "wf0 t ?g" "core t = core s"
    "insertBlocked a (Some p) s = rbind (insert_at (Some d) a (Some p) t) (\<lambda>s. Ok (False, s))" by blast
  have room': "\<exists>i < 10. (p, i) \<notin> set (all_slots ?g)"
    using wf0_occupied(2) [OF w0 p(1)] room by (simp add: all_slots_def)
  from wf0_insert_at [OF t(1), of "g_asl g" d a "[]" "[]" p] room' p
  obtain x s' where s': "insert_at (Some d) a (Some p) t = Ok s'" "fst x = p" "core s' = core t"
    "wf0 s' (?g\<lparr>g_asl := g_asl g @ [(d, a, [x])]\<rparr>)" by auto
  let ?g' = "?g\<lparr>g_asl := g_asl g @ [(d, a, [x])]\<rparr>"
  have "wf s' ?g'" using w s'(4) by (simp add: wf_def)
  moreover have "abs_q ?g' = (abs_q g)\<lparr>blocked := block a p (blocked (abs_q g))\<rparr>"
    using block_miss [of a "blocked (abs_q g)" p] a(1) s'(2) by (force simp: abs_q_def)
  moreover have "insertBlocked a (Some p) s = Ok (False, s')" using t(3) s'(1) by simp
  ultimately show ?thesis using s'(3) t(2) by metis
qed

lemma insertBlocked_full:
  assumes w: "wf s g" and a: "a \<notin> sem_of ` set (g_asl g)" and free: "g_sfree g = []"
  shows "insertBlocked a p s = Ok (True, s)"
proof -
  have ok: "asl_ok s (g_asl g) []" using w free by (simp add: wf_def wf0_def)
  note v = asl_ok_view [OF ok]
  have ne: "g_asl g \<noteq> []" using asl_view_range(2) [OF v] by auto
  then have "cur_sem s \<noteq> None" "free_head_s s = None"
    using v by (cases "g_asl g"; auto simp: asl_view_def asl_struct_def)+
  with find_miss [OF v a] show ?thesis by (auto simp: insertBlocked_def)
qed

text \<open>The guard under which a process can be blocked, and the two outcomes.\<close>

definition can_block :: "aqueues \<Rightarrow> addr \<Rightarrow> nat \<Rightarrow> bool" where
  "can_block Q a p \<longleftrightarrow> a \<noteq> ENULL_addr \<and> p < 20 \<and> p \<notin> set (unused Q)
     \<and> p \<notin> set (wait_of (blocked Q) a) \<and> occupied Q p < 10"

definition asl_full :: "aqueues \<Rightarrow> addr \<Rightarrow> bool" where
  "asl_full Q a \<longleftrightarrow> a \<notin> fst ` set (blocked Q) \<and> length (blocked Q) = 20"

lemma insertBlocked_refines:
  assumes "repr s Q" "can_block Q a p" "\<not> asl_full Q a"
  shows "\<exists>s'. insertBlocked a (Some p) s = Ok (False, s') \<and> core s' = core s
    \<and> repr s' (Q\<lparr>blocked := block a p (blocked Q)\<rparr>)"
proof -
  from assms(1) obtain g where w: "wf s g" and Q: "Q = abs_q g" by (auto simp: repr_def)
  have ok: "asl_ok s (g_asl g) (g_sfree g)" using w by (simp add: wf_def wf0_def)
  have p: "p < 20" "p \<notin> set (g_free g)" "a \<noteq> ENULL_addr" "occupied (abs_q g) p < 10"
    and nw: "p \<notin> set (waiting (g_asl g) a)"
    using assms(2) by (simp_all add: can_block_def Q wait_of_abs [symmetric])
  show ?thesis
  proof (cases "a \<in> sem_of ` set (g_asl g)")
    case True
    then obtain as1 e as2 where e: "g_asl g = as1 @ e # as2" "sem_of e = a"
      using asl_split [OF True] by blast
    obtain d b q where dq: "e = (d, b, q)" by (cases e)
    have "distinct (map sem_of (as1 @ e # as2))" using ok e by (simp add: asl_ok_def)
    from waiting_hit [OF this] nw e dq have "p \<notin> fst ` set q" by auto
    from insertBlocked_hit [OF w _ p(1,2) this p(4), of as1 d a as2] e dq
    show ?thesis by (auto simp: repr_def Q)
  next
    case False
    have "length (g_asl g) + length (g_sfree g) = 20" using asl_view_range(2) [OF asl_ok_view [OF ok]] .
    with assms(3) False have "g_sfree g \<noteq> []" by (auto simp: asl_full_def Q image_image)
    then obtain d ds where "g_sfree g = d # ds" by (cases "g_sfree g") auto
    from insertBlocked_new [OF w False p(3) this p(1,2,4)] show ?thesis by (auto simp: repr_def Q)
  qed
qed

lemma insertBlocked_refuses:
  assumes "repr s Q" "asl_full Q a"
  shows "insertBlocked a p s = Ok (True, s)"
proof -
  from assms(1) obtain g where w: "wf s g" and Q: "Q = abs_q g" by (auto simp: repr_def)
  have ok: "asl_ok s (g_asl g) (g_sfree g)" using w by (simp add: wf_def wf0_def)
  have "length (g_asl g) + length (g_sfree g) = 20" using asl_view_range(2) [OF asl_ok_view [OF ok]] .
  with assms(2) have "g_sfree g = []" by (auto simp: asl_full_def Q)
  moreover have "a \<notin> sem_of ` set (g_asl g)" using assms(2) by (force simp: asl_full_def Q)
  ultimately show ?thesis by (intro insertBlocked_full [OF w])
qed

section \<open>Unblocking: \<open>removeBlocked\<close>\<close>

lemma leave_append: "leave P (B @ C) = leave P B @ leave P C"
  by (simp add: leave_def)

lemma leave_id:
  assumes "\<forall>(b, q) \<in> set B. q \<noteq> [] \<and> (\<forall>p \<in> set q. \<not> P b p)"
  shows "leave P B = B"
proof -
  have "map (\<lambda>(a, q). (a, filter (\<lambda>p. \<not> P a p) q)) B = B"
    using assms by (intro map_idI) (auto simp: filter_id_conv)
  moreover have "filter (\<lambda>(a, q). q \<noteq> []) B = B" using assms by (auto simp: filter_id_conv)
  ultimately show ?thesis by (simp add: leave_def)
qed

lemma leave_one:
  assumes "\<forall>(b, q) \<in> set (B1 @ B2). q \<noteq> [] \<and> b \<noteq> a"
  shows "leave (\<lambda>b r. b = a \<and> r = p) (B1 @ (a, q) # B2)
    = B1 @ (if filter (\<lambda>r. r \<noteq> p) q = [] then [] else [(a, filter (\<lambda>r. r \<noteq> p) q)]) @ B2"
proof -
  have "leave (\<lambda>b r. b = a \<and> r = p) B1 = B1" "leave (\<lambda>b r. b = a \<and> r = p) B2 = B2"
    using assms by (intro leave_id; fastforce)+
  moreover have "leave (\<lambda>b r. b = a \<and> r = p) ((a, q) # B2)
      = leave (\<lambda>b r. b = a \<and> r = p) [(a, q)] @ leave (\<lambda>b r. b = a \<and> r = p) B2"
    using leave_append [of _ "[(a, q)]" B2] by simp
  ultimately show ?thesis by (simp add: leave_append leave_def)
qed

text \<open>The last part of \<open>removeBlocked\<close> and of one round of \<open>outBlocked\<close>.\<close>

lemma unblock_slot:
  assumes w: "wf s g" and as: "g_asl g = as1 @ (d, a, q1 @ x # q2) # as2"
    and i: "i < 10" "sv s (fst x) i = a"
    and t: "t = set_sv (fst x) i ENULL_addr (upd_semd d (\<lambda>e. e\<lparr>s_link := tail_link (q1 @ q2)\<rparr>)
      (out_state q1 x q2 s))"
  shows "\<exists>h s' g'. headBlocked a t = Ok h
    \<and> (if h = None then removeBlockHelper (Some d) t else Ok t) = Ok s'
    \<and> core s' = core s \<and> wf s' g' \<and> sv s' = (sv s)(fst x := (sv s (fst x))(i := ENULL_addr))
    \<and> abs_q g' = (abs_q g)\<lparr>blocked := leave (\<lambda>b r. b = a \<and> r = fst x) (blocked (abs_q g))\<rparr>"
proof -
  have w0: "wf0 s g" using w by (simp add: wf_def)
  let ?g = "g\<lparr>g_asl := as1 @ (d, a, q1 @ q2) # as2\<rparr>"
  have wt: "wf0 t ?g" unfolding t by (rule wf0_slot_out [OF w0 as i])
  have ct: "core t = core s" and svt: "sv t = (sv s)(fst x := (sv s (fst x))(i := ENULL_addr))"
    by (simp_all add: t)
  have ok: "asl_ok s (as1 @ (d, a, q1 @ x # q2) # as2) (g_sfree g)" using w0 as by (simp add: wf0_def)
  have ds: "distinct (map sem_of (as1 @ (d, a, q1 @ q2) # as2))" using ok by (simp add: asl_ok_def)
  have h: "headBlocked a t = Ok (first_of (map fst (q1 @ q2)))"
    using wf0_headBlocked [OF wt, of a] waiting_hit [OF ds] by simp
  have ne: "\<forall>(b, q) \<in> set (map abs_entry as1 @ map abs_entry as2). q \<noteq> [] \<and> b \<noteq> a"
    using w as asl_ok_entries(6,7) [OF ok] by (force simp: wf_def list_all_iff)
  have "distinct (map fst (q1 @ x # q2))"
    using asl_ok_entries(5) [OF ok] by (simp add: entry_ok_def pring_def)
  then have fq: "filter (\<lambda>r. r \<noteq> fst x) (map fst (q1 @ x # q2)) = map fst (q1 @ q2)"
    using filter_mid [of "map fst q1" "fst x" "map fst q2"] by simp
  have B: "leave (\<lambda>b r. b = a \<and> r = fst x) (blocked (abs_q g)) = map abs_entry as1
      @ (if q1 @ q2 = [] then [] else [(a, map fst (q1 @ q2))]) @ map abs_entry as2"
    using leave_one [OF ne, of "fst x" "map fst (q1 @ x # q2)"] unfolding fq by (simp add: as)
  show ?thesis
  proof (cases "q1 @ q2 = []")
    case True
    with wt have "wf0 t (g\<lparr>g_asl := as1 @ (d, a, []) # as2\<rparr>)" by simp
    from wf0_drop_entry [OF this, of as1 d a as2] obtain s' where s':
      "removeBlockHelper (Some d) t = Ok s'" "core s' = core t" "sv s' = sv t"
      "wf0 s' (g\<lparr>g_asl := as1 @ as2, g_sfree := g_sfree g @ [d]\<rparr>)" by auto
    let ?g' = "g\<lparr>g_asl := as1 @ as2, g_sfree := g_sfree g @ [d]\<rparr>"
    have "wf s' ?g'" using w as s'(4) by (simp add: wf_def)
    moreover have "abs_q ?g' = (abs_q g)\<lparr>blocked := leave (\<lambda>b r. b = a \<and> r = fst x) (blocked (abs_q g))\<rparr>"
      unfolding B using True by (simp add: abs_q_def)
    moreover have "headBlocked a t = Ok None" using h True by simp
    ultimately show ?thesis using s' ct svt by (intro exI [of _ None] exI [of _ s'] exI [of _ ?g']) simp
  next
    case False
    then have "wf t ?g" using w wt as by (simp add: wf_def)
    moreover have "abs_q ?g = (abs_q g)\<lparr>blocked := leave (\<lambda>b r. b = a \<and> r = fst x) (blocked (abs_q g))\<rparr>"
      unfolding B using False by (simp add: abs_q_def)
    ultimately show ?thesis using h False ct svt by (intro exI [of _ "first_of (map fst (q1 @ q2))"]) auto
  qed
qed

lemma repr_entry:
  assumes "repr s Q" "wait_of (blocked Q) a \<noteq> []"
  obtains g as1 d q as2 where "wf s g" "Q = abs_q g" "g_asl g = as1 @ (d, a, q) # as2"
    "map fst q = wait_of (blocked Q) a"
proof -
  from assms(1) obtain g where w: "wf s g" and Q: "Q = abs_q g" by (auto simp: repr_def)
  have "a \<in> sem_of ` set (g_asl g)"
    using assms(2) waiting_miss by (auto simp: Q wait_of_abs simp del: abs_q_simps)
  then obtain as1 e as2 where e: "g_asl g = as1 @ e # as2" "sem_of e = a" using asl_split by blast
  have "distinct (map sem_of (as1 @ e # as2))" using w e by (simp add: wf_def wf0_def asl_ok_def)
  from waiting_hit [OF this] have "map fst (slots_of e) = wait_of (blocked Q) a"
    using e by (simp add: Q wait_of_abs del: abs_q_simps)
  with that [OF w Q, of as1 "fst e" "slots_of e" as2] e show ?thesis by (cases e) auto
qed

lemma asl_find_entry:
  assumes "wf0 s g" "g_asl g = as1 @ (d, a, q) # as2"
  shows "\<exists>pr. asl_find 20 a None (cur_sem s) s = Ok (pr, Some d)" "d < 20"
    "pring s (sl s d) q" "a \<noteq> ENULL_addr"
proof -
  have a: "asl_ok s (as1 @ (d, a, q) # as2) (g_sfree g)" using assms by (simp add: wf0_def)
  show "\<exists>pr. asl_find 20 a None (cur_sem s) s = Ok (pr, Some d)"
    using find_hit [OF asl_ok_view [OF a]] by simp
  show "d < 20" "pring s (sl s d) q" "a \<noteq> ENULL_addr"
    using asl_ok_entries [OF a] by (auto simp: entry_ok_def)
qed

lemma removeBlocked_refines:
  assumes r: "repr s Q" and ne: "wait_of (blocked Q) a = p # ps"
  shows "\<exists>s'. removeBlocked a s = Ok (Some p, s') \<and> core s' = core s
    \<and> repr s' (Q\<lparr>blocked := leave (\<lambda>b r. b = a \<and> r = p) (blocked Q)\<rparr>)"
proof -
  have "wait_of (blocked Q) a \<noteq> []" using ne by simp
  from repr_entry [OF r this] obtain g as1 d q as2 where g: "wf s g" "Q = abs_q g"
    "g_asl g = as1 @ (d, a, q) # as2" "map fst q = wait_of (blocked Q) a" .
  from g(4) ne obtain x q2 where q: "q = [] @ x # q2" "fst x = p" by (auto simp: map_eq_Cons_conv)
  have w0: "wf0 s g" using g by (simp add: wf_def)
  note e = asl_find_entry [OF w0 g(3)]
  have p20: "p < 20" using ring_valid [OF pring_ring [OF e(3)], of x] q by (auto simp: valid_slot_def)
  have rp: "removeProc (sl s d) s = Ok (Some p, tail_link q2, out_state [] x q2 s)"
    using removeProc_pring [of s "sl s d" x q2] e(3) q by simp
  let ?u = "upd_semd d (\<lambda>e. e\<lparr>s_link := tail_link q2\<rparr>) (out_state [] x q2 s)"
  have "blocked_on (g_asl g) p a" using g(3) q by (auto simp: blocked_on_def)
  then have "\<exists>i < 10. sv ?u p i = a"
    using semvec_has [of s "g_asl g" p a] w0 p20 e(4) by (simp add: wf0_def)
  from setSem2_hit [OF p20 this] obtain i where i: "i < 10" "sv s p i = a"
    "setSem2 a (Some p) ?u = Ok (set_sv p i ENULL_addr ?u)" by auto
  have as: "g_asl g = as1 @ (d, a, [] @ x # q2) # as2" using g(3) q(1) by simp
  from unblock_slot [OF g(1) as i(1)] i(2) q(2) obtain h s' g' where s':
    "headBlocked a (set_sv p i ENULL_addr ?u) = Ok h"
    "(if h = None then removeBlockHelper (Some d) (set_sv p i ENULL_addr ?u)
      else Ok (set_sv p i ENULL_addr ?u)) = Ok s'"
    "core s' = core s" "wf s' g'"
    "abs_q g' = (abs_q g)\<lparr>blocked := leave (\<lambda>b r. b = a \<and> r = p) (blocked (abs_q g))\<rparr>"
    by (auto simp del: abs_q_simps)
  from e(1) obtain pr where f: "asl_find 20 a None (cur_sem s) s = Ok (pr, Some d)" by blast
  have "removeBlocked a s = Ok (Some p, s')"
    using f e(2) rp i(3) s'(1,2) by (simp add: removeBlocked_def wr_semd_upd)
  with s' g(2) show ?thesis by (auto simp: repr_def simp del: abs_q_simps)
qed

lemma removeBlocked_none:
  assumes "repr s Q" "wait_of (blocked Q) a = []"
  shows "removeBlocked a s = Ok (None, s)"
proof -
  from assms(1) obtain g where w: "wf s g" and Q: "Q = abs_q g" by (auto simp: repr_def)
  have ok: "asl_ok s (g_asl g) (g_sfree g)" using w by (simp add: wf_def wf0_def)
  have "a \<notin> sem_of ` set (g_asl g)"
  proof
    assume "a \<in> sem_of ` set (g_asl g)"
    then obtain as1 e as2 where e: "g_asl g = as1 @ e # as2" "sem_of e = a" using asl_split by blast
    have "distinct (map sem_of (as1 @ e # as2))" using ok e by (simp add: asl_ok_def)
    from waiting_hit [OF this] have "slots_of e = []"
      using e assms(2) by (simp add: Q wait_of_abs del: abs_q_simps)
    then show False using w e by (simp add: wf_def)
  qed
  from find_miss [OF asl_ok_view [OF ok] this] show ?thesis by (simp add: removeBlocked_def)
qed

lemma headBlocked_repr: "repr s Q \<Longrightarrow> headBlocked a s = Ok (first_of (wait_of (blocked Q) a))"
  unfolding repr_def wf_def using wf0_headBlocked wait_of_abs by metis

section \<open>Taking a process off all semaphores: \<open>outBlocked\<close>\<close>

lemma heap_int_commute:
  "set_sv p i a (s\<lparr>heap_int := h\<rparr>) = (set_sv p i a s)\<lparr>heap_int := h\<rparr>"
  by (simp add: set_sv_def)

lemma freelist_heap_int [simp]: "freelist (s\<lparr>heap_int := h\<rparr>) fs = freelist s fs"
proof -
  have "fl_next (s\<lparr>heap_int := h\<rparr>) = fl_next s" by (rule ext) (simp add: fl_next_def)
  then show ?thesis by (simp add: freelist_def)
qed

lemma wf0_heap_int [simp]: "wf0 (s\<lparr>heap_int := h\<rparr>) g = wf0 s g"
  by (simp add: wf0_def asl_ok_def asl_struct_def list_all_iff entry_ok_def base_ok_def links_ok_def
      semvec_ok_def)

lemma wf_heap_int [simp]: "wf (s\<lparr>heap_int := h\<rparr>) g = wf s g"
  by (simp add: wf_def)

lemma repr_heap_int [simp]: "repr (s\<lparr>heap_int := h\<rparr>) Q = repr s Q"
  by (simp add: repr_def)

abbreviation incr :: "addr \<Rightarrow> kstate \<Rightarrow> kstate" where
  "incr a s \<equiv> s\<lparr>heap_int := (heap_int s)(a := heap_int s a + 1)\<rparr>"

lemma out_one_empty:
  "p < 20 \<Longrightarrow> sv s p i = ENULL_addr \<Longrightarrow> out_one i (Some p) rv s = Ok (rv, s)"
  by (simp add: out_one_def sv_def)

lemma out_one_hit:
  assumes w: "wf s g" and p: "p < 20" and i: "i < 10" "sv s p i \<noteq> ENULL_addr"
  shows "\<exists>s' g'. out_one i (Some p) rv s = Ok (Some p, s') \<and> wf s' g'
    \<and> core s' = core (incr (sv s p i) s) \<and> sv s' = (sv s)(p := (sv s p)(i := ENULL_addr))
    \<and> abs_q g' = (abs_q g)\<lparr>blocked := leave (\<lambda>b r. b = sv s p i \<and> r = p) (blocked (abs_q g))\<rparr>"
proof -
  let ?a = "sv s p i" and ?s = "incr (sv s p i) s"
  have w0: "wf0 ?s g" and wi: "wf ?s g" using w by (simp_all add: wf_def)
  have "card {j. j < 10 \<and> sv s p j = ?a} \<noteq> 0" using i by (auto simp: card_eq_0_iff)
  then have "blocked_on (g_asl g) p ?a"
    using w p i by (auto simp: wf_def wf0_def semvec_ok_def split: if_splits)
  then obtain f x where f: "f \<in> set (g_asl g)" "sem_of f = ?a" "x \<in> set (slots_of f)" and x: "fst x = p"
    by (auto simp: blocked_on_def)
  obtain as1 as2 q1 q2 where "g_asl g = as1 @ f # as2" "slots_of f = q1 @ x # q2"
    using split_list [OF f(1)] split_list [OF f(3)] by blast
  with f(2) have "g_asl g = as1 @ (fst f, ?a, q1 @ x # q2) # as2" by (metis prod.collapse)
  then obtain d where as: "g_asl g = as1 @ (d, ?a, q1 @ x # q2) # as2" by blast
  note e = asl_find_entry [OF w0 as]
  let ?s1 = "set_sv p i ENULL_addr ?s"
  have pr: "pring ?s1 (sl s d) (q1 @ x # q2)" using e(3) by simp
  have out: "outProc (sl s d) (Some p) ?s1 = Ok (Some p, tail_link (q1 @ q2), out_state q1 x q2 ?s1)"
    using outProc_found [OF pr] x by simp
  let ?t = "set_sv p i ENULL_addr (upd_semd d (\<lambda>e. e\<lparr>s_link := tail_link (q1 @ q2)\<rparr>) (out_state q1 x q2 ?s))"
  have t: "upd_semd d (\<lambda>e. e\<lparr>s_link := tail_link (q1 @ q2)\<rparr>) (out_state q1 x q2 ?s1) = ?t"
    by (simp only: out_state_set_sv set_sv_commute)
  have sd: "sv ?s (fst x) i = ?a" using x by simp
  from unblock_slot [OF wi as i(1) sd refl] x obtain h s' g' where s':
    "headBlocked ?a ?t = Ok h" "(if h = None then removeBlockHelper (Some d) ?t else Ok ?t) = Ok s'"
    "core s' = core ?s" "wf s' g'" "sv s' = (sv s)(p := (sv s p)(i := ENULL_addr))"
    "abs_q g' = (abs_q g)\<lparr>blocked := leave (\<lambda>b r. b = ?a \<and> r = p) (blocked (abs_q g))\<rparr>"
    by (auto simp del: abs_q_simps)
  from e(1) obtain pr where f: "asl_find 20 ?a None (cur_sem ?s) ?s = Ok (pr, Some d)" by blast
  have sad: "sa s d = ?a" using w as by (simp add: wf_def wf0_def asl_ok_def entry_ok_def)
  have wrs: "wr_proc ?s (Some p) (\<lambda>e. e\<lparr>semvec := (semvec e)(i := ENULL_addr)\<rparr>) = Ok ?s1"
    using p by (simp add: wr_proc_Some set_sv_def)
  have "out_one i (Some p) rv s = Ok (Some p, s')"
    using f e(2) out s'(1,2) wrs p i t sad
    by (cases h) (simp_all add: out_one_def wr_semd_upd Let_def sv_def [symmetric])
  with s' show ?thesis by blast
qed

text \<open>The semaphores found at the indices \<open>is\<close> of the vector, and the heap after their V.\<close>

definition sems_at :: "(nat \<Rightarrow> addr) \<Rightarrow> nat list \<Rightarrow> addr set" where
  "sems_at v is = {a. a \<noteq> ENULL_addr \<and> (\<exists>i \<in> set is. v i = a)}"

definition incr_all :: "addr set \<Rightarrow> (addr \<Rightarrow> int32) \<Rightarrow> addr \<Rightarrow> int32" where
  "incr_all A h = (\<lambda>a. if a \<in> A then h a + 1 else h a)"

lemma leave_leave: "leave P (leave R B) = leave (\<lambda>a p. P a p \<or> R a p) B"
  by (induction B) (auto simp: leave_def filter_empty_conv conj_commute)

lemma leave_insert:
  "leave (\<lambda>a r. a \<in> A \<and> r = p) (leave (\<lambda>b r. b = c \<and> r = p) B) = leave (\<lambda>a r. a \<in> insert c A \<and> r = p) B"
proof -
  have "(\<lambda>a r. a \<in> A \<and> r = p \<or> a = c \<and> r = p) = (\<lambda>a r. a \<in> insert c A \<and> r = p)"
    by (auto simp: fun_eq_iff)
  then show ?thesis by (simp only: leave_leave)
qed

lemma blocked_twice: "(Q\<lparr>blocked := X\<rparr>)\<lparr>blocked := f (blocked (Q\<lparr>blocked := X\<rparr>))\<rparr> = Q\<lparr>blocked := f X\<rparr>"
  by simp

lemma leave_False:
  assumes "wf s g"
  shows "leave (\<lambda>a p. False) (blocked (abs_q g)) = blocked (abs_q g)"
proof -
  have "\<forall>e \<in> set (g_asl g). slots_of e \<noteq> []" using assms by (auto simp: wf_def list_all_iff)
  then show ?thesis by (intro leave_id) auto
qed

lemma wf_sem_inj:
  assumes "wf s g" "p < 20" "i < 10" "j < 10" "sv s p i = sv s p j" "sv s p i \<noteq> ENULL_addr"
  shows "i = j"
proof -
  let ?S = "{k. k < 10 \<and> sv s p k = sv s p i}"
  have "card ?S \<le> 1" using assms by (auto simp: wf_def wf0_def semvec_ok_def)
  moreover have "{i, j} \<subseteq> ?S" using assms by auto
  then have "card {i, j} \<le> card ?S" by (intro card_mono) auto
  ultimately show ?thesis by (auto simp: card_insert_if split: if_splits)
qed

lemma core_fun: "core s = core t \<Longrightarrow> core (s\<lparr>heap_int := h\<rparr>) = core (t\<lparr>heap_int := h\<rparr>)"
  by (simp add: core_heap_int)

lemma out_loop_refines:
  assumes "wf s g" "p < 20" "distinct is" "\<forall>i \<in> set is. i < 10"
  shows "\<exists>s' g'. out_loop is (Some p) rv s
      = Ok (if sems_at (sv s p) is = {} then rv else Some p, s') \<and> wf s' g'
    \<and> core s' = core (s\<lparr>heap_int := incr_all (sems_at (sv s p) is) (heap_int s)\<rparr>)
    \<and> abs_q g' = (abs_q g)\<lparr>blocked :=
        leave (\<lambda>a r. a \<in> sems_at (sv s p) is \<and> r = p) (blocked (abs_q g))\<rparr>"
  using assms
proof (induction "is" arbitrary: s g rv)
  case Nil
  have "(abs_q g)\<lparr>blocked := blocked (abs_q g)\<rparr> = abs_q g" by (simp add: abs_q_def)
  with Nil show ?case
    using leave_False [OF Nil(1)] by (auto simp: sems_at_def incr_all_def)
next
  case (Cons i "is")
  show ?case
  proof (cases "sv s p i = ENULL_addr")
    case True
    then have "sems_at (sv s p) (i # is) = sems_at (sv s p) is" by (auto simp: sems_at_def)
    moreover have "out_one i (Some p) rv s = Ok (rv, s)" using True Cons.prems by (intro out_one_empty)
    ultimately show ?thesis using Cons.IH [OF Cons.prems(1,2), of rv] Cons.prems(3,4)
      by (auto simp del: abs_q_simps)
  next
    case False
    let ?a = "sv s p i"
    from out_one_hit [OF Cons.prems(1,2) _ False, of rv] Cons.prems(4)
    obtain s1 g1 where s1: "out_one i (Some p) rv s = Ok (Some p, s1)" "wf s1 g1"
      "core s1 = core (incr ?a s)" "sv s1 = (sv s)(p := (sv s p)(i := ENULL_addr))"
      "abs_q g1 = (abs_q g)\<lparr>blocked := leave (\<lambda>b r. b = ?a \<and> r = p) (blocked (abs_q g))\<rparr>"
      by auto
    have sm: "sems_at (sv s1 p) is = sems_at (sv s p) is" "?a \<notin> sems_at (sv s p) is"
      using Cons.prems wf_sem_inj [OF Cons.prems(1,2)] by (force simp: sems_at_def s1(4))+
    have S: "sems_at (sv s p) (i # is) = insert ?a (sems_at (sv s p) is)"
      using False by (auto simp: sems_at_def)
    have hp: "incr_all (sems_at (sv s p) is) (heap_int s1)
        = incr_all (insert ?a (sems_at (sv s p) is)) (heap_int s)"
      using core_eqD(1) [OF s1(3)] sm(2) by (auto simp: incr_all_def fun_eq_iff)
    from Cons.IH [OF s1(2), of "Some p"] Cons.prems sm obtain s' g' where s':
      "out_loop is (Some p) (Some p) s1 = Ok (Some p, s')" "wf s' g'"
      "core s' = core (s1\<lparr>heap_int := incr_all (sems_at (sv s p) is) (heap_int s1)\<rparr>)"
      "abs_q g' = (abs_q g1)\<lparr>blocked := leave (\<lambda>a r. a \<in> sems_at (sv s p) is \<and> r = p) (blocked (abs_q g1))\<rparr>"
      by (auto simp del: abs_q_simps)
    have "core s' = core (s\<lparr>heap_int := incr_all (sems_at (sv s p) (i # is)) (heap_int s)\<rparr>)"
      using core_fun [OF s1(3)] unfolding s'(3) hp S by simp
    moreover have "abs_q g' = (abs_q g)\<lparr>blocked :=
        leave (\<lambda>a r. a \<in> sems_at (sv s p) (i # is) \<and> r = p) (blocked (abs_q g))\<rparr>"
      unfolding s'(4) s1(5) S blocked_twice leave_insert ..
    ultimately show ?thesis using s1(1) s'(1,2) S by (auto simp del: abs_q_simps)
  qed
qed

definition sems_of :: "aqueues \<Rightarrow> nat \<Rightarrow> addr set" where
  "sems_of Q p = {a. p \<in> set (wait_of (blocked Q) a)}"

lemma wf_sems:
  assumes w: "wf s g" and p: "p < 20"
  shows "sems_at (sv s p) [0..<10] = sems_of (abs_q g) p"
proof -
  have ok: "asl_ok s (g_asl g) (g_sfree g)" and sem: "semvec_ok s (g_asl g)"
    using w by (auto simp: wf_def wf0_def)
  have "a \<in> sems_at (sv s p) [0..<10] \<longleftrightarrow> a \<noteq> ENULL_addr \<and> {i. i < 10 \<and> sv s p i = a} \<noteq> {}" for a
    by (auto simp: sems_at_def simp del: upt_rec_numeral)
  moreover have "{i. i < 10 \<and> sv s p i = a} \<noteq> {} \<longleftrightarrow> blocked_on (g_asl g) p a" if "a \<noteq> ENULL_addr" for a
  proof -
    have "card {i. i < 10 \<and> sv s p i = a} = (if blocked_on (g_asl g) p a then 1 else 0)"
      using sem p that by (simp add: semvec_ok_def)
    moreover have "card {i. i < 10 \<and> sv s p i = a} = 0 \<longleftrightarrow> {i. i < 10 \<and> sv s p i = a} = {}"
      by (subst card_0_eq) auto
    ultimately show ?thesis by (auto split: if_splits)
  qed
  moreover have "blocked_on (g_asl g) p a \<longleftrightarrow> a \<noteq> ENULL_addr \<and> p \<in> set (waiting (g_asl g) a)" for a
  proof (cases "a \<in> sem_of ` set (g_asl g)")
    case True
    then obtain as1 e as2 where e: "g_asl g = as1 @ e # as2" "sem_of e = a" using asl_split by blast
    have a: "asl_ok s (as1 @ e # as2) (g_sfree g)" using ok e by simp
    from waiting_hit [of as1 e as2] a have "waiting (as1 @ e # as2) a = map fst (slots_of e)"
      using e by (simp add: asl_ok_def)
    then show ?thesis
      using e asl_ok_entries [OF a] by (auto simp: blocked_on_def entry_ok_def, (force simp: image_iff)+)
  next
    case False
    then show ?thesis by (auto simp: blocked_on_def waiting_miss)
  qed
  moreover have "waiting (g_asl g) ENULL_addr = []"
    using ok by (intro waiting_miss) (auto simp: asl_ok_def list_all_iff entry_ok_def)
  ultimately show ?thesis
    by (intro set_eqI) (metis (no_types, lifting) mem_Collect_eq sems_of_def wait_of_abs empty_iff empty_set)
qed

lemma leave_cong:
  assumes "\<And>a q p. (a, q) \<in> set B \<Longrightarrow> p \<in> set q \<Longrightarrow> P a p = R a p"
  shows "leave P B = leave R B"
proof -
  have "map (\<lambda>(a, q). (a, filter (\<lambda>p. \<not> P a p) q)) B = map (\<lambda>(a, q). (a, filter (\<lambda>p. \<not> R a p) q)) B"
    using assms by (auto intro!: filter_cong)
  then show ?thesis unfolding leave_def by (simp only:)
qed

lemma wait_of_mem:
  assumes "distinct (map fst B)" "(a, q) \<in> set B"
  shows "wait_of B a = q"
  using assms by (induction B) (auto simp: rev_image_eqI)

lemma outBlocked_refines:
  assumes r: "repr s Q" and p: "p < 20"
  shows "\<exists>s'. outBlocked (Some p) s = Ok (if sems_of Q p = {} then None else Some p, s')
    \<and> core s' = core (s\<lparr>heap_int := incr_all (sems_of Q p) (heap_int s)\<rparr>)
    \<and> repr s' (Q\<lparr>blocked := leave (\<lambda>a r. r = p) (blocked Q)\<rparr>)"
proof -
  from r obtain g where w: "wf s g" and Q: "Q = abs_q g" by (auto simp: repr_def)
  have "distinct (map fst (blocked Q))" using wf_aq_ok [OF w] Q by (simp add: aq_ok_def)
  then have "leave (\<lambda>a r. a \<in> sems_of Q p \<and> r = p) (blocked Q) = leave (\<lambda>a r. r = p) (blocked Q)"
    using wait_of_mem by (intro leave_cong) (auto simp: sems_of_def)
  with out_loop_refines [OF w p, of "[0..<10]" None] wf_sems [OF w p]
  show ?thesis
    by (cases "sems_of Q p = {}") (auto simp: outBlocked_def repr_def Q simp del: abs_q_simps upt_rec_numeral)
qed

section \<open>The ready queue\<close>

definition can_ready :: "aqueues \<Rightarrow> nat \<Rightarrow> bool" where
  "can_ready Q p \<longleftrightarrow> p < 20 \<and> p \<notin> set (unused Q) \<and> p \<notin> set (ready Q) \<and> occupied Q p < 10"

lemma insertProc_ready:
  assumes r: "repr s Q" and c: "can_ready Q p"
  shows "\<exists>tp s'. insertProc (running_queue s) (Some p) s = Ok (tp, s') \<and> core s' = core s
    \<and> repr (s'\<lparr>running_queue := tp\<rparr>) (Q\<lparr>ready := ready Q @ [p]\<rparr>)"
proof -
  from r obtain g where w: "wf s g" and Q: "Q = abs_q g" by (auto simp: repr_def)
  have w0: "wf0 s g" using w by (simp add: wf_def)
  have p: "p < 20" "p \<notin> set (g_free g)" "p \<notin> fst ` set (g_rq g)"
    "\<exists>i < 10. (p, i) \<notin> set (all_slots g)"
    using c wf0_occupied(2) [OF w0] by (auto simp: can_ready_def Q)
  from wf0_rq_insert [OF w0 p] obtain x s' where s': "insertProc (running_queue s) (Some p) s = Ok (lk x, s')"
    "fst x = p" "core s' = core s" "wf0 (s'\<lparr>running_queue := lk x\<rparr>) (g\<lparr>g_rq := g_rq g @ [x]\<rparr>)" by blast
  then have "wf (s'\<lparr>running_queue := lk x\<rparr>) (g\<lparr>g_rq := g_rq g @ [x]\<rparr>)"
    "abs_q (g\<lparr>g_rq := g_rq g @ [x]\<rparr>) = Q\<lparr>ready := ready Q @ [p]\<rparr>"
    using w by (simp_all add: wf_def Q abs_q_def)
  with s' show ?thesis unfolding repr_def by blast
qed

lemma ready_out:
  assumes w: "wf s g" and rq: "g_rq g = as @ x # bs"
  shows "wf ((out_state as x bs s)\<lparr>running_queue := tail_link (as @ bs)\<rparr>) (g\<lparr>g_rq := as @ bs\<rparr>)"
    "abs_q (g\<lparr>g_rq := as @ bs\<rparr>) = (abs_q g)\<lparr>ready := filter (\<lambda>r. r \<noteq> fst x) (ready (abs_q g))\<rparr>"
proof -
  have "pring s (running_queue s) (g_rq g)" using w by (simp add: wf_def wf0_def)
  then have "filter (\<lambda>r. r \<noteq> fst x) (map fst (g_rq g)) = map fst (as @ bs)"
    using filter_mid [of "map fst as" "fst x" "map fst bs"] by (simp add: rq pring_def)
  then show "abs_q (g\<lparr>g_rq := as @ bs\<rparr>) = (abs_q g)\<lparr>ready := filter (\<lambda>r. r \<noteq> fst x) (ready (abs_q g))\<rparr>"
    by (simp add: abs_q_def)
  show "wf ((out_state as x bs s)\<lparr>running_queue := tail_link (as @ bs)\<rparr>) (g\<lparr>g_rq := as @ bs\<rparr>)"
    using w wf0_rq_out [OF _ rq] by (simp add: wf_def)
qed

lemma removeProc_ready:
  assumes r: "repr s Q" and ne: "ready Q = p # ps"
  shows "\<exists>tp s'. removeProc (running_queue s) s = Ok (Some p, tp, s') \<and> core s' = core s
    \<and> repr (s'\<lparr>running_queue := tp\<rparr>) (Q\<lparr>ready := ps\<rparr>)"
proof -
  from r obtain g where w: "wf s g" and Q: "Q = abs_q g" by (auto simp: repr_def)
  with ne obtain x xs where rq: "g_rq g = [] @ x # xs" and p: "fst x = p" "map fst xs = ps"
    by (auto simp: map_eq_Cons_conv)
  have pr: "pring s (running_queue s) (x # xs)" using w rq by (simp add: wf_def wf0_def)
  have "abs_q (g\<lparr>g_rq := xs\<rparr>) = Q\<lparr>ready := ps\<rparr>" by (simp add: Q abs_q_def p)
  with ready_out(1) [OF w rq] removeProc_pring [OF pr] p(1) show ?thesis
    unfolding repr_def by (intro exI [of _ "tail_link xs"] exI [of _ "out_state [] x xs s"]) auto
qed

lemma outProc_ready:
  assumes r: "repr s Q" and mem: "p \<in> set (ready Q)"
  shows "\<exists>tp s'. outProc (running_queue s) (Some p) s = Ok (Some p, tp, s') \<and> core s' = core s
    \<and> repr (s'\<lparr>running_queue := tp\<rparr>) (Q\<lparr>ready := filter (\<lambda>r. r \<noteq> p) (ready Q)\<rparr>)"
proof -
  from r obtain g where w: "wf s g" and Q: "Q = abs_q g" by (auto simp: repr_def)
  with mem obtain x where "x \<in> set (g_rq g)" and p: "fst x = p" by auto
  then obtain as bs where rq: "g_rq g = as @ x # bs" by (auto simp: in_set_conv_decomp)
  have pr: "pring s (running_queue s) (as @ x # bs)" using w rq by (simp add: wf_def wf0_def)
  from ready_out [OF w rq] outProc_found [OF pr] p show ?thesis
    unfolding repr_def Q
    by (intro exI [of _ "tail_link (as @ bs)"] exI [of _ "out_state as x bs s"]) auto
qed

lemma headQueue_ready: "repr s Q \<Longrightarrow> headQueue (running_queue s) s = Ok (first_of (ready Q))"
proof -
  have m: "map_option fst (first_of xs) = first_of (map fst xs)" for xs :: "slot list"
    by (cases xs) auto
  assume "repr s Q"
  then obtain g where w: "wf s g" and Q: "Q = abs_q g" by (auto simp: repr_def)
  then have "ring s (running_queue s) (g_rq g)" by (simp add: wf_def wf0_def pring_def)
  from headQueue_ring [OF this] show ?thesis by (simp add: Q m)
qed

end
