(* ===== verification/Entries.thy ===== *)
theory Entries
  imports Blocking
begin

text \<open>
  Process entries at the level of the whole queue state: \<open>allocProc\<close> and \<open>freeProc\<close> move
  an entry between the unused ones and those in use, \<open>initProc\<close> and \<open>initSemd\<close> build the
  empty state; and the contract the active semaphore list provides for each semaphore.
\<close>

section \<open>\<open>allocProc\<close> and \<open>freeProc\<close>\<close>

lemma base_alloc:
  assumes b: "base_ok s (p # F) U"
  shows "base_ok (alloc_state p (first_of F) s) F U"
proof -
  have fl: "freelist s (p # F)" and l: "links_ok s (set (p # F)) U" using b by (auto simp: base_ok_def)
  let ?t = "alloc_state p (first_of F) s"
  have p: "p < 20" "p \<notin> set F" using fl by (auto simp: freelist_def)
  have lk: "lnk ?t x = (if x = (p, 0) then null_link else lnk s x)" for x
    by (simp add: alloc_state_def)
  have qc: "qc ?t = qc s" by (auto simp: alloc_state_def)
  have nU: "(p, i) \<notin> U" for i using links_ok_free [OF l] by simp
  have "links_ok ?t (set F) U"
    unfolding links_ok_def
  proof (intro conjI ballI allI impI)
    fix x assume "x \<in> U"
    then show "valid_slot x" "fst x \<notin> set F" "index (lnk ?t x) \<noteq> ENULL"
      using l nU [of 0] by (auto simp: links_ok_def lk)
  next
    fix q i assume q: "q < MAXPROC" "q \<notin> set F" "i < SEMMAX" "(q, i) \<notin> U"
    then show "lnk ?t (q, i) = null_link"
      using l by (cases "q = p"; cases "i = 0") (auto simp: links_ok_def lk)
  next
    fix q i assume "q \<in> set F" "i < SEMMAX" "0 < i"
    then show "lnk ?t (q, i) = null_link" using l by (auto simp: links_ok_def lk)
  next
    fix q assume "q < MAXPROC"
    then show "qc ?t q = int (card {i. i < SEMMAX \<and> (q, i) \<in> U})" using l by (simp add: links_ok_def qc)
  qed
  with allocProc_freelist(2) [OF fl] show ?thesis by (simp add: base_ok_def)
qed

lemma free_state_obs:
  assumes "p \<notin> set F"
  shows "lnk (free_state p F s) x = (if fst x = p \<and> snd x < 10 then null_link
      else if F \<noteq> [] \<and> x = (last F, 0) then (lnk s x)\<lparr>nxt := Some p\<rparr> else lnk s x)"
    and "qc (free_state p F s) = (qc s)(p := 0)"
    and "sv (free_state p F s) = (sv s)(p := \<lambda>i. if i < 10 then ENULL_addr else sv s p i)"
    and "nx (free_state p F s) = nx s" "pv (free_state p F s) = pv s" "sa (free_state p F s) = sa s"
    "sl (free_state p F s) = sl s" "cur_sem (free_state p F s) = cur_sem s"
    "free_head_s (free_state p F s) = free_head_s s" "running_queue (free_state p F s) = running_queue s"
    "core (free_state p F s) = core s"
proof -
  have l: "last F \<noteq> p" if "F \<noteq> []" using that assms by (metis last_in_set)
  show "lnk (free_state p F s) x = (if fst x = p \<and> snd x < 10 then null_link
      else if F \<noteq> [] \<and> x = (last F, 0) then (lnk s x)\<lparr>nxt := Some p\<rparr> else lnk s x)"
    using l by (cases x) (auto simp: free_state_def Let_def lnk_def set_lnk_def set_free_entry_def free_entry_links)
  show "qc (free_state p F s) = (qc s)(p := 0)"
    "sv (free_state p F s) = (sv s)(p := \<lambda>i. if i < 10 then ENULL_addr else sv s p i)"
    by (auto simp: fun_eq_iff free_state_def Let_def qc_def sv_def set_lnk_def set_free_entry_def free_entry_links)
  show "nx (free_state p F s) = nx s" "pv (free_state p F s) = pv s" "sa (free_state p F s) = sa s"
    "sl (free_state p F s) = sl s" "cur_sem (free_state p F s) = cur_sem s"
    "free_head_s (free_state p F s) = free_head_s s" "running_queue (free_state p F s) = running_queue s"
    by (auto simp: fun_eq_iff free_state_def Let_def nx_def pv_def sa_def sl_def set_lnk_def
        set_free_entry_def simp del: semd_fold)
  have "core (set_free_entry p s) = core s"
    by (auto simp: core_def set_free_entry_def free_entry_def init_semd_def fun_eq_iff intro!: kstate.equality)
  then show "core (free_state p F s) = core s" by (simp add: free_state_def Let_def)
qed

lemma alloc_obs [simp]:
  "nx (alloc_state p h s) = nx s" "pv (alloc_state p h s) = pv s" "sa (alloc_state p h s) = sa s"
  "sl (alloc_state p h s) = sl s" "cur_sem (alloc_state p h s) = cur_sem s" "sv (alloc_state p h s) = sv s"
  "free_head_s (alloc_state p h s) = free_head_s s" "running_queue (alloc_state p h s) = running_queue s"
  "core (alloc_state p h s) = core s"
  by (simp_all add: alloc_state_def)

text \<open>The queue rings and the active list do not care about entries outside all queues.\<close>

lemma wf_reframe:
  assumes w: "wf s g" and b: "base_ok t F' (set (all_slots g))"
    and obs: "nx t = nx s" "pv t = pv s" "sa t = sa s" "sl t = sl s" "cur_sem t = cur_sem s"
      "free_head_s t = free_head_s s" "running_queue t = running_queue s"
    and lk: "\<And>x. x \<in> set (all_slots g) \<Longrightarrow> lnk t x = lnk s x"
    and sem: "semvec_ok t (g_asl g)"
  shows "wf t (g\<lparr>g_free := F'\<rparr>)"
proof -
  have rq: "pring s (running_queue s) (g_rq g)" and a: "asl_ok s (g_asl g) (g_sfree g)"
    and ne: "list_all (\<lambda>e. slots_of e \<noteq> []) (g_asl g)" and d: "distinct (all_slots g)"
    using w by (auto simp: wf_def wf0_def)
  have "pring t (running_queue t) (g_rq g)"
    unfolding obs using lk by (intro pring_lnk_cong [OF rq]) (simp add: all_slots_def)
  moreover have "entry_ok t e" if "e \<in> set (g_asl g)" for e
  proof (rule entry_ok_cong)
    show "entry_ok s e" using a that by (simp add: asl_ok_def list_all_iff)
    show "lnk t x = lnk s x" if "x \<in> set (slots_of e)" for x
      using that \<open>e \<in> set (g_asl g)\<close> by (intro lk) (auto simp: all_slots_def)
  qed (simp_all add: obs)
  then have "asl_ok t (g_asl g) (g_sfree g)"
    using a by (auto simp: asl_ok_def list_all_iff obs intro: asl_struct_cong)
  ultimately show ?thesis using ne b d sem by (simp add: wf_def wf0_def all_slots_def)
qed

lemma allocProc_refines:
  assumes r: "repr s Q" and u: "unused Q = p # ps"
  shows "\<exists>s'. allocProc s = Ok (Some p, s') \<and> core s' = core s \<and> repr s' (Q\<lparr>unused := ps\<rparr>)"
proof -
  from r obtain g where w: "wf s g" and Q: "Q = abs_q g" by (auto simp: repr_def)
  have b: "base_ok s (p # ps) (set (all_slots g))" and sem: "semvec_ok s (g_asl g)"
    using w u by (simp_all add: Q wf_def wf0_def)
  have fl: "freelist s (p # ps)" and l: "links_ok s (set (p # ps)) (set (all_slots g))"
    using b by (auto simp: base_ok_def)
  let ?t = "alloc_state p (first_of ps) s"
  have "lnk ?t x = lnk s x" if "x \<in> set (all_slots g)" for x
    using that links_ok_free [OF l, of p 0] by (auto simp: alloc_state_def)
  then have "wf ?t (g\<lparr>g_free := ps\<rparr>)"
    using base_alloc [OF b] sem by (intro wf_reframe [OF w]) (auto intro: semvec_ok_cong)
  moreover have "abs_q (g\<lparr>g_free := ps\<rparr>) = Q\<lparr>unused := ps\<rparr>" by (simp add: Q abs_q_def)
  ultimately show ?thesis using allocProc_freelist(1) [OF fl] by (auto simp: repr_def)
qed

lemma allocProc_none: "repr s Q \<Longrightarrow> unused Q = [] \<Longrightarrow> allocProc s = Ok (None, s)"
  by (auto simp: repr_def wf_def wf0_def base_ok_def intro: allocProc_empty)

lemma base_free:
  assumes b: "base_ok s F U" and p: "p < 20" "p \<notin> set F" and no: "\<And>i. (p, i) \<notin> U"
  shows "base_ok (free_state p F s) (F @ [p]) U"
proof -
  have fl: "freelist s F" and l: "links_ok s (set F) U" using b by (auto simp: base_ok_def)
  let ?t = "free_state p F s"
  note obs = free_state_obs [OF p(2), of s]
  have lU: "F \<noteq> [] \<Longrightarrow> (last F, i) \<notin> U" for i using links_ok_free [OF l] by simp
  have "links_ok ?t (set (F @ [p])) U"
    unfolding links_ok_def
  proof (intro conjI ballI allI impI)
    fix x assume x: "x \<in> U"
    then have "lnk ?t x = lnk s x" using lU [of 0] no by (cases x) (auto simp: obs(1))
    then show "index (lnk ?t x) \<noteq> ENULL" using l x by (simp add: links_ok_def)
    show "valid_slot x" "fst x \<notin> set (F @ [p])" using l x no by (cases x; auto simp: links_ok_def)+
  next
    fix q i assume "q < MAXPROC" "q \<notin> set (F @ [p])" "i < SEMMAX" "(q, i) \<notin> U"
    moreover from this have "F \<noteq> [] \<Longrightarrow> q \<noteq> last F" by auto
    ultimately show "lnk ?t (q, i) = null_link" using l by (auto simp: links_ok_def obs(1))
  next
    fix q i assume "q \<in> set (F @ [p])" "i < SEMMAX" "0 < i"
    then show "lnk ?t (q, i) = null_link" using l by (auto simp: links_ok_def obs(1))
  next
    fix q assume "q < MAXPROC"
    then show "qc ?t q = int (card {i. i < SEMMAX \<and> (q, i) \<in> U})"
      using l no by (simp add: links_ok_def obs(2))
  qed
  with freeProc_freelist(2) [OF fl p] show ?thesis by (simp add: base_ok_def)
qed

lemma unoccupied:
  assumes "wf s g" "p < 20" "occupied (abs_q g) p = 0"
  shows "(p, i) \<notin> set (all_slots g)" "\<not> blocked_on (g_asl g) p a"
proof -
  have "count_list (map fst (all_slots g)) p = 0" using assms by (simp only: abs_slots occupied_def)
  then have n: "p \<notin> fst ` set (all_slots g)" by (simp add: count_list_0_iff)
  then show "(p, i) \<notin> set (all_slots g)" by force
  show "\<not> blocked_on (g_asl g) p a" using n by (fastforce simp: blocked_on_def all_slots_def)
qed

lemma freeProc_refines:
  assumes r: "repr s Q" and p: "p < 20" "p \<notin> set (unused Q)" and occ: "occupied Q p = 0"
  shows "\<exists>s'. freeProc (Some p) s = Ok s' \<and> core s' = core s \<and> repr s' (Q\<lparr>unused := unused Q @ [p]\<rparr>)"
proof -
  from r obtain g where w: "wf s g" and Q: "Q = abs_q g" by (auto simp: repr_def)
  have b: "base_ok s (g_free g) (set (all_slots g))" and sem: "semvec_ok s (g_asl g)"
    using w by (simp_all add: wf_def wf0_def)
  have pf: "p \<notin> set (g_free g)" using p by (simp add: Q)
  have fl: "freelist s (g_free g)" and l: "links_ok s (set (g_free g)) (set (all_slots g))"
    using b by (auto simp: base_ok_def)
  note un = unoccupied [OF w p(1), unfolded Q [symmetric], OF occ]
  let ?t = "free_state p (g_free g) s"
  note obs = free_state_obs [OF pf, of s]
  have lf: "g_free g \<noteq> [] \<Longrightarrow> (last (g_free g), i) \<notin> set (all_slots g)" for i
    using links_ok_free [OF l] by simp
  have lk: "lnk ?t x = lnk s x" if "x \<in> set (all_slots g)" for x
    using that lf [of 0] un(1) [of "snd x"] by (auto simp: obs(1))
  have "semvec_ok ?t (g_asl g)"
    using sem un(2) by (auto simp: semvec_ok_def obs(3) card_eq_0_iff)
  then have "wf ?t (g\<lparr>g_free := g_free g @ [p]\<rparr>)"
    using lk base_free [OF b p(1) pf un(1)] by (intro wf_reframe [OF w]) (simp_all add: obs)
  moreover have "abs_q (g\<lparr>g_free := g_free g @ [p]\<rparr>) = Q\<lparr>unused := unused Q @ [p]\<rparr>" by (simp add: Q abs_q_def)
  ultimately show ?thesis using freeProc_freelist(1) [OF fl p(1) pf] obs(11) by (auto simp: repr_def)
qed

section \<open>The represented state is unique\<close>

lemma ring_unique: "ring s tp xs \<Longrightarrow> ring s tp ys \<Longrightarrow> xs = ys"
  by (auto simp: ring_def tail_link_def split: if_splits intro: cyc_unique)

lemma asl_unique:
  assumes "asl_ok s as ds" "asl_ok s as' ds'"
  shows "as = as'"
proof -
  have f: "map fst as = map fst as'"
    using assms seg_unique [of "nx s" "map fst as" "map fst as'"] by (auto simp: asl_ok_def asl_struct_def)
  have "e = f" if "e \<in> set as" "f \<in> set as'" "fst e = fst f" for e f
    using that assms ring_unique [of s "sl s (fst e)"]
    by (auto simp: asl_ok_def list_all_iff entry_ok_def pring_def prod_eq_iff)
  note one = this
  have len: "length as = length as'" using f by (rule map_eq_imp_length_eq)
  show ?thesis
  proof (rule nth_equalityI [OF len])
    fix i assume i: "i < length as"
    then have "fst (as ! i) = fst (as' ! i)" using f len nth_map [of i as fst] nth_map [of i as' fst] by simp
    then show "as ! i = as' ! i" using i len by (intro one) simp_all
  qed
qed

lemma repr_unique:
  assumes "repr s Q" "repr s Q'"
  shows "Q = Q'"
proof -
  from assms obtain g h where g: "wf s g" "Q = abs_q g" and h: "wf s h" "Q' = abs_q h"
    by (auto simp: repr_def)
  have "g_rq g = g_rq h"
    using g h ring_unique by (auto simp: wf_def wf0_def pring_def)
  moreover have "g_asl g = g_asl h"
    using g(1) h(1) asl_unique by (auto simp: wf_def wf0_def)
  moreover have "g_free g = g_free h"
    using g(1) h(1) seg_unique [of "fl_next s" "g_free g" "g_free h"]
    by (auto simp: wf_def wf0_def base_ok_def freelist_def)
  ultimately show ?thesis using g h by (simp add: abs_q_def)
qed

section \<open>The semaphore queues provide the queue contract\<close>

definition sem_rep :: "addr \<Rightarrow> kstate \<Rightarrow> nat list \<Rightarrow> bool" where
  "sem_rep a s ps \<longleftrightarrow> (\<exists>Q. repr s Q \<and> wait_of (blocked Q) a = ps)"

lemma sem_repI: "repr s Q \<Longrightarrow> wait_of (blocked Q) a = ps \<Longrightarrow> sem_rep a s ps"
  by (auto simp: sem_rep_def)

definition can_wait :: "addr \<Rightarrow> nat \<Rightarrow> kstate \<Rightarrow> nat list \<Rightarrow> bool" where
  "can_wait a p s ps \<longleftrightarrow> (\<exists>Q. repr s Q \<and> can_block Q a p \<and> \<not> asl_full Q a)"

definition block_on :: "addr \<Rightarrow> nat \<Rightarrow> kstate \<Rightarrow> kstate kres" where
  "block_on a p s = rbind (insertBlocked a (Some p) s) (\<lambda>(full, s). Ok s)"

lemma wait_of_block: "wait_of (block a p B) b = (if b = a then wait_of B a @ [p] else wait_of B b)"
  by (induction B) auto

lemma count_block: "count_list (concat (map snd (block a p B))) q
    = count_list (concat (map snd B)) q + (if q = p then 1 else 0)"
  by (induction B) auto

lemma block_active: "fst ` set (block a p B) = insert a (fst ` set B)"
proof (induction B)
  case (Cons e B)
  then show ?case by (cases e) (simp add: insert_commute)
qed simp

lemma wait_of_leave:
  assumes "distinct (map fst B)"
  shows "wait_of (leave P B) a = filter (\<lambda>p. \<not> P a p) (wait_of B a)"
  using assms
proof (induction B)
  case (Cons e B)
  have "fst ` set (leave P B) \<subseteq> fst ` set B" by (auto simp: leave_def rev_image_eqI)
  moreover have "leave P (e # B) = leave P [e] @ leave P B" using leave_append [of P "[e]" B] by simp
  ultimately show ?case using Cons by (cases e) (auto simp: leave_def wait_of_miss)
qed (simp add: leave_def)

lemma can_block_other:
  assumes "can_block Q a y" "x \<noteq> y"
  shows "can_block (Q\<lparr>blocked := block a x (blocked Q)\<rparr>) a y"
  using assms by (simp add: can_block_def occupied_def wait_of_block count_block)

interpretation semq: fifo_head "block_on a" "removeBlocked a" "sem_rep a" "can_wait a" "headBlocked a" for a
proof (unfold_locales, goal_cases)
  case (1 s xs x)
  then obtain Q where Q: "repr s Q" "wait_of (blocked Q) a = xs" "can_block Q a x" "\<not> asl_full Q a"
    using repr_unique by (metis can_wait_def sem_rep_def)
  from insertBlocked_refines [OF Q(1,3,4)] obtain s' where s': "insertBlocked a (Some x) s = Ok (False, s')"
    "repr s' (Q\<lparr>blocked := block a x (blocked Q)\<rparr>)" by blast
  then have "sem_rep a s' (xs @ [x])" using Q(2) by (intro sem_repI [OF s'(2)]) (simp add: wait_of_block)
  with s'(1) show ?case by (simp add: block_on_def)
next
  case (2 s)
  then show ?case using removeBlocked_none by (auto simp: sem_rep_def)
next
  case (3 s x xs)
  then obtain Q where Q: "repr s Q" "wait_of (blocked Q) a = x # xs" by (auto simp: sem_rep_def)
  from removeBlocked_refines [OF Q] obtain s' where s': "removeBlocked a s = Ok (Some x, s')"
    "repr s' (Q\<lparr>blocked := leave (\<lambda>b r. b = a \<and> r = x) (blocked Q)\<rparr>)" by blast
  have ok: "aq_ok Q" by (rule repr_aq_ok [OF Q(1)])
  then have d: "distinct (map fst (blocked Q))" by (simp add: aq_ok_def)
  obtain g where g: "wf s g" "Q = abs_q g" using Q by (auto simp: repr_def)
  have "distinct (wait_of (blocked Q) a)" 
    using ok Q(2) wait_of_miss [of a "blocked Q"] wait_of_mem [OF d] by (fastforce simp: aq_ok_def)
  then have "wait_of (leave (\<lambda>b r. b = a \<and> r = x) (blocked Q)) a = xs"
    using filter_mid [of "[]" x xs] by (simp add: wait_of_leave [OF d] Q(2))
  then have "sem_rep a s' xs" by (intro sem_repI [OF s'(2)]) simp
  with s'(1) show ?case by simp
next
  case (4 s xs x y s')
  then obtain Q where Q: "repr s Q" "can_block Q a x" "\<not> asl_full Q a" "can_block Q a y"
    using repr_unique by (metis can_wait_def)
  from insertBlocked_refines [OF Q(1,2,3)] 4(5)
  have "repr s' (Q\<lparr>blocked := block a x (blocked Q)\<rparr>)" by (auto simp: block_on_def)
  moreover have "\<not> asl_full (Q\<lparr>blocked := block a x (blocked Q)\<rparr>) a"
    by (simp add: asl_full_def block_active)
  ultimately show ?case using can_block_other [OF Q(4) 4(4)] unfolding can_wait_def by blast
next
  case (5 s xs)
  then show ?case using headBlocked_repr by (auto simp: sem_rep_def)
qed

section \<open>Initialisation\<close>

lemma initSemd_table:
  "semd_table (initSemd s) i =
     (if i < 20 then \<lparr>s_next = (if i < 19 then Some (Suc i) else None),
        s_prev = (if i = 0 then None else Some (i - 1)), s_semAdd = ENULL_addr, s_link = null_link\<rparr>
      else semd_table s i)"
proof -
  have A: "fold (\<lambda>i t. t(i := init_semd (t i))) [0..<20] T
      = (\<lambda>i. if i < 20 then init_semd (T i) else T i)" for T :: "nat \<Rightarrow> semd_t"
    using fold_upd_map [of "[0..<20]" "\<lambda>i. init_semd" T] by (simp del: upt_rec_numeral)
  have B: "fold (\<lambda>i t. t(i := (t i)\<lparr>s_next := Some (i + 1), s_prev := Some (i - 1)\<rparr>)) [1..<19] T
      = (\<lambda>i. if 0 < i \<and> i < 19 then (T i)\<lparr>s_next := Some (i + 1), s_prev := Some (i - 1)\<rparr> else T i)"
    for T :: "nat \<Rightarrow> semd_t"
    using fold_upd_map [of "[1..<19]" "\<lambda>i e. e\<lparr>s_next := Some (i + 1), s_prev := Some (i - 1)\<rparr>" T]
    by (auto simp: fun_eq_iff Suc_le_eq simp del: upt_rec_numeral)
  have C: "(20::nat) - 1 = 19" by simp
  show ?thesis
    unfolding initSemd_def const_defs Let_def A C B
    by (auto simp: init_semd_def)
qed

lemma seg_upt:
  assumes "\<And>k. k < n \<Longrightarrow> f k = (if Suc k < n then Some (Suc k) else None)"
  shows "seg f [j..<n] None"
proof (cases "j \<le> n")
  case True
  then show ?thesis
  proof (induction rule: inc_induct)
    case (step k)
    then have "[k..<n] = k # [Suc k..<n]" by (simp add: upt_conv_Cons)
    moreover have "first_of [Suc k..<n] = Some (Suc k)" if "Suc k < n" using that by (simp add: upt_conv_Cons)
    ultimately show ?case using step assms [of k] by (simp add: seg_Cons)
  qed simp
qed simp

definition empty_queues :: aqueues where
  "empty_queues = \<lparr>ready = [], blocked = [], unused = [0..<20]\<rparr>"

lemma init_repr:
  assumes "running_queue s = null_link"
  shows "repr (initSemd (initProc s)) empty_queues"
proof -
  let ?u = "initProc s" and ?t = "initSemd (initProc s)"
  let ?g = "\<lparr>g_rq = [], g_asl = [], g_sfree = [0..<20], g_free = [0..<20]\<rparr>"
  have pt: "proc_table ?t = proc_table ?u" "free_head ?t = free_head ?u" "running_queue ?t = null_link"
    "cur_sem ?t = None" "free_head_s ?t = Some 0"
    using assms by (simp_all add: initSemd_def initProc_def Let_def del: upt_rec_numeral)
  have l: "lnk ?t = lnk ?u" "qc ?t = qc ?u" "sv ?t = sv ?u" by (auto simp: fun_eq_iff lnk_def qc_def sv_def pt)
  have fl: "freelist ?t [0..<20]"
    using initProc_freelist [of s] by (rule freelist_lnk_cong) (simp_all add: pt l)
  have "links_ok ?t (set [0..<20]) {}"
    unfolding links_ok_def l
    by (auto simp: lnk_def qc_def initProc_table set_link0_def init_entry_fields
        simp del: upt_rec_numeral)
  moreover have "semvec_ok ?t []"
    unfolding semvec_ok_def l
    by (auto simp: sv_def initProc_table set_link0_def init_entry_fields blocked_on_def card_eq_0_iff
        simp del: upt_rec_numeral)
  moreover have "asl_ok ?t [] [0..<20]"
  proof -
    have "seg (nx ?t) [0..<20] None"
      by (rule seg_upt) (auto simp: nx_def initSemd_table simp del: semd_fold)
    moreover have "pv ?t 0 = None" "\<forall>d < 20. sl ?t d = null_link"
      by (simp_all add: pv_def sl_def initSemd_table del: semd_fold)
    ultimately show ?thesis
      using pt first_of_hd [of "[0..<20::nat]"]
      by (auto simp: asl_ok_def asl_struct_def list_all_iff hd_upt simp del: upt_rec_numeral)
  qed
  ultimately have "wf ?t ?g" using fl pt by (simp add: wf_def wf0_def all_slots_def base_ok_def pring_def)
  moreover have "abs_q ?g = empty_queues" by (simp add: abs_q_def empty_queues_def)
  ultimately show ?thesis by (auto simp: repr_def)
qed

end
