(* ===== verification/Scheduler.thy ===== *)
theory Scheduler
  imports Entries
begin

text \<open>
  CPU accounting (\<open>start_time\<close>, \<open>get_interval\<close> of \<open>src/nucleus/traps/trap.c\<close>), the
  interval timer and the end of all work (\<open>intschedule\<close>, \<open>sleep\<close>, \<open>printer\<close>,
  \<open>intdeadlock\<close> of \<open>src/nucleus/interrupts/int.c\<close>) and the dispatcher \<open>schedule\<close> of
  \<open>src/nucleus/traps/main.c\<close>. The dispatcher never returns: it loads the state of the
  process at the head of the ready queue, sleeps, or halts.
\<close>

section \<open>Operations\<close>

text \<open>\<open>STCK\<close> stores the next reading of the time-of-day register.\<close>

definition STCK :: "kstate \<Rightarrow> int32 \<times> kstate" where
  "STCK s = (clock_at s (clock_reads s), s\<lparr>clock_reads := Suc (clock_reads s)\<rparr>)"

definition start_time :: "procptr \<Rightarrow> kstate \<Rightarrow> kstate kres" where
  "start_time p s = (let (now, s) = STCK s in wr_proc s p (\<lambda>e. e\<lparr>start_t := now\<rparr>))"

definition get_interval :: "procptr \<Rightarrow> kstate \<Rightarrow> kstate kres" where
  "get_interval p s =
     (let (cur_time, s) = STCK s in
      wr_proc s p (\<lambda>e. e\<lparr>cpu_time := cpu_time e + (cur_time - start_t e)\<rparr>))"

definition quantum :: int32 where "quantum = 5000"
definition clock_interrupt_time :: int32 where "clock_interrupt_time = 100000"

definition intschedule :: "kstate \<Rightarrow> kstate" where
  "intschedule s = s\<lparr>interval_timer := quantum\<rparr>"

definition sleep :: "kstate \<Rightarrow> kstate kres" where
  "sleep s = Exit (SLEEP s)"

definition HALT :: "kstate \<Rightarrow> kstate kres" where
  "HALT s = Exit (HALTED s)"

text \<open>The address of \<open>dev_sem[i]\<close>; an \<open>int\<close> takes four bytes.\<close>

definition dev_sem :: "kstate \<Rightarrow> nat \<Rightarrow> addr" where
  "dev_sem s i = dev_sem_at s + 4 * of_nat i"

definition print_msg :: "int32 \<Rightarrow> string" where
  "print_msg status = (if status = 0 then ''nucleus: normal termination''
     else ''nucleus: deadlock termination'')"

definition printer :: "int32 \<Rightarrow> kstate \<Rightarrow> kstate kres" where
  "printer status s =
     (let a = print_msg status;
          r = (devreg s 5)\<lparr>d_stat := - 1, d_badd := print_buf_at s, d_dadd := of_nat (length a),
                           d_op := IOWRITE\<rparr>;
          s = s\<lparr>print_buf := a, devreg := (devreg s)(5 := r)\<rparr>
      in case print_polls s of
           None \<Rightarrow> Exit HANG
         | Some n \<Rightarrow> Ok (s\<lparr>devreg := (devreg s)(5 := r\<lparr>d_stat := NORMAL\<rparr>)\<rparr>))"

fun dev_block_loop :: "nat list \<Rightarrow> bool \<Rightarrow> kstate \<Rightarrow> bool kres" where
  "dev_block_loop [] dev_block s = Ok dev_block"
| "dev_block_loop (i # is) dev_block s =
     rbind (headBlocked (dev_sem s i) s) (\<lambda>h. dev_block_loop is (if h \<noteq> None then True else dev_block) s)"

definition intdeadlock :: "kstate \<Rightarrow> kstate kres" where
  "intdeadlock s =
     rbind (dev_block_loop [0..<15] False s) (\<lambda>dev_block.
     rbind (headBlocked (clock_lock_at s) s) (\<lambda>h.
     if h \<noteq> None then sleep (intschedule s)
     else if dev_block then sleep s
     else if \<not> headASL s then rbind (printer 0 s) HALT
     else rbind (printer 1 s) HALT))"

definition schedule :: "kstate \<Rightarrow> kstate kres" where
  "schedule s =
     rbind (headQueue (running_queue s) s) (\<lambda>cur.
     if cur = None then intdeadlock s
     else
       let s = intschedule s in
       rbind (headQueue (running_queue s) s) (\<lambda>cur.
       rbind (start_time cur s) (\<lambda>s.
       rbind (rd_proc s cur) (\<lambda>e. Exit (LDST (p_s e) s)))))"

section \<open>States that agree on the queue structures\<close>

text \<open>
  Most of what the nucleus does besides queueing leaves the fields the queue modules
  own alone. \<open>same_queues s t\<close> says so, and \<open>repr\<close> only depends on those fields.
\<close>

definition same_queues :: "kstate \<Rightarrow> kstate \<Rightarrow> bool" where
  "same_queues s t \<longleftrightarrow> (\<forall>p. p_link (proc_table s p) = p_link (proc_table t p)
       \<and> qcount (proc_table s p) = qcount (proc_table t p) \<and> semvec (proc_table s p) = semvec (proc_table t p))
     \<and> free_head s = free_head t \<and> semd_table s = semd_table t \<and> cur_sem s = cur_sem t
     \<and> free_head_s s = free_head_s t \<and> running_queue s = running_queue t"

lemma same_queues_refl [simp]: "same_queues s s"
  by (simp add: same_queues_def)

lemma same_queues_trans: "same_queues s t \<Longrightarrow> same_queues t u \<Longrightarrow> same_queues s u"
  by (simp add: same_queues_def)

lemma wf_same_queues:
  assumes "same_queues s t"
  shows "wf t g = wf s g"
proof -
  have l: "lnk t = lnk s" "qc t = qc s" "sv t = sv s" "nx t = nx s" "pv t = pv s" "sa t = sa s" "sl t = sl s"
    using assms by (auto simp: same_queues_def fun_eq_iff lnk_def qc_def sv_def nx_def pv_def sa_def sl_def
        simp del: semd_fold)
  have f: "fl_next t = fl_next s" using assms by (auto simp: same_queues_def fl_next_def fun_eq_iff)
  show ?thesis
    using assms
    by (simp add: same_queues_def wf_def wf0_def asl_ok_def asl_struct_def entry_ok_def [abs_def] base_ok_def
        freelist_def links_ok_def semvec_ok_def l f pring_lnk_eq [OF l(1)])
qed

lemma repr_same_queues: "same_queues s t \<Longrightarrow> repr t Q = repr s Q"
  by (simp add: repr_def wf_same_queues)

lemma same_queues_fields [simp, hoca_frame]:
  "same_queues s (s\<lparr>clock_reads := n\<rparr>)" "same_queues s (s\<lparr>interval_timer := v\<rparr>)"
  "same_queues s (s\<lparr>heap_int := hi\<rparr>)" "same_queues s (s\<lparr>heap_state := hs\<rparr>)"
  "same_queues s (s\<lparr>devreg := dr\<rparr>)" "same_queues s (s\<lparr>save_arr := sv'\<rparr>)"
  "same_queues s (s\<lparr>clock_count := cc\<rparr>)" "same_queues s (s\<lparr>print_buf := b\<rparr>)"
  by (simp_all add: same_queues_def)

definition upd_proc :: "nat \<Rightarrow> (proc_t \<Rightarrow> proc_t) \<Rightarrow> kstate \<Rightarrow> kstate" where
  "upd_proc p f s = s\<lparr>proc_table := (proc_table s)(p := f (proc_table s p))\<rparr>"

lemma wr_proc_upd: "p < 20 \<Longrightarrow> wr_proc s (Some p) f = Ok (upd_proc p f s)"
  by (simp add: wr_proc_Some upd_proc_def)

lemma upd_proc_simps [simp]:
  "proc_table (upd_proc p f s) = (proc_table s)(p := f (proc_table s p))"
  "heap_int (upd_proc p f s) = heap_int s" "heap_state (upd_proc p f s) = heap_state s"
  "heap_vpop (upd_proc p f s) = heap_vpop s" "clock_at (upd_proc p f s) = clock_at s"
  "clock_reads (upd_proc p f s) = clock_reads s" "interval_timer (upd_proc p f s) = interval_timer s"
  "devreg (upd_proc p f s) = devreg s" "save_arr (upd_proc p f s) = save_arr s"
  "clock_count (upd_proc p f s) = clock_count s" "clock_lock_at (upd_proc p f s) = clock_lock_at s"
  "dev_sem_at (upd_proc p f s) = dev_sem_at s" "running_queue (upd_proc p f s) = running_queue s"
  "dev_sem (upd_proc p f s) = dev_sem s" "print_polls (upd_proc p f s) = print_polls s"
  by (simp_all add: upd_proc_def dev_sem_def [abs_def])

text \<open>An update of an entry that leaves the three queue fields alone.\<close>

definition keeps_queue :: "(proc_t \<Rightarrow> proc_t) \<Rightarrow> bool" where
  "keeps_queue f \<longleftrightarrow> (\<forall>e. p_link (f e) = p_link e \<and> qcount (f e) = qcount e \<and> semvec (f e) = semvec e)"

lemma keeps_queue_simps [simp]:
  "keeps_queue (\<lambda>e. e\<lparr>p_s := x\<rparr>)" "keeps_queue (\<lambda>e. e\<lparr>start_t := t\<rparr>)"
  "keeps_queue (\<lambda>e. e\<lparr>cpu_time := g e\<rparr>)" "keeps_queue (\<lambda>e. e\<lparr>p_s := set_reg i v (p_s e)\<rparr>)"
  "keeps_queue (\<lambda>e. e\<lparr>parent := q\<rparr>)" "keeps_queue (\<lambda>e. e\<lparr>child := q\<rparr>)" "keeps_queue (\<lambda>e. e\<lparr>brother := q\<rparr>)"
  "keeps_queue (\<lambda>e. e\<lparr>prog_old := a, prog_new := b\<rparr>)"
  "keeps_queue (\<lambda>e. e\<lparr>memory_management_old := a, memory_management_new := b\<rparr>)"
  "keeps_queue (\<lambda>e. e\<lparr>system_call_old := a, system_call_new := b\<rparr>)"
  by (simp_all add: keeps_queue_def)

lemma same_queues_upd_proc [simp]: "keeps_queue f \<Longrightarrow> same_queues s (upd_proc p f s)"
  by (auto simp: same_queues_def keeps_queue_def upd_proc_def)

text \<open>Updates commute with \<open>core\<close>, so equal cores stay equal under the same update.\<close>

definition reset :: "proc_t \<Rightarrow> proc_t" where
  "reset e = e\<lparr>p_link := (\<lambda>_. null_link), qcount := 0, semvec := (\<lambda>_. ENULL_addr)\<rparr>"

definition stable :: "(proc_t \<Rightarrow> proc_t) \<Rightarrow> bool" where
  "stable f \<longleftrightarrow> (\<forall>e. reset (f e) = reset (f (reset e)))"

lemma stable_simps [simp]:
  "stable (\<lambda>e. e\<lparr>p_s := x\<rparr>)" "stable (\<lambda>e. e\<lparr>start_t := t\<rparr>)"
  "stable (\<lambda>e. e\<lparr>cpu_time := cpu_time e + (t - start_t e)\<rparr>)" "stable (\<lambda>e. e\<lparr>p_s := h (p_s e)\<rparr>)"
  "stable (\<lambda>e. e\<lparr>parent := q\<rparr>)" "stable (\<lambda>e. e\<lparr>child := q\<rparr>)" "stable (\<lambda>e. e\<lparr>brother := q\<rparr>)"
  "stable (\<lambda>e. e\<lparr>prog_old := a, prog_new := b\<rparr>)"
  "stable (\<lambda>e. e\<lparr>memory_management_old := a, memory_management_new := b\<rparr>)"
  "stable (\<lambda>e. e\<lparr>system_call_old := a, system_call_new := b\<rparr>)"
  by (simp_all add: stable_def reset_def)

lemma core_upd_proc:
  assumes "stable f"
  shows "core (upd_proc p f s)
    = (core s)\<lparr>proc_table := (proc_table (core s))(p := reset (f (proc_table (core s) p)))\<rparr>"
proof -
  have "reset (f e) = reset (f (reset e))" for e using assms by (simp add: stable_def)
  then show ?thesis
    by (simp add: core_def upd_proc_def reset_def [symmetric] fun_eq_iff init_semd_def)
qed

lemma core_fields:
  "core (s\<lparr>clock_reads := n\<rparr>) = (core s)\<lparr>clock_reads := n\<rparr>"
  "core (s\<lparr>interval_timer := v\<rparr>) = (core s)\<lparr>interval_timer := v\<rparr>"
  "core (s\<lparr>heap_int := hi\<rparr>) = (core s)\<lparr>heap_int := hi\<rparr>"
  "core (s\<lparr>heap_state := hs\<rparr>) = (core s)\<lparr>heap_state := hs\<rparr>"
  "core (s\<lparr>clock_count := cc\<rparr>) = (core s)\<lparr>clock_count := cc\<rparr>"
  "core (s\<lparr>save_arr := sa'\<rparr>) = (core s)\<lparr>save_arr := sa'\<rparr>"
  by (simp_all add: core_def)

lemma repr_fields [simp]:
  "repr (s\<lparr>clock_reads := n\<rparr>) Q = repr s Q" "repr (s\<lparr>interval_timer := v\<rparr>) Q = repr s Q"
  "repr (s\<lparr>heap_state := hs\<rparr>) Q = repr s Q"
  "repr (s\<lparr>devreg := dr\<rparr>) Q = repr s Q" "repr (s\<lparr>save_arr := sv'\<rparr>) Q = repr s Q"
  "repr (s\<lparr>clock_count := cc\<rparr>) Q = repr s Q" "repr (s\<lparr>print_buf := b\<rparr>) Q = repr s Q"
  "keeps_queue f \<Longrightarrow> repr (upd_proc p f s) Q = repr s Q"
  by (auto intro!: repr_same_queues)

text \<open>States with the same family pointers, in the same surroundings: where the nucleus keeps its
  semaphores and how the printer answers does not change as the system runs.\<close>

definition same_env :: "kstate \<Rightarrow> kstate \<Rightarrow> bool" where
  "same_env s t \<longleftrightarrow> clock_lock_at t = clock_lock_at s \<and> dev_sem_at t = dev_sem_at s
     \<and> print_polls t = print_polls s"

definition same_family :: "kstate \<Rightarrow> kstate \<Rightarrow> bool" where
  "same_family s t \<longleftrightarrow> (\<forall>p. parent (proc_table t p) = parent (proc_table s p)
     \<and> child (proc_table t p) = child (proc_table s p) \<and> brother (proc_table t p) = brother (proc_table s p))"

lemma same_env_refl [simp]: "same_env s s"
  by (simp add: same_env_def)

lemma same_family_refl [simp]: "same_family s s"
  by (simp add: same_family_def)

lemma same_env_trans: "same_env s t \<Longrightarrow> same_env t u \<Longrightarrow> same_env s u"
  by (simp add: same_env_def)

lemma same_family_trans: "same_family s t \<Longrightarrow> same_family t u \<Longrightarrow> same_family s u"
  by (simp add: same_family_def)

lemma core_same:
  assumes "core t = core s"
  shows "same_env s t" "same_family s t"
  using core_eqD [OF assms] core_proc_eqD [OF assms] by (simp_all add: same_env_def same_family_def)

section \<open>The dispatcher\<close>

lemma repr_ready_lt: "repr s Q \<Longrightarrow> p \<in> set (ready Q) \<Longrightarrow> p < 20"
  using repr_aq_ok [of s Q] by (auto simp: aq_ok_def)

lemma start_time_upd:
  "p < 20 \<Longrightarrow> start_time (Some p) s
    = Ok (upd_proc p (\<lambda>e. e\<lparr>start_t := clock_at s (clock_reads s)\<rparr>) (s\<lparr>clock_reads := Suc (clock_reads s)\<rparr>))"
  by (simp add: start_time_def STCK_def wr_proc_upd)

lemma get_interval_upd:
  "p < 20 \<Longrightarrow> get_interval (Some p) s
    = Ok (upd_proc p (\<lambda>e. e\<lparr>cpu_time := cpu_time e + (clock_at s (clock_reads s) - start_t e)\<rparr>)
        (s\<lparr>clock_reads := Suc (clock_reads s)\<rparr>))"
  by (simp add: get_interval_def STCK_def wr_proc_upd)

text \<open>The state the dispatcher leaves when it starts process \<open>p\<close>.\<close>

definition dispatched :: "nat \<Rightarrow> kstate \<Rightarrow> kstate" where
  "dispatched p s = upd_proc p (\<lambda>e. e\<lparr>start_t := clock_at s (clock_reads s)\<rparr>)
     (s\<lparr>interval_timer := quantum, clock_reads := Suc (clock_reads s)\<rparr>)"

lemma schedule_ready:
  assumes r: "repr s Q" and ne: "ready Q = p # ps"
  shows "schedule s = Exit (LDST (p_s (proc_table s p)) (dispatched p s))" "repr (dispatched p s) Q"
proof -
  have p: "p < 20" using repr_ready_lt [OF r, of p] ne by simp
  let ?s = "intschedule s"
  have r': "repr ?s Q" using r by (simp add: intschedule_def)
  show "schedule s = Exit (LDST (p_s (proc_table s p)) (dispatched p s))"
    using headQueue_ready [OF r] headQueue_ready [OF r'] p ne
    by (simp add: schedule_def Let_def start_time_upd dispatched_def intschedule_def)
  show "repr (dispatched p s) Q" using r by (simp add: dispatched_def)
qed

text \<open>With an empty ready queue the four ends of \<open>intdeadlock\<close>.\<close>

definition dev_waits :: "kstate \<Rightarrow> aqueues \<Rightarrow> bool" where
  "dev_waits s Q \<longleftrightarrow> (\<exists>i < 15. wait_of (blocked Q) (dev_sem s i) \<noteq> [])"

definition clock_waits :: "kstate \<Rightarrow> aqueues \<Rightarrow> bool" where
  "clock_waits s Q \<longleftrightarrow> wait_of (blocked Q) (clock_lock_at s) \<noteq> []"

definition printed :: "int32 \<Rightarrow> kstate \<Rightarrow> kstate" where
  "printed status s = s\<lparr>print_buf := print_msg status,
     devreg := (devreg s)(5 := (devreg s 5)\<lparr>d_badd := print_buf_at s,
       d_dadd := of_nat (length (print_msg status)), d_op := IOWRITE, d_stat := NORMAL\<rparr>)\<rparr>"

lemma printer_done: "printer status s = (if print_polls s = None then Exit HANG else Ok (printed status s))"
  by (auto simp: printer_def printed_def Let_def split: option.splits)

lemma dev_block_loop_repr:
  assumes "repr s Q"
  shows "dev_block_loop is b s = Ok (b \<or> (\<exists>i \<in> set is. wait_of (blocked Q) (dev_sem s i) \<noteq> []))"
proof (induction "is" arbitrary: b)
  case (Cons i "is")
  then show ?case using headBlocked_repr [OF assms, of "dev_sem s i"] by auto
qed simp

lemma repr_headASL: "repr s Q \<Longrightarrow> headASL s \<longleftrightarrow> blocked Q \<noteq> []"
  by (auto simp: repr_def headASL_def wf_def wf0_def asl_ok_def asl_struct_def)

lemma intdeadlock_cases:
  assumes r: "repr s Q"
  shows "intdeadlock s =
    (if clock_waits s Q then Exit (SLEEP (intschedule s))
     else if dev_waits s Q then Exit (SLEEP s)
     else if print_polls s = None then Exit HANG
     else Exit (HALTED (printed (if blocked Q = [] then 0 else 1) s)))"
proof -
  have "(\<exists>i \<in> set [0..<15]. wait_of (blocked Q) (dev_sem s i) \<noteq> []) = dev_waits s Q"
    by (auto simp: dev_waits_def simp del: upt_rec_numeral)
  then show ?thesis
    using dev_block_loop_repr [OF r, of "[0..<15]" False] headBlocked_repr [OF r, of "clock_lock_at s"]
      repr_headASL [OF r]
    by (auto simp: intdeadlock_def clock_waits_def sleep_def HALT_def printer_done simp del: upt_rec_numeral)
qed

lemma schedule_idle:
  assumes r: "repr s Q" and ne: "ready Q = []"
  shows "schedule s = intdeadlock s"
  using headQueue_ready [OF r] ne by (simp add: schedule_def)

lemma schedule_never_returns: "repr s Q \<Longrightarrow> schedule s \<noteq> Ok s'"
  by (cases "ready Q") (auto simp: schedule_idle schedule_ready intdeadlock_cases)

end
