(* ===== verification/Interrupts.thy ===== *)
theory Interrupts
  imports Scheduler
begin

text \<open>
  The interrupt module, \<open>src/nucleus/interrupts/int.c\<close>: the semaphore operation the
  nucleus itself performs (\<open>intsemop\<close>), waiting for the pseudo-clock and for devices, and
  the five interrupt handlers. A handler ends by loading the interrupted state or in
  the dispatcher.
\<close>

section \<open>Operations\<close>

text \<open>Old areas of the interrupts; \<open>intinit\<close> stores these addresses once and for all.\<close>

definition old_terminal_state :: addr where "old_terminal_state = 0x9c8"
definition old_printer_state :: addr where "old_printer_state = 0xa60"
definition old_disk_state :: addr where "old_disk_state = 0xaf8"
definition old_floppy_state :: addr where "old_floppy_state = 0xb90"
definition old_clock_state :: addr where "old_clock_state = 0xc28"

abbreviation set_int :: "addr \<Rightarrow> int32 \<Rightarrow> kstate \<Rightarrow> kstate" where
  "set_int a v s \<equiv> s\<lparr>heap_int := (heap_int s)(a := v)\<rparr>"

abbreviation set_state :: "addr \<Rightarrow> state_t \<Rightarrow> kstate \<Rightarrow> kstate" where
  "set_state a v s \<equiv> s\<lparr>heap_state := (heap_state s)(a := v)\<rparr>"

text \<open>\<open>removeProc(&running_queue)\<close> and \<open>insertProc(&running_queue, p)\<close>.\<close>

definition rq_remove :: "kstate \<Rightarrow> (procptr \<times> kstate) kres" where
  "rq_remove s = rbind (removeProc (running_queue s) s) (\<lambda>(rv, tp, s). Ok (rv, s\<lparr>running_queue := tp\<rparr>))"

definition rq_insert :: "procptr \<Rightarrow> kstate \<Rightarrow> kstate kres" where
  "rq_insert p s = rbind (insertProc (running_queue s) p s) (\<lambda>(tp, s). Ok (s\<lparr>running_queue := tp\<rparr>))"

definition intsemop :: "addr \<Rightarrow> int32 \<Rightarrow> kstate \<Rightarrow> kstate kres" where
  "intsemop sem_value op s =
     (if op = LOCK then
        let s = set_int sem_value (heap_int s sem_value - 1) s in
        if sint (heap_int s sem_value) < 0 then
          rbind (rq_remove s) (\<lambda>(removed, s).
          rbind (if removed \<noteq> None
                 then rbind (insertBlocked sem_value removed s) (\<lambda>(full, s). Ok s) else Ok s) (\<lambda>s.
          schedule s))
        else Ok s
      else
        let v = heap_int s sem_value; s = set_int sem_value (v + 1) s in
        if sint v < 0 then
          rbind (removeBlocked sem_value s) (\<lambda>(removed, s).
          if removed \<noteq> None then
            rbind (rd_proc s removed) (\<lambda>e.
            if qcount e = 0 then rq_insert removed s else Ok s)
          else Ok s)
        else Ok s)"

definition waitforpclock :: "addr \<Rightarrow> kstate \<Rightarrow> kstate kres" where
  "waitforpclock old s =
     rbind (headQueue (running_queue s) s) (\<lambda>head.
     rbind (wr_proc s head (\<lambda>e. e\<lparr>p_s := heap_state s old\<rparr>)) (\<lambda>s.
     intsemop (clock_lock_at s) LOCK s))"

text \<open>
  The device number in D4 is used as an array index unchecked; an index outside
  \<open>dev_sem[15]\<close> and \<open>save_arr[15]\<close> is a fault of the model.
\<close>

definition waitforio :: "addr \<Rightarrow> kstate \<Rightarrow> kstate kres" where
  "waitforio old s =
     (let dev = unat (s_r (heap_state s old) 4) in
      if 15 \<le> dev then Exit FAULT
      else if heap_int s (dev_sem s dev) = 1 then
        let s = set_int (dev_sem s dev) (heap_int s (dev_sem s dev) - 1) s;
            s = set_state old (set_reg 2 (amnt (save_arr s dev)) (heap_state s old)) s
        in Ok (set_state old (set_reg 3 (stat (save_arr s dev)) (heap_state s old)) s)
      else
        rbind (headQueue (running_queue s) s) (\<lambda>head.
        rbind (wr_proc s head (\<lambda>e. e\<lparr>p_s := heap_state s old\<rparr>)) (\<lambda>s.
        intsemop (dev_sem s dev) LOCK s)))"

definition dev_pos :: "nat \<Rightarrow> nat \<Rightarrow> int" where
  "dev_pos type dev =
     (if type = TERMINAL then 0 + int dev
      else if type = PRINTER then 5 + int dev
      else if type = DISK then 7 + int dev
      else if type = FLOPPY then 11 + int dev
      else - 1)"

definition inthandler :: "nat \<Rightarrow> nat \<Rightarrow> kstate \<Rightarrow> kstate kres" where
  "inthandler type dev s =
     (let pos = dev_pos type dev in
      if pos < 0 \<or> 15 \<le> pos then Exit FAULT
      else
        let i = nat pos; a = dev_sem s i in
        if heap_int s a = - 1 then
          rbind (headBlocked a s) (\<lambda>block_dev.
          rbind (wr_proc s block_dev (\<lambda>e. e\<lparr>p_s := set_reg 2 (d_dadd (devreg s i)) (p_s e)\<rparr>)) (\<lambda>s.
          rbind (wr_proc s block_dev (\<lambda>e. e\<lparr>p_s := set_reg 3 (d_stat (devreg s i)) (p_s e)\<rparr>)) (\<lambda>s.
          intsemop a UNLOCK s)))
        else
          let s = set_int a (heap_int s a + 1) s in
          Ok (s\<lparr>save_arr := (save_arr s)(i := \<lparr>amnt = d_dadd (devreg s i), stat = d_stat (devreg s i)\<rparr>)\<rparr>))"

text \<open>The four device handlers have the same body, for their own type and old area.\<close>

definition dev_handler :: "nat \<Rightarrow> addr \<Rightarrow> kstate \<Rightarrow> kstate kres" where
  "dev_handler type old s =
     rbind (headQueue (running_queue s) s) (\<lambda>head.
     rbind (inthandler type (unat (in_dno (s_tmp (heap_state s old)))) s) (\<lambda>s.
     if head \<noteq> None then Exit (LDST (heap_state s old) s) else schedule s))"

definition intterminalhandler :: "kstate \<Rightarrow> kstate kres" where
  "intterminalhandler = dev_handler TERMINAL old_terminal_state"

definition intprinterhandler :: "kstate \<Rightarrow> kstate kres" where
  "intprinterhandler = dev_handler PRINTER old_printer_state"

definition intdiskhandler :: "kstate \<Rightarrow> kstate kres" where
  "intdiskhandler = dev_handler DISK old_disk_state"

definition intfloppyhandler :: "kstate \<Rightarrow> kstate kres" where
  "intfloppyhandler = dev_handler FLOPPY old_floppy_state"

definition intclockhandler :: "kstate \<Rightarrow> kstate kres" where
  "intclockhandler s =
     rbind (headQueue (running_queue s) s) (\<lambda>head.
     let s = s\<lparr>clock_count := clock_count s + quantum\<rparr> in
     rbind (if head \<noteq> None then
              rbind (rq_remove s) (\<lambda>(removed, s).
              rbind (get_interval removed s) (\<lambda>s.
              rbind (wr_proc s removed (\<lambda>e. e\<lparr>p_s := heap_state s old_clock_state\<rparr>)) (\<lambda>s.
              rq_insert removed s)))
            else Ok s) (\<lambda>s.
     rbind (if sint clock_interrupt_time \<le> sint (clock_count s) then
              let s = s\<lparr>clock_count := 0\<rparr> in
              rbind (headBlocked (clock_lock_at s) s) (\<lambda>h.
              if h \<noteq> None then intsemop (clock_lock_at s) UNLOCK s else Ok s)
            else Ok s) (\<lambda>s.
     schedule s)))"

text \<open>
  \<open>intinit\<close>: the addresses of the handlers come from the linker, \<open>entry_of\<close>; \<open>sp\<close> is
  the stack pointer of \<open>init_state\<close>.
\<close>

definition STATE_SIZE :: addr where "STATE_SIZE = 76"

definition init_new :: "addr \<Rightarrow> int32 \<Rightarrow> int32 \<Rightarrow> kstate \<Rightarrow> kstate" where
  "init_new old pc sp s =
     (let st = heap_state s (old + STATE_SIZE);
          st = set_reg 15 sp (set_reg 16 pc st)
      in set_state (old + STATE_SIZE) (st\<lparr>s_sr := (s_sr st)\<lparr>ps_s := 1, ps_m := 0, ps_int := 7\<rparr>\<rparr>) s)"

definition intinit :: "(string \<Rightarrow> int32) \<Rightarrow> int32 \<Rightarrow> kstate \<Rightarrow> kstate" where
  "intinit entry_of sp s =
     (let s = set_int (clock_lock_at s) 0 s;
          s = fold (\<lambda>i s. set_int (dev_sem s i) 0 s) [0..<15] s;
          s = init_new old_terminal_state (entry_of ''intterminalhandler'') sp s;
          s = init_new old_printer_state (entry_of ''intprinterhandler'') sp s;
          s = init_new old_disk_state (entry_of ''intdiskhandler'') sp s;
          s = init_new old_floppy_state (entry_of ''intfloppyhandler'') sp s
      in init_new old_clock_state (entry_of ''intclockhandler'') sp s)"

section \<open>Processes are never lost\<close>

text \<open>
  Between operations of the nucleus a process in use is either in the ready queue or
  blocked on some semaphore, and not both.
\<close>

definition live_ok :: "aqueues \<Rightarrow> bool" where
  "live_ok Q \<longleftrightarrow> (\<forall>p \<in> set (ready Q). sems_of Q p = {})
     \<and> (\<forall>p < 20. p \<notin> set (unused Q) \<longrightarrow> p \<in> set (ready Q) \<or> sems_of Q p \<noteq> {})"

text \<open>The value of a semaphore counts the processes waiting for it when it is negative.\<close>

definition sem_ok :: "kstate \<Rightarrow> aqueues \<Rightarrow> addr \<Rightarrow> bool" where
  "sem_ok s Q a \<longleftrightarrow>
     (if sint (heap_int s a) < 0 then int (length (wait_of (blocked Q) a)) = - sint (heap_int s a)
      else wait_of (blocked Q) a = [])"

lemma mem_concat_snd: "p \<in> set (concat (map snd B)) \<Longrightarrow> \<exists>a q. (a, q) \<in> set B \<and> p \<in> set q"
  by force

lemma occupied_0_distinct:
  assumes d: "distinct (map fst (blocked Q))"
  shows "occupied Q p = 0 \<longleftrightarrow> p \<notin> set (ready Q) \<and> sems_of Q p = {}"
proof -
  have "sems_of Q p = {} \<longleftrightarrow> p \<notin> set (concat (map snd (blocked Q)))"
  proof
    assume e: "sems_of Q p = {}"
    show "p \<notin> set (concat (map snd (blocked Q)))"
    proof
      assume "p \<in> set (concat (map snd (blocked Q)))"
      from mem_concat_snd [OF this] obtain a q where "(a, q) \<in> set (blocked Q)" "p \<in> set q" by blast
      then have "a \<in> sems_of Q p" using wait_of_mem [OF d] by (simp add: sems_of_def)
      with e show False by simp
    qed
  next
    have "\<exists>e \<in> set B. p \<in> set (snd e)" if "p \<in> set (wait_of B a)" for B a
      using that by (induction B) (auto split: if_splits)
    moreover assume "p \<notin> set (concat (map snd (blocked Q)))"
    ultimately show "sems_of Q p = {}" by (auto simp: sems_of_def)
  qed
  then show ?thesis unfolding occupied_def count_list_0_iff by simp
qed

lemma occupied_0: "aq_ok Q \<Longrightarrow> occupied Q p = 0 \<longleftrightarrow> p \<notin> set (ready Q) \<and> sems_of Q p = {}"
  by (simp add: aq_ok_def occupied_0_distinct)

lemma leave_distinct: "distinct (map fst B) \<Longrightarrow> distinct (map fst (leave P B))"
proof -
  have m: "map fst (map (\<lambda>(a, q). (a, filter (\<lambda>p. \<not> P a p) q)) B) = map fst B"
    by (auto intro!: map_cong)
  assume "distinct (map fst B)"
  then show ?thesis unfolding leave_def by (intro distinct_map_filter) (simp only: m)
qed

lemma occupied_ready:
  "occupied (Q\<lparr>ready := xs\<rparr>) p + count_list (ready Q) p = occupied Q p + count_list xs p"
  by (simp add: occupied_def)

lemma rq_remove_repr:
  assumes "repr s Q" "ready Q = p # ps"
  shows "\<exists>s'. rq_remove s = Ok (Some p, s') \<and> core s' = core s \<and> repr s' (Q\<lparr>ready := ps\<rparr>)"
  using removeProc_ready [OF assms] by (auto simp: rq_remove_def)

lemma rq_insert_repr:
  assumes "repr s Q" "can_ready Q p"
  shows "\<exists>s'. rq_insert (Some p) s = Ok s' \<and> core s' = core s \<and> repr s' (Q\<lparr>ready := ready Q @ [p]\<rparr>)"
  using insertProc_ready [OF assms] by (auto simp: rq_insert_def)

lemma qc_occupied: "repr s Q \<Longrightarrow> p < 20 \<Longrightarrow> qcount (proc_table s p) = int (occupied Q p)"
  by (auto simp: repr_def wf_def wf0_occupied(1) [symmetric] qc_def simp del: abs_q_simps)

text \<open>A ready process that waits nowhere can be taken off the ready queue and blocked.\<close>

lemma head_alone:
  assumes r: "repr s Q" and l: "live_ok Q" and ne: "ready Q = p # ps"
  shows "occupied (Q\<lparr>ready := ps\<rparr>) p = 0" "p \<notin> set (unused Q)" "p < 20" "p \<notin> set ps"
    "sems_of Q p = {}"
proof -
  have ok: "aq_ok Q" by (rule repr_aq_ok [OF r])
  show "sems_of Q p = {}" using l ne by (simp add: live_ok_def)
  have d: "p \<notin> set ps" "p < 20" using ok ne by (auto simp: aq_ok_def)
  then show "p < 20" "p \<notin> set ps" by simp_all
  have "\<not> (p \<notin> set (ready Q) \<and> sems_of Q p = {})" using ne by simp
  then have "occupied Q p \<noteq> 0" using occupied_0 [OF ok] by blast
  then show "p \<notin> set (unused Q)" using ok by (auto simp: aq_ok_def)
  obtain s' where "repr s' (Q\<lparr>ready := ps\<rparr>)" using rq_remove_repr [OF r ne] by blast
  from occupied_0 [OF repr_aq_ok [OF this]] d(1) \<open>sems_of Q p = {}\<close>
  show "occupied (Q\<lparr>ready := ps\<rparr>) p = 0" by (simp add: sems_of_def)
qed

section \<open>P and V by the nucleus\<close>

text \<open>The effect of a P that blocks the running process and of a V that wakes one.\<close>

definition block_head :: "addr \<Rightarrow> aqueues \<Rightarrow> aqueues" where
  "block_head a Q = (case ready Q of [] \<Rightarrow> Q
     | p # ps \<Rightarrow> Q\<lparr>ready := ps, blocked := block a p (blocked Q)\<rparr>)"

definition wake :: "addr \<Rightarrow> aqueues \<Rightarrow> aqueues" where
  "wake a Q = (case wait_of (blocked Q) a of [] \<Rightarrow> Q
     | p # ps \<Rightarrow>
         let Q = Q\<lparr>blocked := leave (\<lambda>b r. b = a \<and> r = p) (blocked Q)\<rparr>
         in if occupied Q p = 0 then Q\<lparr>ready := ready Q @ [p]\<rparr> else Q)"

lemma sems_of_block: "sems_of (Q\<lparr>blocked := block a p B\<rparr>) q
    = (if q = p then insert a {b. q \<in> set (wait_of B b)} else {b. q \<in> set (wait_of B b)})"
  by (auto simp: sems_of_def wait_of_block split: if_splits)

lemma sems_of_ready [simp]: "sems_of (Q\<lparr>ready := xs\<rparr>) p = sems_of Q p"
  by (simp add: sems_of_def)

lemma sems_of_unused [simp]: "sems_of (Q\<lparr>unused := xs\<rparr>) p = sems_of Q p"
  by (simp add: sems_of_def)

lemma live_ok_block_head:
  assumes "aq_ok Q" "live_ok Q"
  shows "live_ok (block_head a Q)"
proof (cases "ready Q")
  case (Cons p ps)
  have "p \<notin> set ps" using assms Cons by (auto simp: aq_ok_def)
  with assms Cons show ?thesis
    by (auto simp: live_ok_def block_head_def sems_of_def wait_of_block)
qed (use assms in \<open>simp add: block_head_def\<close>)

lemma intsemop_P_block:
  assumes r: "repr s Q" and l: "live_ok Q" and ne: "ready Q = p # ps" and a: "a \<noteq> ENULL_addr"
    and room: "\<not> asl_full Q a" and v: "sint (heap_int s a - 1) < 0"
  shows "\<exists>s1. intsemop a LOCK s = schedule s1 \<and> repr s1 (block_head a Q)
    \<and> core s1 = core (set_int a (heap_int s a - 1) s)"
proof -
  let ?s = "set_int a (heap_int s a - 1) s"
  have r0: "repr ?s Q" using r by simp
  from rq_remove_repr [OF r0 ne] obtain s1 where s1: "rq_remove ?s = Ok (Some p, s1)" "core s1 = core ?s"
    "repr s1 (Q\<lparr>ready := ps\<rparr>)" by blast
  note h = head_alone [OF r l ne]
  have "can_block (Q\<lparr>ready := ps\<rparr>) a p" using h a by (auto simp: can_block_def sems_of_def)
  moreover have "\<not> asl_full (Q\<lparr>ready := ps\<rparr>) a" using room by (simp add: asl_full_def)
  ultimately obtain s2 where s2: "insertBlocked a (Some p) s1 = Ok (False, s2)" "core s2 = core s1"
    "repr s2 (Q\<lparr>ready := ps, blocked := block a p (blocked Q)\<rparr>)"
    using insertBlocked_refines [OF s1(3)] by fastforce
  have "intsemop a LOCK s = schedule s2" using v s1(1) s2(1) by (simp add: intsemop_def Let_def)
  with s2 s1 show ?thesis by (auto simp: block_head_def ne)
qed

lemma intsemop_P_pass:
  "0 \<le> sint (heap_int s a - 1) \<Longrightarrow> intsemop a LOCK s = Ok (set_int a (heap_int s a - 1) s)"
  by (simp add: intsemop_def Let_def)

lemma intsemop_V_pass:
  "0 \<le> sint (heap_int s a) \<Longrightarrow> intsemop a UNLOCK s = Ok (set_int a (heap_int s a + 1) s)"
  by (simp add: intsemop_def Let_def)

lemma wait_lt:
  assumes "aq_ok Q" "p \<in> set (wait_of (blocked Q) a)"
  shows "p < 20" "p \<notin> set (unused Q)" "a \<noteq> ENULL_addr"
proof -
  have "\<exists>q. (a, q) \<in> set B \<and> p \<in> set q" if "p \<in> set (wait_of B a)" for B
    using that by (induction B) (auto split: if_splits)
  with assms(2) obtain q where q: "(a, q) \<in> set (blocked Q)" "p \<in> set q" by blast
  with assms(1) show "p < 20" "a \<noteq> ENULL_addr" by (auto simp: aq_ok_def)
  have "sems_of Q p \<noteq> {}" using assms(2) by (auto simp: sems_of_def)
  then have "occupied Q p \<noteq> 0" using occupied_0 [OF assms(1)] by blast
  then show "p \<notin> set (unused Q)" using assms(1) by (auto simp: aq_ok_def)
qed

text \<open>The code shared by every V: take the first waiting process off and make it ready
  when it waits nowhere else.\<close>

definition wake_step :: "addr \<Rightarrow> kstate \<Rightarrow> kstate kres" where
  "wake_step a s =
     rbind (removeBlocked a s) (\<lambda>(removed, s).
     if removed \<noteq> None then
       rbind (rd_proc s removed) (\<lambda>e. if qcount e = 0 then rq_insert removed s else Ok s)
     else Ok s)"

lemma wake_step_repr:
  assumes r: "repr s Q"
  shows "\<exists>s'. wake_step a s = Ok s' \<and> core s' = core s \<and> repr s' (wake a Q)"
proof (cases "wait_of (blocked Q) a")
  case Nil
  then show ?thesis using removeBlocked_none [OF r] r by (simp add: wake_step_def wake_def)
next
  case (Cons p ps)
  let ?Q = "Q\<lparr>blocked := leave (\<lambda>b r. b = a \<and> r = p) (blocked Q)\<rparr>"
  from removeBlocked_refines [OF r Cons] obtain s1 where s1: "removeBlocked a s = Ok (Some p, s1)"
    "core s1 = core s" "repr s1 ?Q" by blast
  have p: "p < 20" "p \<notin> set (unused Q)" using wait_lt [OF repr_aq_ok [OF r], of p a] Cons by auto
  have q: "qcount (proc_table s1 p) = int (occupied ?Q p)" by (rule qc_occupied [OF s1(3) p(1)])
  show ?thesis
  proof (cases "occupied ?Q p = 0")
    case True
    then have "can_ready ?Q p"
      using p occupied_0 [OF repr_aq_ok [OF s1(3)], of p] by (auto simp: can_ready_def)
    from rq_insert_repr [OF s1(3) this] s1 q p True Cons show ?thesis
      by (auto simp: wake_step_def wake_def Let_def)
  next
    case False
    with s1 q p Cons show ?thesis by (simp add: wake_step_def wake_def Let_def)
  qed
qed

lemma intsemop_V:
  assumes r: "repr s Q" and v: "sint (heap_int s a) < 0"
  shows "\<exists>s'. intsemop a UNLOCK s = Ok s' \<and> repr s' (wake a Q)
    \<and> core s' = core (set_int a (heap_int s a + 1) s)"
proof -
  have "repr (set_int a (heap_int s a + 1) s) Q" using r by simp
  from wake_step_repr [OF this, of a] v show ?thesis
    by (auto simp: intsemop_def wake_step_def Let_def)
qed

text \<open>The same for all processes outside a set, for use in the middle of a system call.\<close>

definition live_but :: "nat set \<Rightarrow> aqueues \<Rightarrow> bool" where
  "live_but X Q \<longleftrightarrow> (\<forall>p \<in> set (ready Q) - X. sems_of Q p = {})
     \<and> (\<forall>p < 20. p \<notin> X \<longrightarrow> p \<notin> set (unused Q) \<longrightarrow> p \<in> set (ready Q) \<or> sems_of Q p \<noteq> {})"

lemma live_ok_but: "live_ok Q = live_but {} Q"
  by (simp add: live_ok_def live_but_def)

lemma live_but_wake:
  assumes ok: "aq_ok Q" and l: "live_but X Q" and out: "set (wait_of (blocked Q) a) \<inter> X = {}"
  shows "live_but X (wake a Q)"
proof (cases "wait_of (blocked Q) a")
  case Nil
  then show ?thesis using l by (simp add: wake_def)
next
  case (Cons p ps)
  have d: "distinct (map fst (blocked Q))" using ok by (simp add: aq_ok_def)
  let ?Q = "Q\<lparr>blocked := leave (\<lambda>b r. b = a \<and> r = p) (blocked Q)\<rparr>"
  have s: "sems_of ?Q q = sems_of Q q - (if q = p then {a} else {})" for q
    by (auto simp: sems_of_def wait_of_leave [OF d] split: if_splits)
  have "a \<in> sems_of Q p" using Cons by (simp add: sems_of_def)
  then have np: "p \<notin> set (ready Q)" using l out Cons by (auto simp: live_but_def)
  have occ: "occupied ?Q p = 0 \<longleftrightarrow> sems_of ?Q p = {}"
    using occupied_0_distinct [of ?Q p] leave_distinct [OF d] np by simp
  from l np s occ Cons show ?thesis
    by (auto simp: wake_def Let_def live_but_def)
qed

lemma live_ok_wake: "aq_ok Q \<Longrightarrow> live_ok Q \<Longrightarrow> live_ok (wake a Q)"
  by (simp add: live_ok_but live_but_wake)

section \<open>Semaphore values count waiting processes\<close>

lemma wait_of_wake:
  assumes "aq_ok Q"
  shows "wait_of (blocked (wake a Q)) b = (if b = a then tl (wait_of (blocked Q) a) else wait_of (blocked Q) b)"
proof (cases "wait_of (blocked Q) a")
  case Nil
  then show ?thesis by (simp add: wake_def)
next
  case (Cons p ps)
  have d: "distinct (map fst (blocked Q))" using assms by (simp add: aq_ok_def)
  have "wait_of (blocked Q) a \<noteq> []" using Cons by simp
  then have "a \<in> fst ` set (blocked Q)" using wait_of_miss by blast
  then have "(a, wait_of (blocked Q) a) \<in> set (blocked Q)" using wait_of_mem [OF d] by fastforce
  then have "distinct (p # ps)" using assms Cons by (auto simp: aq_ok_def)
  then have "filter (\<lambda>r. r \<noteq> p) (p # ps) = ps" using filter_mid [of "[]" p ps] by simp
  then show ?thesis
    using Cons by (auto simp: wake_def Let_def wait_of_leave [OF d])
qed

lemma wait_of_block_head:
  "wait_of (blocked (block_head a Q)) b
    = (if ready Q \<noteq> [] \<and> b = a then wait_of (blocked Q) a @ [hd (ready Q)] else wait_of (blocked Q) b)"
  by (cases "ready Q") (auto simp: block_head_def wait_of_block)

lemma sem_ok_block_head:
  assumes ok: "sem_ok s Q b" and ne: "ready Q \<noteq> []" and v: "sint (heap_int s a - 1) < 0"
    and t: "heap_int t = (heap_int s)(a := heap_int s a - 1)"
  shows "sem_ok t (block_head a Q) b"
  using ok ne sint_dec_neg [OF v] v
  by (auto simp: sem_ok_def wait_of_block_head t split: if_splits)

lemma sem_ok_wake:
  assumes ok: "sem_ok s Q b" and q: "aq_ok Q" and v: "sint (heap_int s a) < 0"
    and t: "heap_int t = (heap_int s)(a := heap_int s a + 1)"
  shows "sem_ok t (wake a Q) b"
proof (cases "b = a")
  case True
  have i: "sint (heap_int s a + 1) = sint (heap_int s a) + 1" using v by (intro sint_inc32) simp
  have n: "int (length (wait_of (blocked Q) a)) = - sint (heap_int s a)" using ok True v by (simp add: sem_ok_def)
  moreover have "tl (wait_of (blocked Q) a) = []" if "sint (heap_int s a) + 1 = 0"
  proof -
    have "length (wait_of (blocked Q) a) = 1" using n that by linarith
    then show ?thesis by (cases "wait_of (blocked Q) a") auto
  qed
  ultimately show ?thesis using True v i
    by (auto simp: sem_ok_def t wait_of_wake [OF q] of_nat_diff)
next
  case False
  then show ?thesis using ok by (simp add: sem_ok_def t wait_of_wake [OF q])
qed

lemma sem_ok_pass:
  assumes "sem_ok s Q b" "0 \<le> sint (heap_int s a - 1)" "0 \<le> sint (heap_int s a)"
    and "heap_int t = (heap_int s)(a := heap_int s a - 1)"
  shows "sem_ok t Q b"
  using assms by (auto simp: sem_ok_def split: if_splits)

section \<open>Waiting for the pseudo-clock and for devices\<close>

lemma set_ps_repr [simp]: "repr (upd_proc p (\<lambda>e. e\<lparr>p_s := x\<rparr>) s) Q = repr s Q"
  by simp

lemma wait_blocks:
  assumes r: "repr s Q" and l: "live_ok Q" and ne: "ready Q = p # ps" and a: "a \<noteq> ENULL_addr"
    and room: "\<not> asl_full Q a" and v: "sint (heap_int s a - 1) < 0"
  shows "\<exists>s1. rbind (headQueue (running_queue s) s) (\<lambda>head.
      rbind (wr_proc s head (\<lambda>e. e\<lparr>p_s := st\<rparr>)) (\<lambda>s. intsemop a LOCK s)) = schedule s1
    \<and> repr s1 (block_head a Q)
    \<and> core s1 = core (set_int a (heap_int s a - 1) (upd_proc p (\<lambda>e. e\<lparr>p_s := st\<rparr>) s))"
proof -
  let ?s = "upd_proc p (\<lambda>e. e\<lparr>p_s := st\<rparr>) s"
  have p: "p < 20" using repr_ready_lt [OF r, of p] ne by simp
  have "repr ?s Q" using r by simp
  from intsemop_P_block [OF this l ne a room] v headQueue_ready [OF r] ne p show ?thesis
    by (simp add: wr_proc_upd)
qed

lemma waitforpclock_blocks:
  assumes "repr s Q" "live_ok Q" "ready Q = p # ps" "clock_lock_at s \<noteq> ENULL_addr"
    "\<not> asl_full Q (clock_lock_at s)" "sint (heap_int s (clock_lock_at s) - 1) < 0"
  shows "\<exists>s1. waitforpclock old s = schedule s1 \<and> repr s1 (block_head (clock_lock_at s) Q)
    \<and> core s1 = core (set_int (clock_lock_at s) (heap_int s (clock_lock_at s) - 1)
        (upd_proc p (\<lambda>e. e\<lparr>p_s := heap_state s old\<rparr>) s))"
proof -
  have p: "p < 20" using repr_ready_lt [OF assms(1), of p] assms(3) by simp
  have "waitforpclock old s = rbind (headQueue (running_queue s) s) (\<lambda>head.
      rbind (wr_proc s head (\<lambda>e. e\<lparr>p_s := heap_state s old\<rparr>)) (\<lambda>u. intsemop (clock_lock_at s) LOCK u))"
    using headQueue_ready [OF assms(1)] assms(3) p by (simp add: waitforpclock_def wr_proc_upd)
  with wait_blocks [OF assms, of "heap_state s old"] show ?thesis by simp
qed

lemma waitforio_blocks:
  assumes d: "s_r (heap_state s old) 4 = of_nat dev" "dev < 15" and n1: "heap_int s (dev_sem s dev) \<noteq> 1"
    and "repr s Q" "live_ok Q" "ready Q = p # ps" "dev_sem s dev \<noteq> ENULL_addr"
    "\<not> asl_full Q (dev_sem s dev)" "sint (heap_int s (dev_sem s dev) - 1) < 0"
  shows "\<exists>s1. waitforio old s = schedule s1 \<and> repr s1 (block_head (dev_sem s dev) Q)
    \<and> core s1 = core (set_int (dev_sem s dev) (heap_int s (dev_sem s dev) - 1)
        (upd_proc p (\<lambda>e. e\<lparr>p_s := heap_state s old\<rparr>) s))"
proof -
  have p: "p < 20" using repr_ready_lt [OF assms(4), of p] assms(6) by simp
  have u: "unat (of_nat dev :: int32) = dev" using d(2) by (simp add: unat_of_nat take_bit_nat_eq_self)
  have "waitforio old s = rbind (headQueue (running_queue s) s) (\<lambda>head.
      rbind (wr_proc s head (\<lambda>e. e\<lparr>p_s := heap_state s old\<rparr>)) (\<lambda>t. intsemop (dev_sem s dev) LOCK t))"
    using headQueue_ready [OF assms(4)] assms(6) p d u n1
    by (simp add: waitforio_def wr_proc_upd)
  with wait_blocks [OF assms(4-9), of "heap_state s old"] show ?thesis by simp
qed

text \<open>An interrupt that came first is picked up without waiting.\<close>

lemma waitforio_saved:
  assumes d: "s_r (heap_state s old) 4 = of_nat dev" "dev < 15" and one: "heap_int s (dev_sem s dev) = 1"
  shows "waitforio old s = Ok (set_state old (set_reg 3 (stat (save_arr s dev))
      (set_reg 2 (amnt (save_arr s dev)) (heap_state s old))) (set_int (dev_sem s dev) 0 s))"
proof -
  have u: "unat (of_nat dev :: int32) = dev" using d(2) by (simp add: unat_of_nat take_bit_nat_eq_self)
  show ?thesis using d u one by (simp add: waitforio_def Let_def)
qed

section \<open>Device interrupts\<close>

lemma inthandler_saves:
  assumes "dev_pos type dev = int i" "i < 15" "heap_int s (dev_sem s i) \<noteq> - 1"
  shows "inthandler type dev s = Ok (s\<lparr>heap_int := (heap_int s)(dev_sem s i := heap_int s (dev_sem s i) + 1),
    save_arr := (save_arr s)(i := \<lparr>amnt = d_dadd (devreg s i), stat = d_stat (devreg s i)\<rparr>)\<rparr>)"
  using assms by (simp add: inthandler_def Let_def)

lemma inthandler_wakes:
  assumes d: "dev_pos type dev = int i" "i < 15" and v: "heap_int s (dev_sem s i) = - 1"
    and r: "repr s Q" and w: "wait_of (blocked Q) (dev_sem s i) = p # ps"
  shows "\<exists>s'. inthandler type dev s = Ok s' \<and> repr s' (wake (dev_sem s i) Q)
    \<and> core s' = core (set_int (dev_sem s i) 0 (upd_proc p (\<lambda>e. e\<lparr>p_s :=
        set_reg 3 (d_stat (devreg s i)) (set_reg 2 (d_dadd (devreg s i)) (p_s e))\<rparr>) s))"
proof -
  have p: "p < 20" using wait_lt [OF repr_aq_ok [OF r]] w by (metis list.set_intros(1))
  let ?t = "upd_proc p (\<lambda>e. e\<lparr>p_s := set_reg 3 (d_stat (devreg s i)) (set_reg 2 (d_dadd (devreg s i)) (p_s e))\<rparr>) s"
  have two: "upd_proc p (\<lambda>e. e\<lparr>p_s := set_reg 3 y (p_s e)\<rparr>) (upd_proc p (\<lambda>e. e\<lparr>p_s := set_reg 2 x (p_s e)\<rparr>) s)
      = upd_proc p (\<lambda>e. e\<lparr>p_s := set_reg 3 y (set_reg 2 x (p_s e))\<rparr>) s" for x y
    by (simp add: upd_proc_def)
  have k: "keeps_queue (\<lambda>e. e\<lparr>p_s := set_reg 3 (d_stat (devreg s i)) (set_reg 2 (d_dadd (devreg s i)) (p_s e))\<rparr>)"
    by (simp add: keeps_queue_def)
  have rt: "repr ?t Q" using r by (simp add: repr_fields(8) [OF k])
  have "sint (heap_int ?t (dev_sem s i)) < 0" using v by simp
  from intsemop_V [OF rt this] obtain s' where "intsemop (dev_sem s i) UNLOCK ?t = Ok s'"
    "repr s' (wake (dev_sem s i) Q)" "core s' = core (set_int (dev_sem s i) 0 ?t)" using v by auto
  moreover have "inthandler type dev s = intsemop (dev_sem s i) UNLOCK ?t"
    using d v p w headBlocked_repr [OF r, of "dev_sem s i"]
    by (simp add: inthandler_def Let_def wr_proc_upd two)
  ultimately show ?thesis by simp
qed

text \<open>A device handler resumes the interrupted process, or dispatches when none was running.\<close>

lemma dev_handler_end:
  assumes r: "repr s Q" and h: "inthandler type (unat (in_dno (s_tmp (heap_state s old)))) s = Ok s'"
  shows "dev_handler type old s = (if ready Q = [] then schedule s' else Exit (LDST (heap_state s' old) s'))"
  using headQueue_ready [OF r] h by (cases "ready Q") (auto simp: dev_handler_def)

section \<open>The clock\<close>

definition rotate_ready :: "aqueues \<Rightarrow> aqueues" where
  "rotate_ready Q = (case ready Q of [] \<Rightarrow> Q | p # ps \<Rightarrow> Q\<lparr>ready := ps @ [p]\<rparr>)"

text \<open>What the clock handler records about the process it interrupted.\<close>

definition preempted :: "nat \<Rightarrow> kstate \<Rightarrow> kstate" where
  "preempted p s = upd_proc p (\<lambda>e. e\<lparr>p_s := heap_state s old_clock_state\<rparr>)
     (upd_proc p (\<lambda>e. e\<lparr>cpu_time := cpu_time e + (clock_at s (clock_reads s) - start_t e)\<rparr>)
       (s\<lparr>clock_reads := Suc (clock_reads s)\<rparr>))"

lemma clock_preempt:
  assumes r: "repr s Q" and l: "live_ok Q" and ne: "ready Q = p # ps"
  shows "\<exists>s'. rbind (rq_remove s) (\<lambda>(removed, s).
      rbind (get_interval removed s) (\<lambda>s.
      rbind (wr_proc s removed (\<lambda>e. e\<lparr>p_s := heap_state s old_clock_state\<rparr>)) (\<lambda>s.
      rq_insert removed s))) = Ok s' \<and> repr s' (rotate_ready Q) \<and> core s' = core (preempted p s)"
proof -
  note h = head_alone [OF r l ne]
  from rq_remove_repr [OF r ne] obtain s1 where s1: "rq_remove s = Ok (Some p, s1)" "core s1 = core s"
    "repr s1 (Q\<lparr>ready := ps\<rparr>)" by blast
  have e: "clock_at s1 = clock_at s" "clock_reads s1 = clock_reads s" "heap_state s1 = heap_state s"
    using core_eqD [OF s1(2)] by simp_all
  have r1: "repr (preempted p s1) (Q\<lparr>ready := ps\<rparr>)" using s1(3) by (simp add: preempted_def)
  have "can_ready (Q\<lparr>ready := ps\<rparr>) p" using h by (simp add: can_ready_def)
  from rq_insert_repr [OF r1 this] obtain s2 where s2: "rq_insert (Some p) (preempted p s1) = Ok s2"
    "core s2 = core (preempted p s1)" "repr s2 (Q\<lparr>ready := ps @ [p]\<rparr>)" by auto
  have "core (preempted p s1) = core (preempted p s)"
    by (simp add: preempted_def core_upd_proc core_fields s1(2) e)
  with s1(1) s2 h(3) ne show ?thesis
    by (simp add: get_interval_upd wr_proc_upd preempted_def rotate_ready_def)
qed

lemma live_ok_rotate: "live_ok Q \<Longrightarrow> live_ok (rotate_ready Q)"
  by (cases "ready Q") (auto simp: rotate_ready_def live_ok_def)

lemma blocked_rotate [simp]: "blocked (rotate_ready Q) = blocked Q"
  by (simp add: rotate_ready_def split: list.splits)

definition clock_due :: "kstate \<Rightarrow> bool" where
  "clock_due s \<longleftrightarrow> sint clock_interrupt_time \<le> sint (clock_count s + quantum)"

definition after_tick :: "kstate \<Rightarrow> aqueues \<Rightarrow> aqueues" where
  "after_tick s Q = (if clock_due s then wake (clock_lock_at s) (rotate_ready Q) else rotate_ready Q)"

lemma clock_V:
  assumes r: "repr s Q" and so: "sem_ok s Q (clock_lock_at s)"
  shows "\<exists>s'. rbind (headBlocked (clock_lock_at s) s) (\<lambda>h.
      if h \<noteq> None then intsemop (clock_lock_at s) UNLOCK s else Ok s) = Ok s'
    \<and> repr s' (wake (clock_lock_at s) Q)
    \<and> core s' = core (if wait_of (blocked Q) (clock_lock_at s) = [] then s
        else set_int (clock_lock_at s) (heap_int s (clock_lock_at s) + 1) s)"
proof (cases "wait_of (blocked Q) (clock_lock_at s)")
  case Nil
  then show ?thesis using headBlocked_repr [OF r] r by (simp add: wake_def)
next
  case (Cons p ps)
  then have "sint (heap_int s (clock_lock_at s)) < 0" using so by (auto simp: sem_ok_def split: if_splits)
  from intsemop_V [OF r this] Cons headBlocked_repr [OF r, of "clock_lock_at s"] show ?thesis by simp
qed

lemma intclockhandler_refines:
  assumes r: "repr s Q" and l: "live_ok Q" and so: "sem_ok s Q (clock_lock_at s)"
  shows "\<exists>s1. intclockhandler s = schedule s1 \<and> repr s1 (after_tick s Q)
    \<and> clock_count s1 = (if clock_due s then 0 else clock_count s + quantum)
    \<and> heap_int s1 = (if clock_due s \<and> clock_waits s Q
        then (heap_int s)(clock_lock_at s := heap_int s (clock_lock_at s) + 1) else heap_int s)
    \<and> (\<forall>p. p_s (proc_table s1 p)
        = (if first_of (ready Q) = Some p then heap_state s old_clock_state else p_s (proc_table s p)))
    \<and> (\<forall>p. cpu_time (proc_table s1 p) = cpu_time (proc_table s p)
        + (if first_of (ready Q) = Some p then clock_at s (clock_reads s) - start_t (proc_table s p) else 0))
    \<and> same_env s s1 \<and> same_family s s1"
proof -
  let ?a = "clock_lock_at s"
  define s0 where "s0 = s\<lparr>clock_count := clock_count s + quantum\<rparr>"
  have r0: "repr s0 Q" using r by (simp add: s0_def)
  define t0 where "t0 = (case ready Q of [] \<Rightarrow> s0 | p # ps \<Rightarrow> preempted p s0)"
  have "\<exists>s1. (if ready Q \<noteq> [] then rbind (rq_remove s0) (\<lambda>(removed, s).
      rbind (get_interval removed s) (\<lambda>s.
      rbind (wr_proc s removed (\<lambda>e. e\<lparr>p_s := heap_state s old_clock_state\<rparr>)) (\<lambda>s.
      rq_insert removed s))) else Ok s0) = Ok s1 \<and> repr s1 (rotate_ready Q) \<and> core s1 = core t0"
    using clock_preempt [OF r0 l] r0 by (cases "ready Q") (auto simp: rotate_ready_def t0_def)
  then obtain s1 where s1: "(if ready Q \<noteq> [] then rbind (rq_remove s0) (\<lambda>(removed, s).
      rbind (get_interval removed s) (\<lambda>s.
      rbind (wr_proc s removed (\<lambda>e. e\<lparr>p_s := heap_state s old_clock_state\<rparr>)) (\<lambda>s.
      rq_insert removed s))) else Ok s0) = Ok s1" "repr s1 (rotate_ready Q)" "core s1 = core t0" by blast
  have t0: "clock_count t0 = clock_count s + quantum" "clock_lock_at t0 = ?a" "heap_int t0 = heap_int s"
    by (simp_all add: t0_def s0_def preempted_def split: list.splits)
  have pt: "p_s (proc_table t0 p) = (if first_of (ready Q) = Some p then heap_state s old_clock_state else p_s (proc_table s p))"
    "cpu_time (proc_table t0 p) = cpu_time (proc_table s p)
        + (if first_of (ready Q) = Some p then clock_at s (clock_reads s) - start_t (proc_table s p) else 0)" for p
    by (auto simp: t0_def s0_def preempted_def split: list.splits)
  have en: "same_env s t0" "same_family s t0"
    by (auto simp: t0_def s0_def preempted_def same_env_def same_family_def split: list.splits)
  have e: "clock_count s1 = clock_count s + quantum" "clock_lock_at s1 = ?a" "heap_int s1 = heap_int s"
    using core_eqD [OF s1(3)] t0 by simp_all
  have head: "headQueue (running_queue s) s = Ok (first_of (ready Q))" by (rule headQueue_ready [OF r])
  have body: "intclockhandler s = rbind (if clock_due s then
        rbind (headBlocked ?a (s1\<lparr>clock_count := 0\<rparr>)) (\<lambda>h.
        if h \<noteq> None then intsemop ?a UNLOCK (s1\<lparr>clock_count := 0\<rparr>) else Ok (s1\<lparr>clock_count := 0\<rparr>))
      else Ok s1) schedule"
    using s1(1) head e by (cases "ready Q") (simp_all add: intclockhandler_def Let_def s0_def clock_due_def cong: if_cong)
  show ?thesis
  proof (cases "clock_due s")
    case True
    let ?u = "s1\<lparr>clock_count := 0\<rparr>"
    have ru: "repr ?u (rotate_ready Q)" using s1(2) by simp
    have so': "sem_ok ?u (rotate_ready Q) (clock_lock_at ?u)" using so e by (simp add: sem_ok_def)
    have a: "clock_lock_at ?u = ?a" using e by simp
    from clock_V [OF ru so'] obtain s2 where s2: "rbind (headBlocked ?a ?u) (\<lambda>h.
        if h \<noteq> None then intsemop ?a UNLOCK ?u else Ok ?u) = Ok s2" "repr s2 (wake ?a (rotate_ready Q))"
      "core s2 = core (if wait_of (blocked Q) ?a = [] then ?u else set_int ?a (heap_int ?u ?a + 1) ?u)"
      unfolding a by auto
    have "intclockhandler s = schedule s2" using body s2(1) True by simp
    moreover have c2: "core s2 = core ((if wait_of (blocked Q) ?a = [] then t0
        else set_int ?a (heap_int s ?a + 1) t0)\<lparr>clock_count := 0\<rparr>)"
      using s2(3) s1(3) e t0 by (simp add: core_fields)
    moreover have "same_env s s2" "same_family s s2"
      using core_same [OF c2] en by (auto simp: same_env_def same_family_def)
    moreover from core_eqD [OF c2] core_proc_eqD [OF c2] t0 pt
    have "clock_count s2 = 0" "\<forall>p. p_s (proc_table s2 p) = p_s (proc_table t0 p)"
      "\<forall>p. cpu_time (proc_table s2 p) = cpu_time (proc_table t0 p)"
      "heap_int s2 = (if clock_waits s Q then (heap_int s)(?a := heap_int s ?a + 1) else heap_int s)"
      by (auto simp: clock_waits_def)
    ultimately show ?thesis using True s2(2) pt by (intro exI [of _ s2]) (simp add: after_tick_def)
  next
    case False
    then show ?thesis using body s1(2) e pt core_eqD [OF s1(3)] core_proc_eqD [OF s1(3)]
        same_env_trans [OF en(1) core_same(1) [OF s1(3)]] same_family_trans [OF en(2) core_same(2) [OF s1(3)]]
      by (intro exI [of _ s1]) (simp add: after_tick_def)
  qed
qed

end
