(* ===== verification/Syscalls.thy ===== *)
theory Syscalls
  imports Interrupts
begin

text \<open>
  The system calls of the nucleus, \<open>src/nucleus/traps/syscall.c\<close>: creation and
  termination of processes, P and V on a vector of semaphores, trap state vectors, CPU
  time. \<open>old\<close> is the address of the processor state at the time of the call.

  The children of a process form a chain through \<open>brother\<close>, starting at \<open>child\<close>; only the
  last of them carries the \<open>parent\<close> pointer. The loops over such chains visit at
  most \<open>MAXPROC\<close> entries unless the chain is circular. The recursion of \<open>check_sibling\<close>
  spends at most three units of its fuel per process, so \<open>3 * MAXPROC + 3\<close> is enough.
\<close>

section \<open>Operations\<close>

definition rq_out :: "procptr \<Rightarrow> kstate \<Rightarrow> (procptr \<times> kstate) kres" where
  "rq_out p s = rbind (outProc (running_queue s) p s) (\<lambda>(rv, tp, s). Ok (rv, s\<lparr>running_queue := tp\<rparr>))"

text \<open>\<open>while (w->parent == ENULL) w = w->brother;\<close>\<close>

fun last_brother :: "nat \<Rightarrow> procptr \<Rightarrow> kstate \<Rightarrow> procptr kres" where
  "last_brother 0 w s = Exit HANG"
| "last_brother (Suc n) w s =
     rbind (rd_proc s w) (\<lambda>e. if parent e = None then last_brother n (brother e) s else Ok w)"

text \<open>\<open>while (w->brother != cur) w = w->brother;\<close>\<close>

fun brother_before :: "nat \<Rightarrow> procptr \<Rightarrow> procptr \<Rightarrow> kstate \<Rightarrow> procptr kres" where
  "brother_before 0 w cur s = Exit HANG"
| "brother_before (Suc n) w cur s =
     rbind (rd_proc s w) (\<lambda>e. if brother e \<noteq> cur then brother_before n (brother e) cur s else Ok w)"

definition Create_Process :: "addr \<Rightarrow> kstate \<Rightarrow> kstate kres" where
  "Create_Process old s =
     rbind (allocProc s) (\<lambda>(fork_process, s).
     rbind (headQueue (running_queue s) s) (\<lambda>cur.
     if fork_process = None then Ok (set_state old (set_reg 2 (- 1) (heap_state s old)) s)
     else
       rbind (wr_proc s fork_process (\<lambda>e. e\<lparr>p_s := heap_state s (s_r (heap_state s old) 4)\<rparr>)) (\<lambda>s.
       rbind (rd_proc s cur) (\<lambda>c.
       rbind (if child c = None then
                rbind (wr_proc s cur (\<lambda>e. e\<lparr>child := fork_process\<rparr>)) (\<lambda>s.
                wr_proc s fork_process (\<lambda>e. e\<lparr>parent := cur\<rparr>))
              else
                rbind (last_brother MAXPROC (child c) s) (\<lambda>first_child.
                rbind (wr_proc s first_child (\<lambda>e. e\<lparr>parent := None\<rparr>)) (\<lambda>s.
                rbind (wr_proc s first_child (\<lambda>e. e\<lparr>brother := fork_process\<rparr>)) (\<lambda>s.
                wr_proc s fork_process (\<lambda>e. e\<lparr>parent := cur\<rparr>))))) (\<lambda>s.
       rbind (rq_insert fork_process s) (\<lambda>s.
       Ok (set_state old (set_reg 2 0 (heap_state s old)) s)))))))"

text \<open>
  \<open>check_sibling\<close> takes every child of \<open>cur\<close> off its queues, recursively with its own
  children, and frees it. \<open>kill_child\<close> is the body that its loop and its end share.
\<close>

fun check_sibling :: "nat \<Rightarrow> procptr \<Rightarrow> kstate \<Rightarrow> kstate kres"
  and sibling_loop :: "nat \<Rightarrow> procptr \<Rightarrow> kstate \<Rightarrow> (procptr \<times> kstate) kres"
  and kill_child :: "nat \<Rightarrow> procptr \<Rightarrow> kstate \<Rightarrow> kstate kres" where
  "check_sibling 0 cur s = Exit HANG"
| "check_sibling (Suc n) cur s =
     rbind (rd_proc s cur) (\<lambda>c.
     rbind (sibling_loop n (child c) s) (\<lambda>(first_child, s).
     rbind (kill_child n first_child s) (\<lambda>s.
     rbind (wr_proc s first_child (\<lambda>e. e\<lparr>parent := None\<rparr>)) (\<lambda>s.
     wr_proc s cur (\<lambda>e. e\<lparr>child := None\<rparr>)))))"
| "sibling_loop 0 first_child s = Exit HANG"
| "sibling_loop (Suc n) first_child s =
     rbind (rd_proc s first_child) (\<lambda>e.
     if brother e \<noteq> None then
       let tmp = brother e in
       rbind (wr_proc s first_child (\<lambda>e. e\<lparr>brother := None\<rparr>)) (\<lambda>s.
       rbind (kill_child n first_child s) (\<lambda>s.
       sibling_loop n tmp s))
     else Ok (first_child, s))"
| "kill_child 0 first_child s = Exit HANG"
| "kill_child (Suc n) first_child s =
     rbind (outBlocked first_child s) (\<lambda>(removed, s).
     rbind (if removed = None then rq_out first_child s else Ok (removed, s)) (\<lambda>(removed, s).
     rbind (rd_proc s removed) (\<lambda>e.
     rbind (if child e \<noteq> None then check_sibling n removed s else Ok s) (\<lambda>s.
     freeProc removed s))))"

definition kill_fuel :: nat where "kill_fuel = 3 * MAXPROC + 3"

text \<open>The first part of \<open>Terminate_Process\<close>: take the process off its brothers' chain.\<close>

definition leave_family :: "procptr \<Rightarrow> kstate \<Rightarrow> kstate kres" where
  "leave_family cur s =
     rbind (rd_proc s cur) (\<lambda>c.
     if parent c \<noteq> None \<and> brother c = None then
       rbind (rd_proc s (parent c)) (\<lambda>pa.
       let first_child = child pa in
       if first_child = cur then
         rbind (wr_proc s (parent c) (\<lambda>e. e\<lparr>child := None\<rparr>)) (\<lambda>s.
         wr_proc s cur (\<lambda>e. e\<lparr>parent := None\<rparr>))
       else
         rbind (brother_before MAXPROC first_child cur s) (\<lambda>first_child.
         rbind (wr_proc s first_child (\<lambda>e. e\<lparr>brother := brother c\<rparr>)) (\<lambda>s.
         rbind (wr_proc s first_child (\<lambda>e. e\<lparr>parent := parent c\<rparr>)) (\<lambda>s.
         wr_proc s cur (\<lambda>e. e\<lparr>parent := None\<rparr>)))))
     else if parent c = None \<and> brother c \<noteq> None \<or> parent c \<noteq> None \<and> brother c \<noteq> None then
       rbind (last_brother MAXPROC (brother c) s) (\<lambda>first_brother.
       rbind (rd_proc s first_brother) (\<lambda>fb.
       rbind (rd_proc s (parent fb)) (\<lambda>pa.
       let first_child = child pa in
       if first_child = cur then
         rbind (wr_proc s (parent fb) (\<lambda>e. e\<lparr>child := brother c\<rparr>)) (\<lambda>s.
         wr_proc s cur (\<lambda>e. e\<lparr>brother := None\<rparr>))
       else
         rbind (brother_before MAXPROC first_child cur s) (\<lambda>first_child.
         rbind (wr_proc s first_child (\<lambda>e. e\<lparr>brother := brother c\<rparr>)) (\<lambda>s.
         wr_proc s cur (\<lambda>e. e\<lparr>brother := None\<rparr>))))))
     else Ok s)"

definition Terminate_Process :: "kstate \<Rightarrow> kstate kres" where
  "Terminate_Process s =
     rbind (headQueue (running_queue s) s) (\<lambda>cur.
     rbind (leave_family cur s) (\<lambda>s.
     rbind (rd_proc s cur) (\<lambda>c.
     rbind (if child c = None then Ok s else check_sibling kill_fuel cur s) (\<lambda>s.
     rbind (rq_out cur s) (\<lambda>(removed, s).
     rbind (freeProc removed s) (\<lambda>s.
     schedule s))))))"

text \<open>
  The loop of \<open>Sem_OP\<close> over the vector at \<open>vpop_addr\<close>, eight bytes per element; what
  \<open>insertBlocked\<close> returns is ignored. The result says whether some P blocked.
\<close>

fun sem_loop :: "nat \<Rightarrow> addr \<Rightarrow> procptr \<Rightarrow> addr \<Rightarrow> bool \<Rightarrow> kstate \<Rightarrow> (bool \<times> kstate) kres" where
  "sem_loop 0 vpop_addr cur old flag s = Ok (flag, s)"
| "sem_loop (Suc n) vpop_addr cur old flag s =
     (let vop = heap_vpop s vpop_addr; a = vp_sem vop; v = heap_int s a in
      if vp_op vop = LOCK then
        let s = set_int a (v - 1) s in
        if sint (v - 1) < 0 then
          rbind (wr_proc s cur (\<lambda>e. e\<lparr>p_s := heap_state s old\<rparr>)) (\<lambda>s.
          rbind (insertBlocked a cur s) (\<lambda>(full, s).
          sem_loop n (vpop_addr + 8) cur old True s))
        else sem_loop n (vpop_addr + 8) cur old flag s
      else
        let s = set_int a (v + 1) s in
        if sint v < 0 then
          rbind (removeBlocked a s) (\<lambda>(removed, s).
          rbind (if removed \<noteq> None then
                   rbind (rd_proc s removed) (\<lambda>e. if qcount e = 0 then rq_insert removed s else Ok s)
                 else Ok s) (\<lambda>s.
          sem_loop n (vpop_addr + 8) cur old flag s))
        else sem_loop n (vpop_addr + 8) cur old flag s)"

definition Sem_OP :: "addr \<Rightarrow> kstate \<Rightarrow> kstate kres" where
  "Sem_OP old s =
     rbind (headQueue (running_queue s) s) (\<lambda>cur.
     rbind (sem_loop (nat (sint (s_r (heap_state s old) 3))) (s_r (heap_state s old) 4) cur old False s)
       (\<lambda>(flag, s).
       if flag then rbind (rq_remove s) (\<lambda>(_, s). schedule s) else Ok s))"

definition Specify_Trap_State_Vector :: "addr \<Rightarrow> kstate \<Rightarrow> kstate kres" where
  "Specify_Trap_State_Vector old s =
     rbind (headQueue (running_queue s) s) (\<lambda>cur.
     let st = heap_state s old; trap = s_r st 2 in
     if trap = 0 then
       rbind (rd_proc s cur) (\<lambda>c.
       if prog_old c \<noteq> ENULL_addr then Terminate_Process s
       else wr_proc s cur (\<lambda>e. e\<lparr>prog_old := s_r st 3, prog_new := s_r st 4\<rparr>))
     else if trap = 1 then
       rbind (rd_proc s cur) (\<lambda>c.
       if memory_management_old c \<noteq> ENULL_addr then Terminate_Process s
       else wr_proc s cur (\<lambda>e. e\<lparr>memory_management_old := s_r st 3, memory_management_new := s_r st 4\<rparr>))
     else if trap = 2 then
       rbind (rd_proc s cur) (\<lambda>c.
       if system_call_old c \<noteq> ENULL_addr then Terminate_Process s
       else wr_proc s cur (\<lambda>e. e\<lparr>system_call_old := s_r st 3, system_call_new := s_r st 4\<rparr>))
     else Ok s)"

definition notused :: "addr \<Rightarrow> kstate \<Rightarrow> kstate kres" where
  "notused old s = HALT s"

definition Get_CPU_Time :: "addr \<Rightarrow> kstate \<Rightarrow> kstate kres" where
  "Get_CPU_Time old s =
     rbind (headQueue (running_queue s) s) (\<lambda>cur.
     rbind (rd_proc s cur) (\<lambda>c.
     Ok (set_state old (set_reg 2 (cpu_time c) (heap_state s old)) s)))"

end
