(* ===== verification/Traps.thy ===== *)
theory Traps
  imports Syscalls
begin

text \<open>
  Trap handling, \<open>src/nucleus/traps/trap.c\<close>, and the start of the system,
  \<open>src/nucleus/traps/main.c\<close>. Traps that are not calls to the nucleus are passed up: the
  state goes to the area the process has declared with SYS5 and the new state it has
  declared is loaded; without such a declaration the process is terminated.
\<close>

section \<open>Operations\<close>

text \<open>The old areas; \<open>trapinit\<close> stores these addresses once and for all.\<close>

definition old_pro_state :: addr where "old_pro_state = 0x800"
definition old_mm_state :: addr where "old_mm_state = 0x898"
definition old_sys_call_state :: addr where "old_sys_call_state = 0x930"

text \<open>\<open>*area = *old_state; start_time(cur); LDST(new);\<close>\<close>

definition deliver :: "addr \<Rightarrow> addr \<Rightarrow> addr \<Rightarrow> procptr \<Rightarrow> kstate \<Rightarrow> kstate kres" where
  "deliver old_state area new cur s =
     (let s = set_state area (heap_state s old_state) s in
      rbind (start_time cur s) (\<lambda>s. Exit (LDST (heap_state s new) s)))"

definition pass_up :: "addr \<Rightarrow> nat \<Rightarrow> kstate \<Rightarrow> kstate kres" where
  "pass_up old_state type s =
     rbind (headQueue (running_queue s) s) (\<lambda>cur.
     if type = 0 then
       rbind (rd_proc s cur) (\<lambda>c.
       if prog_new c \<noteq> ENULL_addr then deliver old_state (prog_old c) (prog_new c) cur s
       else Terminate_Process s)
     else if type = 1 then
       rbind (rd_proc s cur) (\<lambda>c.
       if memory_management_new c \<noteq> ENULL_addr
       then deliver old_state (memory_management_old c) (memory_management_new c) cur s
       else Terminate_Process s)
     else if type = 2 then
       rbind (rd_proc s cur) (\<lambda>c.
       if system_call_new c \<noteq> ENULL_addr
       then deliver old_state (system_call_old c) (system_call_new c) cur s
       else Terminate_Process s)
     else Ok s)"

definition trapmmhandler :: "kstate \<Rightarrow> kstate kres" where
  "trapmmhandler s =
     rbind (headQueue (running_queue s) s) (\<lambda>cur.
     rbind (get_interval cur s) (\<lambda>s.
     pass_up old_mm_state 1 s))"

definition trapproghandler :: "kstate \<Rightarrow> kstate kres" where
  "trapproghandler s =
     rbind (headQueue (running_queue s) s) (\<lambda>cur.
     rbind (get_interval cur s) (\<lambda>s.
     pass_up old_pro_state 0 s))"

definition dispatch_sys :: "nat \<Rightarrow> kstate \<Rightarrow> kstate kres" where
  "dispatch_sys no s =
     (if no = 1 then Create_Process old_sys_call_state s
      else if no = 2 then Terminate_Process s
      else if no = 3 then Sem_OP old_sys_call_state s
      else if no = 4 then notused old_sys_call_state s
      else if no = 5 then Specify_Trap_State_Vector old_sys_call_state s
      else if no = 6 then Get_CPU_Time old_sys_call_state s
      else if no = 7 then waitforpclock old_sys_call_state s
      else if no = 8 then waitforio old_sys_call_state s
      else pass_up old_sys_call_state 2 s)"

definition trapsyshandler :: "kstate \<Rightarrow> kstate kres" where
  "trapsyshandler s =
     rbind (headQueue (running_queue s) s) (\<lambda>cur.
     rbind (get_interval cur s) (\<lambda>s.
     let st = heap_state s old_sys_call_state in
     rbind (if ps_s (s_sr st) \<noteq> 1 \<and> 1 \<le> sys_no (s_tmp st) \<and> sys_no (s_tmp st) \<le> 8 then
              let s = set_state old_sys_call_state (st\<lparr>s_tmp := set_pr_typ PRIVILEGE (s_tmp st)\<rparr>) s
              in pass_up old_sys_call_state 0 s
            else Ok s) (\<lambda>s.
     rbind (dispatch_sys (unat (sys_no (s_tmp (heap_state s old_sys_call_state)))) s) (\<lambda>s.
     rbind (start_time cur s) (\<lambda>s.
     Exit (LDST (heap_state s old_sys_call_state) s))))))"

text \<open>
  \<open>trapinit\<close> fills the exception vector table with the addresses of the assembly
  entry routines (\<open>src/h/util.h\<close>), which the linker knows, and the new areas.
\<close>

definition evt :: "(addr \<times> string) list" where
  "evt = [(0x008, ''STLDMM''), (0x00c, ''STLDADDRESS''), (0x010, ''STLDILLEGAL''), (0x014, ''STLDZERO''),
     (0x020, ''STLDPRIVILEGE''), (0x08c, ''STLDSYS''), (0x94, ''STLDSYS9''), (0x98, ''STLDSYS10''),
     (0x9c, ''STLDSYS11''), (0xa0, ''STLDSYS12''), (0xa4, ''STLDSYS13''), (0xa8, ''STLDSYS14''),
     (0xac, ''STLDSYS15''), (0xb0, ''STLDSYS16''), (0xb4, ''STLDSYS17''), (0x100, ''STLDTERM0''),
     (0x104, ''STLDTERM1''), (0x108, ''STLDTERM2''), (0x10c, ''STLDTERM3''), (0x110, ''STLDTERM4''),
     (0x114, ''STLDPRINT0''), (0x11c, ''STLDDISK0''), (0x12c, ''STLDFLOPPY0''), (0x140, ''STLDCLOCK'')]"

definition trapinit :: "(string \<Rightarrow> int32) \<Rightarrow> int32 \<Rightarrow> kstate \<Rightarrow> kstate" where
  "trapinit entry_of sp s =
     (let s = fold (\<lambda>(a, r) s. set_int a (entry_of r) s) evt s;
          s = init_new old_pro_state (entry_of ''trapproghandler'') sp s;
          s = init_new old_mm_state (entry_of ''trapmmhandler'') sp s
      in init_new old_sys_call_state (entry_of ''trapsyshandler'') sp s)"

text \<open>
  \<open>init\<close> and \<open>main\<close>: \<open>st0\<close> and \<open>st1\<close> are the processor states the two \<open>STST\<close>
  instructions store.
\<close>

definition init :: "(string \<Rightarrow> int32) \<Rightarrow> state_t \<Rightarrow> kstate \<Rightarrow> kstate" where
  "init entry_of st0 s =
     (let s = s\<lparr>running_queue := null_link\<rparr>;
          s = initProc s;
          s = initSemd s;
          s = trapinit entry_of (s_sp st0) s
      in intinit entry_of (s_sp st0) s)"

definition main :: "(string \<Rightarrow> int32) \<Rightarrow> state_t \<Rightarrow> state_t \<Rightarrow> kstate \<Rightarrow> kstate kres" where
  "main entry_of st0 st1 s =
     (let s = init entry_of st0 s in
      rbind (allocProc s) (\<lambda>(first_process, s).
      rbind (wr_proc s first_process (\<lambda>e. e\<lparr>p_s := st1\<rparr>)) (\<lambda>s.
      rbind (wr_proc s first_process (\<lambda>e. e\<lparr>p_s := set_reg 15 (s_sp st0 - 512 * 2) (p_s e)\<rparr>)) (\<lambda>s.
      rbind (wr_proc s first_process (\<lambda>e. e\<lparr>p_s := set_reg 16 (entry_of ''p1'') (p_s e)\<rparr>)) (\<lambda>s.
      rbind (rq_insert first_process s) (\<lambda>s.
      schedule s))))))"

end
