(* ===== verification/Family.thy ===== *)
theory Family
  imports Traps
begin

text \<open>
  The process tree. Children of a process are chained by \<open>brother\<close>, and only the last
  carries the \<open>parent\<close> pointer. \<open>ptree\<close> is the tree the pointers represent;
  \<open>check_sibling\<close> is shown to take a whole subtree out of the system.
\<close>

section \<open>Trees of processes\<close>

datatype ptree = PNode (root: nat) (subtrees: "ptree list")

fun procs :: "ptree \<Rightarrow> nat list" where
  "procs (PNode p ts) = concat (map procs ts) @ [p]"

abbreviation forest_procs :: "ptree list \<Rightarrow> nat list" where
  "forest_procs ts \<equiv> concat (map procs ts)"

definition chd :: "kstate \<Rightarrow> nat \<Rightarrow> procptr" where "chd s p = child (proc_table s p)"
definition par :: "kstate \<Rightarrow> nat \<Rightarrow> procptr" where "par s p = parent (proc_table s p)"
definition bro :: "kstate \<Rightarrow> nat \<Rightarrow> procptr" where "bro s p = brother (proc_table s p)"

text \<open>The pointers of the children \<open>rs\<close> of \<open>p\<close>.\<close>

definition kids_ok :: "kstate \<Rightarrow> nat \<Rightarrow> nat list \<Rightarrow> bool" where
  "kids_ok s p rs \<longleftrightarrow> chd s p = first_of rs \<and> seg (bro s) rs None
     \<and> (\<forall>r \<in> set (butlast rs). par s r = None) \<and> (rs \<noteq> [] \<longrightarrow> par s (last rs) = Some p)"

fun tree_ok :: "kstate \<Rightarrow> ptree \<Rightarrow> bool" where
  "tree_ok s (PNode p ts) \<longleftrightarrow> kids_ok s p (map root ts) \<and> list_all (tree_ok s) ts"

lemma procs_root [simp]: "root t \<in> set (procs t)"
  by (cases t) simp

lemma procs_ne [simp]: "procs t \<noteq> []"
  by (cases t) simp

lemma roots_procs: "t \<in> set ts \<Longrightarrow> root t \<in> set (forest_procs ts)"
  using procs_root [of t] by (simp, blast)

lemma kids_ok_cong:
  assumes "kids_ok s p rs" "chd t p = chd s p" "\<And>r. r \<in> set rs \<Longrightarrow> bro t r = bro s r \<and> par t r = par s r"
  shows "kids_ok t p rs"
proof -
  have "par t r = None" if "r \<in> set (butlast rs)" for r
    using assms(1,3) that in_set_butlastD [OF that] by (simp add: kids_ok_def)
  moreover have "par t (last rs) = Some p" if "rs \<noteq> []"
    using assms(1,3) that last_in_set [OF that] by (simp add: kids_ok_def)
  moreover have "seg (bro t) rs None"
    using assms seg_cong [of rs "bro t" "bro s" None] by (simp add: kids_ok_def)
  ultimately show ?thesis using assms(1,2) by (simp add: kids_ok_def)
qed

lemma tree_ok_cong:
  assumes "tree_ok s t" "\<And>q. q \<in> set (procs t) \<Longrightarrow> chd s' q = chd s q"
    "\<And>q. q \<in> set (procs t) \<Longrightarrow> q \<noteq> root t \<Longrightarrow> bro s' q = bro s q \<and> par s' q = par s q"
    "distinct (procs t)"
  shows "tree_ok s' t"
  using assms
proof (induction t)
  case (PNode p ts)
  have rt: "root u \<in> set (forest_procs ts)" "root u \<noteq> p" if "u \<in> set ts" for u
    using PNode.prems(4) roots_procs [OF that] by auto
  have "kids_ok s' p (map root ts)"
  proof (rule kids_ok_cong)
    show "kids_ok s p (map root ts)" using PNode.prems(1) by simp
    show "chd s' p = chd s p" using PNode.prems(2) by simp
    show "bro s' r = bro s r \<and> par s' r = par s r" if "r \<in> set (map root ts)" for r
      using that rt PNode.prems(3) [of r] by fastforce
  qed
  moreover have "tree_ok s' u" if u: "u \<in> set ts" for u
  proof (rule PNode.IH [OF u])
    show "tree_ok s u" using PNode.prems(1) u by (simp add: list_all_iff)
    have d: "distinct (forest_procs ts)" "p \<notin> set (forest_procs ts)" using PNode.prems(4) by auto
    then show "distinct (procs u)" using u by (auto simp: distinct_concat_iff)
    show "chd s' q = chd s q" if "q \<in> set (procs u)" for q
      using PNode.prems(2) [of q] that u by auto
    show "bro s' q = bro s q \<and> par s' q = par s q" if "q \<in> set (procs u)" "q \<noteq> root u" for q
      using PNode.prems(3) [of q] that u d by auto
  qed
  ultimately show ?case by (simp add: list_all_iff)
qed

section \<open>What killing does to the queues\<close>

definition kill_q :: "nat list \<Rightarrow> aqueues \<Rightarrow> aqueues" where
  "kill_q xs Q = \<lparr>ready = filter (\<lambda>p. p \<notin> set xs) (ready Q),
     blocked = leave (\<lambda>a p. p \<in> set xs) (blocked Q), unused = unused Q @ xs\<rparr>"

definition kill_heap :: "nat list \<Rightarrow> aqueues \<Rightarrow> (addr \<Rightarrow> int32) \<Rightarrow> addr \<Rightarrow> int32" where
  "kill_heap xs Q h a = h a + of_nat (length (filter (\<lambda>p. p \<in> set xs) (wait_of (blocked Q) a)))"

text \<open>Everything but queues, semaphores and the family pointers.\<close>

definition fcore :: "kstate \<Rightarrow> kstate" where
  "fcore s = (core s)\<lparr>heap_int := (\<lambda>_. 0),
     proc_table := (\<lambda>p. (proc_table (core s) p)\<lparr>parent := None, child := None, brother := None\<rparr>)\<rparr>"

definition killed :: "kstate \<Rightarrow> aqueues \<Rightarrow> nat list \<Rightarrow> kstate \<Rightarrow> bool" where
  "killed s Q xs s' \<longleftrightarrow> repr s' (kill_q xs Q) \<and> heap_int s' = kill_heap xs Q (heap_int s) \<and> fcore s' = fcore s"

definition alive :: "aqueues \<Rightarrow> nat \<Rightarrow> bool" where
  "alive Q p \<longleftrightarrow> p < 20 \<and> p \<notin> set (unused Q) \<and> (p \<in> set (ready Q) \<longleftrightarrow> sems_of Q p = {})"

lemma live_ok_alive: "live_ok Q \<Longrightarrow> p < 20 \<Longrightarrow> p \<notin> set (unused Q) \<Longrightarrow> alive Q p"
  by (auto simp: live_ok_def alive_def)

lemma fcore_core: "core s = core t \<Longrightarrow> fcore s = fcore t"
  by (simp add: fcore_def)

lemma fcore_heap [simp]: "fcore (s\<lparr>heap_int := h\<rparr>) = fcore s"
  by (simp add: fcore_def core_fields)

lemma fcore_family:
  "fcore (upd_proc p (\<lambda>e. e\<lparr>parent := q\<rparr>) s) = fcore s"
  "fcore (upd_proc p (\<lambda>e. e\<lparr>child := q\<rparr>) s) = fcore s"
  "fcore (upd_proc p (\<lambda>e. e\<lparr>brother := q\<rparr>) s) = fcore s"
  by (rule kstate.equality; simp add: fcore_def core_def upd_proc_def fun_eq_iff)+

lemma leave_Un: "leave (\<lambda>a p. p \<in> set ys) (leave (\<lambda>a p. p \<in> set xs) B) = leave (\<lambda>a p. p \<in> set (xs @ ys)) B"
proof -
  have "(\<lambda>a p. p \<in> set ys \<or> p \<in> set xs) = (\<lambda>a p. p \<in> set (xs @ ys))" by (auto simp: fun_eq_iff)
  from arg_cong [OF this, of "\<lambda>P. leave P B"] show ?thesis by (simp only: leave_leave)
qed

lemma kill_q_append: "kill_q ys (kill_q xs Q) = kill_q (xs @ ys) Q"
  by (auto simp: kill_q_def leave_Un [simplified] intro: filter_cong)

lemma wait_of_kill:
  "distinct (map fst (blocked Q)) \<Longrightarrow> wait_of (blocked (kill_q xs Q)) a = filter (\<lambda>p. p \<notin> set xs) (wait_of (blocked Q) a)"
  by (simp add: kill_q_def wait_of_leave)

lemma kill_heap_append:
  assumes "distinct (map fst (blocked Q))" "set xs \<inter> set ys = {}"
  shows "kill_heap ys (kill_q xs Q) (kill_heap xs Q h) = kill_heap (xs @ ys) Q h"
proof (rule ext)
  fix a
  have "length (filter (\<lambda>p. p \<in> set (xs @ ys)) ws)
      = length (filter (\<lambda>p. p \<in> set xs) ws) + length (filter (\<lambda>p. p \<in> set ys) (filter (\<lambda>p. p \<notin> set xs) ws))" for ws
    using assms(2) by (induction ws) auto
  then show "kill_heap ys (kill_q xs Q) (kill_heap xs Q h) a = kill_heap (xs @ ys) Q h a"
    by (simp add: kill_heap_def wait_of_kill [OF assms(1)] add.assoc)
qed

lemma killed_trans:
  assumes "killed s Q xs s1" "killed s1 (kill_q xs Q) ys s2" "aq_ok Q" "set xs \<inter> set ys = {}"
  shows "killed s Q (xs @ ys) s2"
  using assms kill_heap_append [of Q xs ys "heap_int s"]
  by (simp add: killed_def kill_q_append aq_ok_def)

lemma alive_kill:
  assumes "alive Q p" "aq_ok Q" "p \<notin> set xs"
  shows "alive (kill_q xs Q) p"
proof -
  have d: "distinct (map fst (blocked Q))" using assms by (simp add: aq_ok_def)
  have "sems_of (kill_q xs Q) p = sems_of Q p" using assms(3) by (auto simp: sems_of_def wait_of_kill [OF d])
  then show ?thesis using assms by (auto simp: alive_def kill_q_def)
qed

section \<open>Taking one process out of all queues\<close>

lemma family_core:
  assumes "core s = core t"
  shows "chd s = chd t" "par s = par t" "bro s = bro t"
  using core_eqD [OF assms] by (auto simp: chd_def par_def bro_def fun_eq_iff)

lemma family_heap [simp]:
  "chd (s\<lparr>heap_int := h\<rparr>) = chd s" "par (s\<lparr>heap_int := h\<rparr>) = par s" "bro (s\<lparr>heap_int := h\<rparr>) = bro s"
  by (auto simp: chd_def par_def bro_def fun_eq_iff)

lemma family_upd [simp]:
  "chd (upd_proc p (\<lambda>e. e\<lparr>parent := q\<rparr>) s) = chd s" "bro (upd_proc p (\<lambda>e. e\<lparr>parent := q\<rparr>) s) = bro s"
  "par (upd_proc p (\<lambda>e. e\<lparr>parent := q\<rparr>) s) = (par s)(p := q)"
  "par (upd_proc p (\<lambda>e. e\<lparr>child := q\<rparr>) s) = par s" "bro (upd_proc p (\<lambda>e. e\<lparr>child := q\<rparr>) s) = bro s"
  "chd (upd_proc p (\<lambda>e. e\<lparr>child := q\<rparr>) s) = (chd s)(p := q)"
  "chd (upd_proc p (\<lambda>e. e\<lparr>brother := q\<rparr>) s) = chd s" "par (upd_proc p (\<lambda>e. e\<lparr>brother := q\<rparr>) s) = par s"
  "bro (upd_proc p (\<lambda>e. e\<lparr>brother := q\<rparr>) s) = (bro s)(p := q)"
  by (auto simp: chd_def par_def bro_def fun_eq_iff)

lemma rq_out_repr:
  assumes "repr s Q" "p \<in> set (ready Q)"
  shows "\<exists>s'. rq_out (Some p) s = Ok (Some p, s') \<and> core s' = core s
    \<and> repr s' (Q\<lparr>ready := filter (\<lambda>r. r \<noteq> p) (ready Q)\<rparr>)"
  using outProc_ready [OF assms] by (auto simp: rq_out_def)

definition take_out :: "nat \<Rightarrow> aqueues \<Rightarrow> aqueues" where
  "take_out p Q = Q\<lparr>blocked := leave (\<lambda>a r. r = p) (blocked Q), ready := filter (\<lambda>r. r \<noteq> p) (ready Q)\<rparr>"

lemma leave_none:
  assumes "aq_ok Q" "sems_of Q p = {}"
  shows "leave (\<lambda>a r. r = p) (blocked Q) = blocked Q"
proof (rule leave_id, clarify)
  fix a q assume q: "(a, q) \<in> set (blocked Q)"
  have d: "distinct (map fst (blocked Q))" using assms by (simp add: aq_ok_def)
  have "p \<notin> set q" using wait_of_mem [OF d q] assms(2) by (auto simp: sems_of_def)
  moreover have "q \<noteq> []" using assms(1) q by (auto simp: aq_ok_def)
  ultimately show "q \<noteq> [] \<and> (\<forall>r \<in> set q. r \<noteq> p)" by auto
qed

lemma take_out_step:
  assumes r: "repr s Q" and a: "alive Q p"
  shows "\<exists>s'. rbind (outBlocked (Some p) s) (\<lambda>(removed, s).
      if removed = None then rq_out (Some p) s else Ok (removed, s)) = Ok (Some p, s')
    \<and> repr s' (take_out p Q) \<and> core s' = core (s\<lparr>heap_int := incr_all (sems_of Q p) (heap_int s)\<rparr>)"
proof -
  have ok: "aq_ok Q" by (rule repr_aq_ok [OF r])
  have p: "p < 20" using a by (simp add: alive_def)
  from outBlocked_refines [OF r p] obtain s1 where s1:
    "outBlocked (Some p) s = Ok (if sems_of Q p = {} then None else Some p, s1)"
    "core s1 = core (s\<lparr>heap_int := incr_all (sems_of Q p) (heap_int s)\<rparr>)"
    "repr s1 (Q\<lparr>blocked := leave (\<lambda>a r. r = p) (blocked Q)\<rparr>)" by blast
  show ?thesis
  proof (cases "sems_of Q p = {}")
    case True
    then have "p \<in> set (ready (Q\<lparr>blocked := leave (\<lambda>a r. r = p) (blocked Q)\<rparr>))" using a by (simp add: alive_def)
    from rq_out_repr [OF s1(3) this] s1 True show ?thesis by (auto simp: take_out_def)
  next
    case False
    then have "p \<notin> set (ready Q)" using a by (simp add: alive_def)
    then have "filter (\<lambda>r. r \<noteq> p) (ready Q) = ready Q" by (auto intro!: filter_True)
    then have "take_out p Q = Q\<lparr>blocked := leave (\<lambda>a r. r = p) (blocked Q)\<rparr>" by (simp add: take_out_def)
    with s1 False show ?thesis by auto
  qed
qed

lemma take_out_free:
  assumes "aq_ok Q"
  shows "(take_out p Q)\<lparr>unused := unused Q @ [p]\<rparr> = kill_q [p] Q"
    "occupied (take_out p Q) p = 0"
proof -
  show "(take_out p Q)\<lparr>unused := unused Q @ [p]\<rparr> = kill_q [p] Q" by (simp add: take_out_def kill_q_def)
  have d: "distinct (map fst (blocked Q))" using assms by (simp add: aq_ok_def)
  have "sems_of (take_out p Q) p = {}" by (auto simp: sems_of_def take_out_def wait_of_leave [OF d])
  then show "occupied (take_out p Q) p = 0"
    using occupied_0_distinct [of "take_out p Q" p] leave_distinct [OF d] by (simp add: take_out_def)
qed

lemma incr_all_kill_heap:
  assumes "aq_ok Q"
  shows "incr_all (sems_of Q p) h = kill_heap [p] Q h"
proof (rule ext)
  fix a
  have d: "distinct (map fst (blocked Q))" using assms by (simp add: aq_ok_def)
  have "distinct (wait_of (blocked Q) a)"
  proof (cases "a \<in> fst ` set (blocked Q)")
    case True
    then obtain q where q: "(a, q) \<in> set (blocked Q)" by auto
    with wait_of_mem [OF d q] assms show ?thesis by (auto simp: aq_ok_def)
  qed (simp add: wait_of_miss)
  moreover have "length (filter (\<lambda>r. r = p) ws) = (if p \<in> set ws then 1 else 0)" if "distinct ws" for ws
    using that by (induction ws) (auto simp: filter_empty_conv)
  ultimately have "length (filter (\<lambda>r. r = p) (wait_of (blocked Q) a)) = (if p \<in> set (wait_of (blocked Q) a) then 1 else 0)"
    by blast
  then show "incr_all (sems_of Q p) h a = kill_heap [p] Q h a"
    by (simp add: incr_all_def kill_heap_def sems_of_def)
qed

section \<open>\<open>check_sibling\<close> kills whole subtrees\<close>

text \<open>
  The pointers afterwards: those of the killed processes are null (\<open>D\<close> for \<open>child\<close>,
  \<open>B\<close> for \<open>brother\<close> and \<open>parent\<close>), all others as before.
\<close>

definition cleared :: "kstate \<Rightarrow> nat set \<Rightarrow> nat set \<Rightarrow> kstate \<Rightarrow> bool" where
  "cleared s D B s' \<longleftrightarrow> (\<forall>q. chd s' q = (if q \<in> D then None else chd s q)
     \<and> bro s' q = (if q \<in> B then None else bro s q) \<and> par s' q = (if q \<in> B then None else par s q))"

definition kill_pre :: "kstate \<Rightarrow> aqueues \<Rightarrow> ptree list \<Rightarrow> bool" where
  "kill_pre s Q ts \<longleftrightarrow> repr s Q \<and> distinct (forest_procs ts) \<and> list_all (tree_ok s) ts
     \<and> (\<forall>p \<in> set (forest_procs ts). alive Q p)"

text \<open>The three loops, by how much fuel they are given.\<close>

definition kills_tree :: "nat \<Rightarrow> bool" where
  "kills_tree n \<longleftrightarrow> (\<forall>s Q t. kill_pre s Q [t] \<longrightarrow> 3 * length (procs t) \<le> n \<longrightarrow>
     (\<exists>s'. kill_child n (Some (root t)) s = Ok s' \<and> killed s Q (procs t) s'
       \<and> cleared s (set (procs t)) (set (procs t) - {root t}) s'))"

definition kills_kids :: "nat \<Rightarrow> bool" where
  "kills_kids n \<longleftrightarrow> (\<forall>s Q p ts. kill_pre s Q ts \<longrightarrow> p < 20 \<longrightarrow> p \<notin> set (forest_procs ts) \<longrightarrow> ts \<noteq> []
     \<longrightarrow> kids_ok s p (map root ts) \<longrightarrow> 3 * length (forest_procs ts) + 2 \<le> n \<longrightarrow>
     (\<exists>s'. check_sibling n (Some p) s = Ok s' \<and> killed s Q (forest_procs ts) s'
       \<and> cleared s (insert p (set (forest_procs ts))) (set (forest_procs ts)) s'))"

definition kills_front :: "nat \<Rightarrow> bool" where
  "kills_front n \<longleftrightarrow> (\<forall>s Q ts. kill_pre s Q ts \<longrightarrow> ts \<noteq> [] \<longrightarrow> seg (bro s) (map root ts) None
     \<longrightarrow> (\<forall>r \<in> set (butlast (map root ts)). par s r = None)
     \<longrightarrow> 3 * length (forest_procs ts) + 1 \<le> n \<longrightarrow>
     (\<exists>s'. sibling_loop n (Some (root (hd ts))) s = Ok (Some (root (last ts)), s')
       \<and> killed s Q (forest_procs (butlast ts)) s'
       \<and> cleared s (set (forest_procs (butlast ts))) (set (forest_procs (butlast ts))) s'))"

lemma repr_family [simp]:
  "repr (upd_proc p (\<lambda>e. e\<lparr>parent := q\<rparr>) s) Q = repr s Q"
  "repr (upd_proc p (\<lambda>e. e\<lparr>child := q\<rparr>) s) Q = repr s Q"
  "repr (upd_proc p (\<lambda>e. e\<lparr>brother := q\<rparr>) s) Q = repr s Q"
  by simp_all

lemma killed_family:
  "killed s Q xs (upd_proc p (\<lambda>e. e\<lparr>parent := q\<rparr>) s') = killed s Q xs s'"
  "killed s Q xs (upd_proc p (\<lambda>e. e\<lparr>child := q\<rparr>) s') = killed s Q xs s'"
  "killed s Q xs (upd_proc p (\<lambda>e. e\<lparr>brother := q\<rparr>) s') = killed s Q xs s'"
  "killed (upd_proc p (\<lambda>e. e\<lparr>brother := q\<rparr>) s) Q xs s' = killed s Q xs s'"
  by (simp_all add: killed_def fcore_family)

text \<open>The trees that are left after some of them have been killed are as before.\<close>

lemma kill_pre_rest:
  assumes pre: "kill_pre s Q (us @ ts)" and k: "killed s Q (forest_procs us) s'"
    and c: "cleared s D B s'" "D \<subseteq> set (forest_procs us)" "B \<subseteq> set (forest_procs us)"
  shows "kill_pre s' (kill_q (forest_procs us) Q) ts"
proof -
  have ok: "aq_ok Q" using pre repr_aq_ok by (auto simp: kill_pre_def)
  have d: "distinct (forest_procs ts)" "set (forest_procs us) \<inter> set (forest_procs ts) = {}"
    using pre by (auto simp: kill_pre_def)
  have "tree_ok s' t" if t: "t \<in> set ts" for t
  proof (rule tree_ok_cong)
    show "tree_ok s t" using pre t by (simp add: kill_pre_def list_all_iff)
    show "distinct (procs t)" using d(1) t by (auto simp: distinct_concat_iff)
    fix q assume "q \<in> set (procs t)"
    then have "q \<in> set (forest_procs ts)" using t by auto
    then have "q \<notin> D" "q \<notin> B" using d(2) c(2,3) by blast+
    then show "chd s' q = chd s q" "bro s' q = bro s q \<and> par s' q = par s q"
      using c(1) by (simp_all add: cleared_def)
  qed
  moreover have "alive (kill_q (forest_procs us) Q) p" if "p \<in> set (forest_procs ts)" for p
    using pre that d(2) by (intro alive_kill [OF _ ok]) (auto simp: kill_pre_def)
  ultimately show ?thesis using k d(1) by (auto simp: kill_pre_def killed_def list_all_iff)
qed

lemma kill_take:
  "(kill_q xs (take_out p Q))\<lparr>unused := unused (kill_q xs (take_out p Q)) @ [p]\<rparr> = kill_q (xs @ [p]) Q"
proof -
  have "(\<lambda>a r. r \<in> set xs \<or> r = p) = (\<lambda>(a :: addr) r. r \<in> set (xs @ [p]))" by (auto simp: fun_eq_iff)
  from arg_cong [OF this, of "\<lambda>P. leave P (blocked Q)"]
  have "leave (\<lambda>a r. r \<in> set xs) (leave (\<lambda>a r. r = p) (blocked Q)) = leave (\<lambda>a r. r \<in> set (xs @ [p])) (blocked Q)"
    by (simp only: leave_leave)
  then show ?thesis by (auto simp: kill_q_def take_out_def intro: filter_cong)
qed

lemma kill_heap_take:
  assumes "aq_ok Q" "p \<notin> set xs"
  shows "kill_heap xs (take_out p Q) (kill_heap [p] Q h) = kill_heap (xs @ [p]) Q h"
proof -
  have "kill_heap xs (take_out p Q) = kill_heap xs (kill_q [p] Q)"
    by (auto simp: kill_heap_def fun_eq_iff take_out_def kill_q_def)
  moreover have "kill_heap ([p] @ xs) Q h = kill_heap (xs @ [p]) Q h"
    by (rule ext) (auto simp: kill_heap_def intro: arg_cong [where f = length] filter_cong)
  ultimately show ?thesis
    using kill_heap_append [of Q "[p]" xs h] assms by (simp add: aq_ok_def)
qed

lemma alive_take_out:
  assumes "alive Q q" "aq_ok Q" "q \<noteq> p"
  shows "alive (take_out p Q) q"
  using alive_kill [OF assms(1,2), of "[p]"] assms(3)
  by (simp add: alive_def sems_of_def kill_q_def take_out_def)

lemma kill_q_Nil: "aq_ok Q \<Longrightarrow> kill_q [] Q = Q"
proof -
  assume "aq_ok Q"
  then have "leave (\<lambda>a r. False) (blocked Q) = blocked Q" by (intro leave_id) (auto simp: aq_ok_def)
  then show ?thesis by (simp add: kill_q_def)
qed

lemma killed_Nil: "repr s Q \<Longrightarrow> killed s Q [] s"
  using kill_q_Nil [OF repr_aq_ok] by (simp add: killed_def kill_heap_def fun_eq_iff)

lemma free_dead:
  assumes r: "repr s Q" and p: "p < 20" "p \<notin> set (unused Q)" "p \<notin> set (ready Q)" "sems_of Q p = {}"
  shows "\<exists>s'. freeProc (Some p) s = Ok s' \<and> core s' = core s \<and> repr s' (Q\<lparr>unused := unused Q @ [p]\<rparr>)"
proof -
  have "occupied Q p = 0" using occupied_0 [OF repr_aq_ok [OF r], of p] p(3,4) by simp
  from freeProc_refines [OF r p(1,2) this] show ?thesis .
qed

lemma kids_killed:
  assumes IH: "kills_kids n" and pre: "kill_pre s Q ts" and k: "kids_ok s p (map root ts)"
    and p: "p < 20" "p \<notin> set (forest_procs ts)" and n: "3 * length (forest_procs ts) + 2 \<le> n"
  shows "\<exists>s1. (if child (proc_table s p) = None then Ok s else check_sibling n (Some p) s) = Ok s1
      \<and> killed s Q (forest_procs ts) s1 \<and> cleared s (insert p (set (forest_procs ts))) (set (forest_procs ts)) s1"
proof (cases "ts = []")
  case True
  then have "chd s p = None" using k by (simp add: kids_ok_def)
  moreover have "repr s Q" using pre by (simp add: kill_pre_def)
  ultimately show ?thesis using killed_Nil [of s Q] True by (auto simp: cleared_def chd_def)
next
  case False
  then have "\<exists>s1. check_sibling n (Some p) s = Ok s1 \<and> killed s Q (forest_procs ts) s1
      \<and> cleared s (insert p (set (forest_procs ts))) (set (forest_procs ts)) s1"
    using IH pre k p n unfolding kills_kids_def by blast
  moreover have "child (proc_table s p) \<noteq> None"
    using k False by (auto simp: kids_ok_def chd_def first_of_hd)
  ultimately show ?thesis by auto
qed

lemma kills_tree_Suc:
  assumes IH: "kills_kids n"
  shows "kills_tree (Suc n)"
  unfolding kills_tree_def
proof (intro allI impI)
  fix s Q t assume pre: "kill_pre s Q [t]" and n: "3 * length (procs t) \<le> Suc n"
  obtain p ts where t: "t = PNode p ts" by (cases t)
  let ?S = "forest_procs ts"
  have r: "repr s Q" and al: "\<forall>q \<in> set (?S @ [p]). alive Q q" and d: "distinct ?S" "p \<notin> set ?S"
    and tr: "kids_ok s p (map root ts)" "list_all (tree_ok s) ts"
    using pre by (auto simp: kill_pre_def t)
  have ok: "aq_ok Q" by (rule repr_aq_ok [OF r])
  have p: "p < 20" "p \<notin> set (unused Q)" using al by (auto simp: alive_def)
  from take_out_step [OF r, of p] al obtain rem s0 s1 where s1: "outBlocked (Some p) s = Ok (rem, s0)"
    "(if rem = None then rq_out (Some p) s0 else Ok (rem, s0)) = Ok (Some p, s1)"
    "repr s1 (take_out p Q)" "core s1 = core (s\<lparr>heap_int := incr_all (sems_of Q p) (heap_int s)\<rparr>)"
    by (auto simp: rbind_eq_Ok_iff)
  have h1: "heap_int s1 = kill_heap [p] Q (heap_int s)"
    using core_eqD(1) [OF s1(4)] incr_all_kill_heap [OF ok] by simp
  have f1: "chd s1 = chd s" "par s1 = par s" "bro s1 = bro s" using family_core [OF s1(4)] by simp_all
  have fc1: "fcore s1 = fcore s" using fcore_core [OF s1(4)] by simp
  have "list_all (tree_ok s1) ts"
    using tr(2) d(1) f1 by (auto simp: list_all_iff distinct_concat_iff intro: tree_ok_cong)
  moreover have "alive (take_out p Q) q" if "q \<in> set ?S" for q
    using al that d(2) by (intro alive_take_out [OF _ ok]) auto
  ultimately have "kill_pre s1 (take_out p Q) ts" using s1(3) d(1) by (simp add: kill_pre_def)
  from kids_killed [OF IH this, of p] tr(1) f1 p(1) d(2) n obtain s2 where
    s2: "(if child (proc_table s1 p) = None then Ok s1 else check_sibling n (Some p) s1) = Ok s2"
    "killed s1 (take_out p Q) ?S s2" "cleared s1 (insert p (set ?S)) (set ?S) s2" by (auto simp: kids_ok_def t)
  have d2: "distinct (map fst (blocked Q))" using ok by (simp add: aq_ok_def)
  have "sems_of (kill_q ?S (take_out p Q)) p = {}"
    using leave_distinct [OF d2] by (auto simp: sems_of_def kill_q_def take_out_def wait_of_leave d2)
  with free_dead [of s2 "kill_q ?S (take_out p Q)" p] s2(2) p d(2) obtain s3 where s3:
    "freeProc (Some p) s2 = Ok s3" "core s3 = core s2"
    "repr s3 ((kill_q ?S (take_out p Q))\<lparr>unused := unused (kill_q ?S (take_out p Q)) @ [p]\<rparr>)"
    by (auto simp: killed_def kill_q_def take_out_def)
  have "killed s Q (?S @ [p]) s3"
    using s3 s2(2) core_eqD(1) [OF s3(2)] fcore_core [OF s3(2)] fc1 h1 kill_heap_take [OF ok d(2), of "heap_int s"]
    by (simp add: killed_def kill_take)
  moreover have "cleared s (set (?S @ [p])) (set (?S @ [p]) - {p}) s3"
    using s2(3) f1 family_core [OF s3(2)] d(2) by (auto simp: cleared_def)
  moreover have "kill_child (Suc n) (Some p) s = Ok s3"
    using s1(1,2) s2(1) s3(1) p(1) by (cases "child (proc_table s1 p)") simp_all
  ultimately show "\<exists>s'. kill_child (Suc n) (Some (root t)) s = Ok s' \<and> killed s Q (procs t) s'
       \<and> cleared s (set (procs t)) (set (procs t) - {root t}) s'"
    by (intro exI [of _ s3]) (simp add: t)
qed

lemma kills_kids_Suc:
  assumes IH: "kills_front n" "kills_tree n"
  shows "kills_kids (Suc n)"
  unfolding kills_kids_def
proof (intro allI impI)
  fix s Q p ts
  assume pre: "kill_pre s Q ts" and p: "p < (20::nat)" "p \<notin> set (forest_procs ts)" and ne: "ts \<noteq> []"
    and k: "kids_ok s p (map root ts)" and n: "3 * length (forest_procs ts) + 2 \<le> Suc n"
  let ?us = "butlast ts" and ?t = "last ts"
  have ts: "ts = ?us @ [?t]" using ne by simp
  have S: "forest_procs ts = forest_procs ?us @ procs ?t" by (subst ts) simp
  have r: "repr s Q" and d: "distinct (forest_procs ts)" using pre by (auto simp: kill_pre_def)
  have ok: "aq_ok Q" by (rule repr_aq_ok [OF r])
  have c: "child (proc_table s p) = Some (root (hd ts))"
    using k ne by (simp add: kids_ok_def chd_def [symmetric] first_of_hd hd_map)
  have "\<exists>s1. sibling_loop n (Some (root (hd ts))) s = Ok (Some (root ?t), s1)
       \<and> killed s Q (forest_procs ?us) s1 \<and> cleared s (set (forest_procs ?us)) (set (forest_procs ?us)) s1"
    using IH(1) pre ne k n unfolding kills_front_def kids_ok_def by auto
  then obtain s1 where s1: "sibling_loop n (Some (root (hd ts))) s = Ok (Some (root ?t), s1)"
    "killed s Q (forest_procs ?us) s1" "cleared s (set (forest_procs ?us)) (set (forest_procs ?us)) s1" by blast
  have "kill_pre s (Q) (?us @ [?t])" using pre ts by simp
  from kill_pre_rest [OF this s1(2,3) order_refl order_refl]
  have pre1: "kill_pre s1 (kill_q (forest_procs ?us) Q) [?t]" .
  have "3 * length (procs ?t) \<le> n" using n S by simp
  with IH(2) pre1 obtain s2 where s2: "kill_child n (Some (root ?t)) s1 = Ok s2"
    "killed s1 (kill_q (forest_procs ?us) Q) (procs ?t) s2"
    "cleared s1 (set (procs ?t)) (set (procs ?t) - {root ?t}) s2"
    unfolding kills_tree_def by blast
  have k2: "killed s Q (forest_procs ts) s2"
    unfolding S using killed_trans [OF s1(2) s2(2) ok] d S by simp
  have rt: "root ?t < 20" using pre S by (auto simp: kill_pre_def alive_def)
  let ?s3 = "upd_proc p (\<lambda>e. e\<lparr>child := None\<rparr>) (upd_proc (root ?t) (\<lambda>e. e\<lparr>parent := None\<rparr>) s2)"
  have "check_sibling (Suc n) (Some p) s = Ok ?s3"
    using p(1) c s1(1) s2(1) rt by (simp add: wr_proc_upd)
  moreover have "killed s Q (forest_procs ts) ?s3" using k2 by (simp add: killed_family)
  moreover have "bro s (root ?t) = None"
    using k ne seg_last [of "bro s" "map root ts" None] by (simp add: kids_ok_def last_map)
  then have "cleared s (insert p (set (forest_procs ts))) (set (forest_procs ts)) ?s3"
    using s1(3) s2(3) unfolding S cleared_def by auto
  ultimately show "\<exists>s'. check_sibling (Suc n) (Some p) s = Ok s' \<and> killed s Q (forest_procs ts) s'
       \<and> cleared s (insert p (set (forest_procs ts))) (set (forest_procs ts)) s'" by blast
qed

lemma kill_pre_brother:
  assumes "kill_pre s Q [t]"
  shows "kill_pre (upd_proc (root t) (\<lambda>e. e\<lparr>brother := q\<rparr>) s) Q [t]"
  using assms by (auto simp: kill_pre_def intro: tree_ok_cong)

lemma kills_front_Suc:
  assumes IH: "kills_front n" "kills_tree n"
  shows "kills_front (Suc n)"
  unfolding kills_front_def
proof (intro allI impI)
  fix s Q and ts :: "ptree list"
  assume pre: "kill_pre s Q ts" and ne: "ts \<noteq> []" and sg: "seg (bro s) (map root ts) None"
    and pn: "\<forall>r \<in> set (butlast (map root ts)). par s r = None" and n: "3 * length (forest_procs ts) + 1 \<le> Suc n"
  obtain t us where ts: "ts = t # us" using ne by (cases ts) auto
  have r: "repr s Q" and d: "distinct (forest_procs ts)" and al: "\<forall>q \<in> set (forest_procs ts). alive Q q"
    using pre by (auto simp: kill_pre_def)
  have ok: "aq_ok Q" by (rule repr_aq_ok [OF r])
  have rt: "root t < 20" using al ts by (auto simp: alive_def)
  show "\<exists>s'. sibling_loop (Suc n) (Some (root (hd ts))) s = Ok (Some (root (last ts)), s')
       \<and> killed s Q (forest_procs (butlast ts)) s'
       \<and> cleared s (set (forest_procs (butlast ts))) (set (forest_procs (butlast ts))) s'"
  proof (cases "us = []")
    case True
    then have "brother (proc_table s (root t)) = None" using sg ts by (simp add: bro_def)
    then show ?thesis using True ts rt killed_Nil [OF r] by (auto simp: cleared_def)
  next
    case False
    have b: "brother (proc_table s (root t)) = Some (root (hd us))"
      using sg ts False by (simp add: seg_Cons bro_def first_of_hd hd_map)
    let ?s0 = "upd_proc (root t) (\<lambda>e. e\<lparr>brother := None\<rparr>) s"
    have "kill_pre s Q [t]" using pre ts by (simp add: kill_pre_def)
    from kill_pre_brother [OF this, of None] IH(2) n ts
    have "\<exists>s1. kill_child n (Some (root t)) ?s0 = Ok s1 \<and> killed ?s0 Q (procs t) s1
        \<and> cleared ?s0 (set (procs t)) (set (procs t) - {root t}) s1"
      unfolding kills_tree_def by auto
    then obtain s1 where s1: "kill_child n (Some (root t)) ?s0 = Ok s1" "killed s Q (procs t) s1"
      "cleared ?s0 (set (procs t)) (set (procs t) - {root t}) s1" by (auto simp: killed_family)
    have "par s (root t) = None" using pn ts False by simp
    then have c1: "cleared s (set (procs t)) (set (procs t)) s1"
      using s1(3) by (auto simp: cleared_def)
    have pre1: "kill_pre s1 (kill_q (procs t) Q) us"
      using kill_pre_rest [of s Q "[t]" us s1, OF _ _ c1] pre s1(2) ts by simp
    have nin: "q \<notin> set (procs t)" if "q \<in> set (map root us)" for q
      using that d ts roots_procs [of _ us] by fastforce
    have sg1: "seg (bro s1) (map root us) None"
    proof (rule seg_cong [THEN iffD2])
      show "seg (bro s) (map root us) None" using sg ts by (simp add: seg_Cons)
      show "bro s1 q = bro s q" if "q \<in> set (map root us)" for q
        using c1 nin [OF that] by (simp add: cleared_def)
    qed
    have pn1: "\<forall>r \<in> set (butlast (map root us)). par s1 r = None"
      using pn ts False c1 nin by (auto simp: cleared_def dest: in_set_butlastD)
    have "3 * length (forest_procs us) + 1 \<le> n"
    proof -
      have "1 \<le> length (procs t)" using procs_ne [of t] by (cases "procs t") auto
      moreover have "3 * length (procs t) + 3 * length (forest_procs us) \<le> n" using n ts by simp
      ultimately show ?thesis by linarith
    qed
    with IH(1) pre1 False sg1 pn1 obtain s2 where s2:
      "sibling_loop n (Some (root (hd us))) s1 = Ok (Some (root (last us)), s2)"
      "killed s1 (kill_q (procs t) Q) (forest_procs (butlast us)) s2"
      "cleared s1 (set (forest_procs (butlast us))) (set (forest_procs (butlast us))) s2"
      unfolding kills_front_def by blast
    have disj: "set (procs t) \<inter> set (forest_procs (butlast us)) = {}"
      using d ts by (auto dest: in_set_butlastD)
    have "sibling_loop (Suc n) (Some (root t)) s = Ok (Some (root (last us)), s2)"
      using rt b s1(1) s2(1) by (simp add: wr_proc_upd Let_def)
    moreover have "killed s Q (forest_procs (butlast ts)) s2"
      using killed_trans [OF s1(2) s2(2) ok disj] ts False by simp
    moreover have "cleared s (set (forest_procs (butlast ts))) (set (forest_procs (butlast ts))) s2"
      using c1 s2(3) ts False by (auto simp: cleared_def)
    ultimately show ?thesis using ts False by auto
  qed
qed

lemma kills_all: "kills_front n \<and> kills_tree n \<and> kills_kids n"
proof (induction n)
  case 0
  have "kills_tree 0" by (simp add: kills_tree_def)
  then show ?case by (simp add: kills_front_def kills_kids_def)
next
  case (Suc n)
  then show ?case using kills_front_Suc kills_tree_Suc kills_kids_Suc by blast
qed

end
