(* ===== verification/Trees.thy ===== *)
theory Trees
  imports Family
begin

text \<open>
  Pruning and grafting process trees, as Terminate and Create do; the tree is seen as
  the list of its \<open>edges\<close>, the pairs of a process and the list of its children.
\<close>

fun edges :: "ptree \<Rightarrow> (nat \<times> nat list) list" where
  "edges (PNode p ts) = (p, map root ts) # concat (map edges ts)"

abbreviation forest_edges :: "ptree list \<Rightarrow> (nat \<times> nat list) list" where
  "forest_edges ts \<equiv> concat (map edges ts)"

lemma tree_ok_edges: "tree_ok s t \<longleftrightarrow> (\<forall>(p, rs) \<in> set (edges t). kids_ok s p rs)"
proof (induction t)
  case (PNode p ts)
  then show ?case by (auto simp: list_all_iff)
qed

lemma edges_procs: "(p, rs) \<in> set (edges t) \<Longrightarrow> p \<in> set (procs t) \<and> set rs \<subseteq> set (procs t)"
proof (induction t)
  case (PNode q ts)
  show ?case
  proof (cases "(p, rs) = (q, map root ts)")
    case True
    then show ?thesis using roots_procs [of _ ts] by auto
  next
    case False
    with PNode.prems obtain t where t: "t \<in> set ts" "(p, rs) \<in> set (edges t)" by auto
    from PNode.IH [OF this] t show ?thesis by auto
  qed
qed

lemma forest_edges_procs:
  "(p, rs) \<in> set (forest_edges ts) \<Longrightarrow> p \<in> set (forest_procs ts) \<and> set rs \<subseteq> set (forest_procs ts)"
  using edges_procs by fastforce

lemma root_no_kid:
  assumes "distinct (procs t)" "(p, rs) \<in> set (edges t)"
  shows "root t \<notin> set rs"
proof (cases t)
  case (PNode q ts)
  have "set rs \<subseteq> set (forest_procs ts)"
    using assms(2) roots_procs [of _ ts] forest_edges_procs [of p rs ts] by (auto simp: PNode)
  with assms(1) show ?thesis by (auto simp: PNode)
qed

lemma distinct_forest:
  assumes "distinct (forest_procs (us @ t # ws))"
  shows "distinct (procs t)" "distinct (forest_procs us)" "distinct (forest_procs ws)"
    "set (procs t) \<inter> set (forest_procs (us @ ws)) = {}"
  using assms by auto

lemma distinct_roots:
  assumes "distinct (forest_procs ts)"
  shows "distinct (map root ts)"
  using assms
proof (induction ts)
  case (Cons t ts)
  have "set (procs t) \<inter> set (forest_procs ts) = {}" using Cons.prems by simp
  moreover have "r \<in> set (forest_procs ts)" if "r \<in> set (map root ts)" for r
    using that roots_procs [of _ ts] by auto
  ultimately have "root t \<notin> set (map root ts)" using procs_root [of t] by blast
  with Cons show ?case by simp
qed simp

text \<open>Every process but the root is the child of exactly one process.\<close>

lemma edge_unique:
  assumes "distinct (procs t)" "(p, rs) \<in> set (edges t)" "(q, rs') \<in> set (edges t)"
    and "p = q \<or> r \<in> set rs \<and> r \<in> set rs'"
  shows "p = q \<and> rs = rs'"
  using assms
proof (induction t)
  case (PNode z ts)
  have d: "distinct (forest_procs ts)" "z \<notin> set (forest_procs ts)" using PNode.prems(1) by auto
  have sub: "x = z \<and> ys = map root ts \<or> (\<exists>t \<in> set ts. (x, ys) \<in> set (edges t))"
    if "(x, ys) \<in> set (edges (PNode z ts))" for x ys using that by auto
  have top: False if "t \<in> set ts" "(x, ys) \<in> set (edges t)" "x = z \<or> w \<in> set ys \<and> w \<in> set (map root ts)" for t x ys w
  proof -
    from split_list [OF that(1)] obtain us ws where ts: "ts = us @ t # ws" by blast
    have x: "x \<in> set (procs t)" "set ys \<subseteq> set (procs t)" using edges_procs [OF that(2)] by auto
    have rt: "root t \<notin> set ys" using root_no_kid [OF _ that(2)] d(1) ts by auto
    have disj: "set (procs t) \<inter> set (forest_procs (us @ ws)) = {}"
      using d(1) unfolding ts by (rule distinct_forest(4))
    have "x \<noteq> z" using d(2) that(1) x(1) by auto
    with that(3) have w: "w \<in> set ys" "w \<in> set (map root ts)" by auto
    then have "w \<in> set (map root (us @ ws))" using rt ts by auto
    then have "w \<in> set (forest_procs (us @ ws))" using roots_procs [of _ "us @ ws"] by auto
    with disj w(1) x(2) show False by auto
  qed
  show ?case
  proof (cases "(p, rs) = (z, map root ts) \<or> (q, rs') = (z, map root ts)")
    case True
    then show ?thesis using sub [OF PNode.prems(2)] sub [OF PNode.prems(3)] PNode.prems(4) top by blast
  next
    case False
    then obtain t u where t: "t \<in> set ts" "(p, rs) \<in> set (edges t)" and u: "u \<in> set ts" "(q, rs') \<in> set (edges u)"
      using sub [OF PNode.prems(2)] sub [OF PNode.prems(3)] by blast
    have "\<exists>w. w \<in> set (procs t) \<and> w \<in> set (procs u)"
      using PNode.prems(4) edges_procs [OF t(2)] edges_procs [OF u(2)] by blast
    then have tu: "t = u" using distinct_concat_unique [OF d(1) t(1) u(1)] by blast
    have "distinct (procs t)" using d(1) t(1) by (auto simp: distinct_concat_iff)
    from PNode.IH [OF t(1) this t(2)] u(2) tu PNode.prems(4) show ?thesis by blast
  qed
qed

lemma edges_distinct:
  "distinct (procs t) \<Longrightarrow> (p, rs) \<in> set (edges t) \<Longrightarrow> distinct rs \<and> p \<notin> set rs"
proof (induction t)
  case (PNode z ts)
  have d: "distinct (forest_procs ts)" "z \<notin> set (forest_procs ts)" using PNode.prems(1) by auto
  show ?case
  proof (cases "(p, rs) = (z, map root ts)")
    case True
    then show ?thesis using distinct_roots [OF d(1)] d(2) roots_procs [of _ ts] by auto
  next
    case False
    with PNode.prems(2) obtain t where t: "t \<in> set ts" "(p, rs) \<in> set (edges t)" by auto
    have "distinct (procs t)" using d(1) t(1) by (auto simp: distinct_concat_iff)
    from PNode.IH [OF t(1) this t(2)] show ?thesis .
  qed
qed

lemma edge_of_kid: "c \<in> set (procs t) \<Longrightarrow> c \<noteq> root t \<Longrightarrow> \<exists>p rs. (p, rs) \<in> set (edges t) \<and> c \<in> set rs"
proof (induction t)
  case (PNode z ts)
  then obtain t where t: "t \<in> set ts" "c \<in> set (procs t)" by auto
  show ?case
  proof (cases "c = root t")
    case True
    then show ?thesis using t by (intro exI [of _ z] exI [of _ "map root ts"]) auto
  next
    case False
    from PNode.IH [OF t False] t(1) show ?thesis by auto
  qed
qed

lemma edge_exists: "p \<in> set (procs t) \<Longrightarrow> \<exists>rs. (p, rs) \<in> set (edges t)"
proof (induction t)
  case (PNode z ts)
  then show ?case by (cases "p = z") fastforce+
qed

fun subs :: "ptree \<Rightarrow> ptree list" where
  "subs (PNode p ts) = PNode p ts # concat (map subs ts)"

lemma subs_self [simp]: "t \<in> set (subs t)"
  by (cases t) simp

lemma subs_kid: "u \<in> set (subs t) \<Longrightarrow> t \<in> set ts \<Longrightarrow> u \<in> set (subs (PNode p ts))"
  by auto

lemma subs_edges: "t \<in> set (subs T) \<Longrightarrow> set (edges t) \<subseteq> set (edges T)"
proof (induction T)
  case (PNode z ts)
  show ?case
  proof (cases "t = PNode z ts")
    case False
    with PNode.prems obtain u where u: "u \<in> set ts" "t \<in> set (subs u)" by auto
    from PNode.IH [OF this] u show ?thesis by auto
  qed simp
qed

text \<open>
  The same as operations on trees: \<open>below p\<close> lists the subtree of \<open>p\<close>, \<open>pruned p\<close> cuts it off,
  \<open>adopted p c\<close> makes \<open>c\<close> the last child of \<open>p\<close>.
\<close>

fun adopted :: "nat \<Rightarrow> nat \<Rightarrow> ptree \<Rightarrow> ptree" where
  "adopted p c (PNode r ts) = PNode r (map (adopted p c) ts @ (if r = p then [PNode c []] else []))"

fun below :: "nat \<Rightarrow> ptree \<Rightarrow> nat list" where
  "below p (PNode r ts) = (if r = p then procs (PNode r ts) else concat (map (below p) ts))"

fun pruned :: "nat \<Rightarrow> ptree \<Rightarrow> ptree" where
  "pruned p (PNode r ts) = PNode r (map (pruned p) (filter (\<lambda>t. root t \<noteq> p) ts))"

lemma adopted_other: "p \<notin> set (procs t) \<Longrightarrow> adopted p c t = t"
  by (induction t) (auto intro: map_idI)

lemma below_other: "p \<notin> set (procs t) \<Longrightarrow> below p t = []"
  by (induction t) auto

lemma no_root: "p \<notin> set (forest_procs ts) \<Longrightarrow> filter (\<lambda>t. root t \<noteq> p) ts = ts"
  using roots_procs by (fastforce simp: filter_id_conv)

lemma pruned_other: "p \<notin> set (procs t) \<Longrightarrow> pruned p t = t"
proof (induction t)
  case (PNode r ts)
  then have "filter (\<lambda>t. root t \<noteq> p) ts = ts" by (intro no_root) simp
  with PNode show ?case by (auto intro: map_idI)
qed

lemma forest_other:
  assumes "p \<notin> set (forest_procs ts)"
  shows "map (pruned p) ts = ts" "map (adopted p c) ts = ts" "concat (map (below p) ts) = []"
  using assms by (auto intro!: map_idI pruned_other adopted_other below_other)

text \<open>Only the tree that holds \<open>p\<close> changes in a forest.\<close>

lemma forest_at:
  assumes "p \<notin> set (forest_procs us)" "p \<notin> set (forest_procs ws)"
  shows "pruned p (PNode z (us @ x # ws)) = PNode z (us @ (if root x = p then [] else [pruned p x]) @ ws)"
    "z \<noteq> p \<Longrightarrow> adopted p c (PNode z (us @ x # ws)) = PNode z (us @ adopted p c x # ws)"
    "z \<noteq> p \<Longrightarrow> below p (PNode z (us @ x # ws)) = below p x"
  using assms by (simp_all add: no_root forest_other)

lemma below_sub:
  assumes "distinct (procs T)" "t \<in> set (subs T)"
  shows "below (root t) T = procs t"
  using assms
proof (induction T)
  case (PNode z ts)
  show ?case
  proof (cases "t = PNode z ts")
    case False
    with PNode.prems obtain x where x: "x \<in> set ts" "t \<in> set (subs x)" by auto
    from split_list [OF x(1)] obtain us ws where ts: "ts = us @ x # ws" by blast
    have d: "distinct (forest_procs ts)" "z \<notin> set (forest_procs ts)" using PNode.prems(1) by auto
    have rt: "root t \<in> set (procs x)" using subs_edges [OF x(2)] edges_procs by (cases t) fastforce
    then have o: "root t \<notin> set (forest_procs us)" "root t \<notin> set (forest_procs ws)" "root t \<noteq> z"
      using d ts by auto
    have "below (root t) x = procs t" using d(1) ts by (intro PNode.IH [OF x(1) _ x(2)]) auto
    with forest_at(3) [OF o(1,2), of z x] o(3) show ?thesis unfolding ts by simp
  qed simp
qed

lemma prune_tree:
  assumes "distinct (procs T)" "(p, as @ c # bs) \<in> set (edges T)"
  shows "\<exists>t T'. root t = c \<and> t \<in> set (subs T) \<and> distinct (procs t)
    \<and> root T' = root T \<and> distinct (procs T') \<and> set (procs T) = set (procs T') \<union> set (procs t)
    \<and> set (procs T') \<inter> set (procs t) = {}
    \<and> set (edges T') \<subseteq> insert (p, as @ bs) (set (edges T) - {(p, as @ c # bs)}) \<and> T' = pruned c T"
  using assms
proof (induction T)
  case (PNode z ts)
  have d: "distinct (forest_procs ts)" "z \<notin> set (forest_procs ts)" using PNode.prems(1) by auto
  show ?case
  proof (cases "(p, as @ c # bs) = (z, map root ts)")
    case True
    then obtain us t ws where ts: "ts = us @ t # ws" "map root us = as" "root t = c" "map root ws = bs"
      by (auto simp: append_eq_map_conv Cons_eq_map_conv map_eq_append_conv)
    have no: "(z, ys) \<notin> set (forest_edges ts)" for ys using d(2) forest_edges_procs by blast
    let ?T = "PNode z (us @ ws)"
    have "set (edges ?T) \<subseteq> insert (z, as @ bs) (set (edges (PNode z ts)) - {(z, as @ c # bs)})"
      using no ts by auto
    moreover have "distinct (procs ?T)" using d ts by auto
    moreover have "set (procs ?T) \<inter> set (procs t) = {}" using d ts by auto
    moreover have "t \<in> set (subs (PNode z ts))" using ts by (intro subs_kid [of t t]) auto
    moreover have "pruned c (PNode z ts) = ?T"
      using forest_at(1) [of c us ws z t] d(1) ts procs_root [of t] by auto
    ultimately show ?thesis using True ts d(1)
      by (intro exI [of _ t] exI [of _ ?T]) (auto simp del: subs.simps pruned.simps)
  next
    case False
    with PNode.prems(2) obtain x where x: "x \<in> set ts" "(p, as @ c # bs) \<in> set (edges x)" by auto
    from split_list [OF x(1)] obtain us ws where ts: "ts = us @ x # ws" by blast
    have df: "distinct (procs x)" "set (procs x) \<inter> set (forest_procs (us @ ws)) = {}"
      using d(1) unfolding ts by (rule distinct_forest)+
    from PNode.IH [OF x(1) df(1) x(2)] obtain t x' where t: "root t = c" "t \<in> set (subs x)"
      "distinct (procs t)" "root x' = root x" "distinct (procs x')" "set (procs x) = set (procs x') \<union> set (procs t)"
      "set (procs x') \<inter> set (procs t) = {}"
      "set (edges x') \<subseteq> insert (p, as @ bs) (set (edges x) - {(p, as @ c # bs)})" "x' = pruned c x" by blast
    have px: "p \<in> set (procs x)" using edges_procs [OF x(2)] by blast
    have no: "(p, ys) \<notin> set (forest_edges (us @ ws))" for ys
      using df(2) px forest_edges_procs [of p ys "us @ ws"] by blast
    have pz: "p \<noteq> z" using d(2) px x(1) by auto
    let ?T = "PNode z (us @ x' # ws)"
    have fp: "set (procs x') \<inter> set (forest_procs (us @ ws)) = {}" "set (procs t) \<inter> set (forest_procs (us @ ws)) = {}"
      using df(2) t(6) by blast+
    have e1: "set (edges ?T) = insert (z, map root ts) (set (edges x') \<union> set (forest_edges (us @ ws)))"
      using ts t(4) by auto
    have e2: "set (edges (PNode z ts)) = insert (z, map root ts) (set (edges x) \<union> set (forest_edges (us @ ws)))"
      using ts by auto
    have "set (edges ?T) \<subseteq> insert (p, as @ bs) (set (edges (PNode z ts)) - {(p, as @ c # bs)})"
      unfolding e1 e2 using t(8) no [of "as @ c # bs"] pz by blast
    moreover have "distinct (procs ?T)" using d ts fp(1) t(5,6) by auto
    moreover have "set (procs ?T) \<inter> set (procs t) = {}" using fp(2) t(6,7) d(2) ts by auto
    moreover have "set (procs (PNode z ts)) = set (procs ?T) \<union> set (procs t)" using ts t(6) by auto
    moreover have "pruned c (PNode z ts) = ?T"
      using forest_at(1) [of c us ws z x] edges_procs [OF x(2)] root_no_kid [OF df(1) x(2)] df(2) t(9) ts by auto
    ultimately show ?thesis using t(1,3) subs_kid [OF t(2) x(1)]
      by (intro exI [of _ t] exI [of _ ?T]) (simp del: pruned.simps)
  qed
qed

lemma graft_tree:
  assumes "distinct (procs T)" "(p, rs) \<in> set (edges T)" "n \<notin> set (procs T)"
  shows "\<exists>T'. root T' = root T \<and> distinct (procs T') \<and> set (procs T') = insert n (set (procs T))
    \<and> set (edges T') \<subseteq> {(p, rs @ [n]), (n, [])} \<union> (set (edges T) - {(p, rs)}) \<and> T' = adopted p n T"
  using assms
proof (induction T)
  case (PNode z ts)
  have d: "distinct (forest_procs ts)" "z \<notin> set (forest_procs ts)" using PNode.prems(1) by auto
  show ?case
  proof (cases "(p, rs) = (z, map root ts)")
    case True
    have no: "(z, ys) \<notin> set (forest_edges ts)" for ys using d(2) forest_edges_procs by blast
    let ?T = "PNode z (ts @ [PNode n []])"
    have "set (edges ?T) \<subseteq> {(z, rs @ [n]), (n, [])} \<union> (set (edges (PNode z ts)) - {(z, rs)})"
      using no True by auto
    moreover have "distinct (procs ?T)" using d PNode.prems(3) by auto
    moreover have "adopted p n (PNode z ts) = ?T" using True forest_other(2) [OF d(2)] by simp
    ultimately show ?thesis using True by (intro exI [of _ ?T]) (auto simp del: adopted.simps)
  next
    case False
    with PNode.prems(2) obtain x where x: "x \<in> set ts" "(p, rs) \<in> set (edges x)" by auto
    from split_list [OF x(1)] obtain us ws where ts: "ts = us @ x # ws" by blast
    have df: "distinct (procs x)" "set (procs x) \<inter> set (forest_procs (us @ ws)) = {}"
      using d(1) unfolding ts by (rule distinct_forest)+
    have nx: "n \<notin> set (procs x)" using PNode.prems(3) x(1) by auto
    from PNode.IH [OF x(1) df(1) x(2) nx] obtain x' where t: "root x' = root x" "distinct (procs x')"
      "set (procs x') = insert n (set (procs x))"
      "set (edges x') \<subseteq> {(p, rs @ [n]), (n, [])} \<union> (set (edges x) - {(p, rs)})" "x' = adopted p n x" by blast
    have px: "p \<in> set (procs x)" using edges_procs [OF x(2)] by blast
    have no: "(p, ys) \<notin> set (forest_edges (us @ ws))" for ys
      using df(2) px forest_edges_procs [of p ys "us @ ws"] by blast
    have pz: "p \<noteq> z" using d(2) px x(1) by auto
    let ?T = "PNode z (us @ x' # ws)"
    have e1: "set (edges ?T) = insert (z, map root ts) (set (edges x') \<union> set (forest_edges (us @ ws)))"
      using ts t(1) by auto
    have e2: "set (edges (PNode z ts)) = insert (z, map root ts) (set (edges x) \<union> set (forest_edges (us @ ws)))"
      using ts by auto
    have "set (edges ?T) \<subseteq> {(p, rs @ [n]), (n, [])} \<union> (set (edges (PNode z ts)) - {(p, rs)})"
      unfolding e1 e2 using t(4) no [of rs] pz by blast
    moreover have "distinct (procs ?T)" using d ts df(2) t(2,3) PNode.prems(3) by auto
    moreover have "set (procs ?T) = insert n (set (procs (PNode z ts)))" using ts t(3) by auto
    moreover have "adopted p n (PNode z ts) = ?T"
      using forest_at(2) [of p us ws z n x] df(2) px pz t(5) ts by auto
    ultimately show ?thesis by (intro exI [of _ ?T]) (simp del: adopted.simps)
  qed
qed

end
