(* ===== verification/Lifecycle.thy ===== *)
theory Lifecycle
  imports Trees
begin

text \<open>
  Creation and termination of processes on the process tree: \<open>Create_Process\<close> grafts a
  leaf, \<open>Terminate_Process\<close> prunes the subtree of the running process and removes every
  process in it from every queue.
\<close>

section \<open>The loops over a chain of brothers\<close>

lemma last_brother_seg:
  assumes "seg (bro s) (r # rs) None" "\<forall>q \<in> set (butlast (r # rs)). par s q = None"
    "par s (last (r # rs)) \<noteq> None" "\<forall>q \<in> set (r # rs). q < 20" "length rs < n"
  shows "last_brother n (Some r) s = Ok (Some (last (r # rs)))"
  using assms
proof (induction rs arbitrary: r n)
  case Nil
  then show ?case by (cases n) (auto simp: par_def)
next
  case (Cons q rs)
  then obtain m where n: "n = Suc m" by (cases n) auto
  have "brother (proc_table s r) = Some q" "parent (proc_table s r) = None" "r < 20"
    using Cons.prems by (auto simp: bro_def par_def)
  with Cons.IH [of q m] Cons.prems n show ?case by simp
qed

lemma brother_before_seg:
  assumes "seg (bro s) (r # rs) (Some c)" "c \<notin> set (r # rs)" "\<forall>q \<in> set (r # rs). q < 20" "length rs < n"
  shows "brother_before n (Some r) (Some c) s = Ok (Some (last (r # rs)))"
  using assms
proof (induction rs arbitrary: r n)
  case Nil
  then show ?case by (cases n) (auto simp: bro_def)
next
  case (Cons q rs)
  then obtain m where n: "n = Suc m" by (cases n) auto
  have "brother (proc_table s r) = Some q" "q \<noteq> c" "r < 20"
    using Cons.prems by (auto simp: bro_def)
  with Cons.IH [of q m] Cons.prems n show ?case by simp
qed

lemma distinct_lt_length:
  assumes "distinct xs" "\<forall>x \<in> set xs. x < (n::nat)"
  shows "length xs \<le> n"
proof -
  have "card (set xs) \<le> card {..<n}" using assms(2) by (intro card_mono) auto
  then show ?thesis using distinct_card [OF assms(1)] by simp
qed

section \<open>Leaving the family\<close>

definition fam_frame :: "kstate \<Rightarrow> kstate \<Rightarrow> bool" where
  "fam_frame s t \<longleftrightarrow> same_queues s t \<and> heap_int t = heap_int s \<and> fcore t = fcore s"

lemma fam_frame_refl: "fam_frame s s"
  by (simp add: fam_frame_def)

lemma fam_frame_upd:
  "fam_frame s t \<Longrightarrow> fam_frame s (upd_proc p (\<lambda>e. e\<lparr>parent := q\<rparr>) t)"
  "fam_frame s t \<Longrightarrow> fam_frame s (upd_proc p (\<lambda>e. e\<lparr>child := q\<rparr>) t)"
  "fam_frame s t \<Longrightarrow> fam_frame s (upd_proc p (\<lambda>e. e\<lparr>brother := q\<rparr>) t)"
  using same_queues_trans [of s t] by (auto simp: fam_frame_def fcore_family)

lemmas fam_frame_intros = fam_frame_upd fam_frame_refl

text \<open>\<open>c\<close> has left the children of \<open>p\<close>, which were \<open>as @ c # bs\<close>.\<close>

definition left_family :: "kstate \<Rightarrow> nat \<Rightarrow> nat list \<Rightarrow> nat \<Rightarrow> nat list \<Rightarrow> kstate \<Rightarrow> bool" where
  "left_family s p as c bs t \<longleftrightarrow> kids_ok t p (as @ bs) \<and> par t c = None \<and> bro t c = None
     \<and> (\<forall>q. q \<noteq> p \<longrightarrow> chd t q = chd s q)
     \<and> (\<forall>q. q \<notin> set (as @ c # bs) \<longrightarrow> bro t q = bro s q \<and> par t q = par s q) \<and> fam_frame s t"

lemma leave_family_last:
  assumes k: "kids_ok s p (as @ [c])" and d: "distinct (p # as @ [c])" and r: "\<forall>q \<in> set (p # as @ [c]). q < 20"
  shows "\<exists>t. leave_family (Some c) s = Ok t \<and> left_family s p as c [] t"
proof -
  have c: "parent (proc_table s c) = Some p" "brother (proc_table s c) = None"
    and pn: "\<forall>q \<in> set as. par s q = None" and sg: "seg (bro s) as (Some c)"
    and ch: "child (proc_table s p) = first_of (as @ [c])"
    using k by (auto simp: kids_ok_def par_def bro_def chd_def seg_append)
  show ?thesis
  proof (cases "as = []")
    case True
    let ?t = "upd_proc c (\<lambda>e. e\<lparr>parent := None\<rparr>) (upd_proc p (\<lambda>e. e\<lparr>child := None\<rparr>) s)"
    have "leave_family (Some c) s = Ok ?t"
      using c ch True r by (simp add: leave_family_def wr_proc_upd Let_def)
    moreover have "left_family s p as c [] ?t"
      using True c d by (auto simp: left_family_def kids_ok_def bro_def [symmetric] intro!: fam_frame_intros)
    ultimately show ?thesis by blast
  next
    case False
    then obtain a as' where as: "as = a # as'" by (cases as) auto
    let ?l = "last as"
    have l: "?l \<in> set as" "?l \<noteq> c" "?l < 20" using False d r by (auto simp: as)
    have len: "length as' < 20" using distinct_lt_length [of as 20] d r by (auto simp: as)
    have bb: "brother_before 20 (Some a) (Some c) s = Ok (Some ?l)"
      using brother_before_seg [of s a as' c 20] sg d r len by (auto simp: as)
    let ?t = "upd_proc c (\<lambda>e. e\<lparr>parent := None\<rparr>) (upd_proc ?l (\<lambda>e. e\<lparr>parent := Some p\<rparr>)
      (upd_proc ?l (\<lambda>e. e\<lparr>brother := None\<rparr>) s))"
    have "leave_family (Some c) s = Ok ?t"
      using c ch bb l r d by (auto simp: leave_family_def wr_proc_upd Let_def as)
    moreover have "kids_ok ?t p as"
    proof -
      have "seg ((bro s)(?l := None)) as None" using sg d False by (intro seg_redirect) auto
      moreover have "q \<noteq> ?l" if "q \<in> set (butlast as)" for q
        using that d False by (metis append_butlast_last_id distinct_append distinct.simps(2) distinct_append
            disjoint_iff list.set_intros(1))
      ultimately show ?thesis using l False d k pn
        by (auto simp: kids_ok_def dest: in_set_butlastD)
    qed
    then have "left_family s p as c [] ?t"
      using l c d by (auto simp: left_family_def bro_def [symmetric] intro!: fam_frame_intros)
    ultimately show ?thesis by blast
  qed
qed

lemma leave_family_inner:
  assumes k: "kids_ok s p (as @ c # bs)" and d: "distinct (p # as @ c # bs)"
    and r: "\<forall>q \<in> set (p # as @ c # bs). q < 20" and ne: "bs \<noteq> []"
  shows "\<exists>t. leave_family (Some c) s = Ok t \<and> left_family s p as c bs t"
proof -
  obtain b bs' where bs: "bs = b # bs'" using ne by (cases bs) auto
  have c: "parent (proc_table s c) = None" "brother (proc_table s c) = Some b"
    using k by (auto simp: kids_ok_def par_def bro_def seg_append butlast_append bs)
  have pn: "\<forall>q \<in> set as \<union> set (butlast bs). par s q = None" "par s (last bs) = Some p"
    and sg: "seg (bro s) as (Some c)" "seg (bro s) bs None"
    and ch: "child (proc_table s p) = first_of (as @ [c])"
    using k ne by (auto simp: kids_ok_def chd_def seg_append butlast_append seg_Cons)
  have lb: "last bs \<in> set bs" "last bs < 20" using ne r by auto
  have "length bs' < 20" using distinct_lt_length [of bs 20] d r by (auto simp: bs)
  then have lbr: "last_brother 20 (Some b) s = Ok (Some (last bs))"
    using last_brother_seg [of s b bs' 20] pn sg(2) r by (auto simp: bs)
  have pl: "parent (proc_table s (last bs)) = Some p" using pn(2) by (simp add: par_def)
  show ?thesis
  proof (cases "as = []")
    case True
    let ?t = "upd_proc c (\<lambda>e. e\<lparr>brother := None\<rparr>) (upd_proc p (\<lambda>e. e\<lparr>child := Some b\<rparr>) s)"
    have "leave_family (Some c) s = Ok ?t"
      using c ch True r lbr lb pl by (simp add: leave_family_def wr_proc_upd Let_def)
    moreover have "c \<notin> set bs" using d by simp
    then have "left_family s p as c bs ?t"
      using True c d sg pn ne
      by (auto simp: left_family_def kids_ok_def par_def [symmetric] bs intro!: fam_frame_intros)
    ultimately show ?thesis by blast
  next
    case False
    then obtain a as' where as: "as = a # as'" by (cases as) auto
    let ?l = "last as"
    have l: "?l \<in> set as" "?l \<noteq> c" "?l < 20" using False d r by (auto simp: as)
    then have ln: "?l \<notin> set bs" using d by auto
    have len: "length as' < 20" using distinct_lt_length [of as 20] d r by (auto simp: as)
    have bb: "brother_before 20 (Some a) (Some c) s = Ok (Some ?l)"
      using brother_before_seg [of s a as' c 20] sg(1) d r len by (auto simp: as)
    let ?t = "upd_proc c (\<lambda>e. e\<lparr>brother := None\<rparr>) (upd_proc ?l (\<lambda>e. e\<lparr>brother := Some b\<rparr>) s)"
    have "leave_family (Some c) s = Ok ?t"
      using c ch bb l r d lbr lb pl by (auto simp: leave_family_def wr_proc_upd Let_def as)
    moreover have "seg ((bro s)(?l := Some b)) as (Some b)" using sg d False by (intro seg_redirect) auto
    then have "kids_ok ?t p (as @ bs)"
      using sg(2) pn k False ne ln d l(2) by (auto simp: kids_ok_def seg_append butlast_append bs)
    then have "left_family s p as c bs ?t"
      using l c d by (auto simp: left_family_def par_def [symmetric] intro!: fam_frame_intros)
    ultimately show ?thesis by blast
  qed
qed

lemma leave_family_kid:
  assumes "kids_ok s p (as @ c # bs)" "distinct (p # as @ c # bs)" "\<forall>q \<in> set (p # as @ c # bs). q < 20"
  shows "\<exists>t. leave_family (Some c) s = Ok t \<and> left_family s p as c bs t"
  using assms leave_family_last leave_family_inner by (cases "bs = []") auto

lemma leave_family_root:
  "c < 20 \<Longrightarrow> par s c = None \<Longrightarrow> bro s c = None \<Longrightarrow> leave_family (Some c) s = Ok s"
  by (simp add: leave_family_def par_def bro_def)

section \<open>The system's family\<close>

text \<open>Either there is one tree of all processes in use, or no process is left.\<close>

definition fam_ok :: "kstate \<Rightarrow> aqueues \<Rightarrow> ptree option \<Rightarrow> bool" where
  "fam_ok s Q T \<longleftrightarrow>
     (\<forall>p \<in> set (unused Q). chd s p = None \<and> par s p = None \<and> bro s p = None)
     \<and> (case T of None \<Rightarrow> set (unused Q) = {..<20}
        | Some T \<Rightarrow> tree_ok s T \<and> distinct (procs T) \<and> par s (root T) = None \<and> bro s (root T) = None
            \<and> set (procs T) = {..<20} - set (unused Q))"

definition kinv :: "kstate \<Rightarrow> bool" where
  "kinv s \<longleftrightarrow> (\<exists>Q T. repr s Q \<and> live_ok Q \<and> fam_ok s Q T)"

lemma live_ok_kill:
  assumes ok: "aq_ok Q" and l: "live_ok Q"
  shows "live_ok (kill_q xs Q)"
proof -
  have d: "distinct (map fst (blocked Q))" using ok by (simp add: aq_ok_def)
  have "sems_of (kill_q xs Q) p = sems_of Q p" if "p \<notin> set xs" for p
    using that by (auto simp: sems_of_def wait_of_kill [OF d])
  with l show ?thesis by (auto simp: live_ok_def kill_q_def)
qed

lemma repr_fam_frame: "fam_frame s t \<Longrightarrow> repr t Q = repr s Q"
  by (auto simp: fam_frame_def repr_same_queues)

lemma killed_fam_frame: "fam_frame s t \<Longrightarrow> killed t Q xs u = killed s Q xs u"
  by (simp add: fam_frame_def killed_def)

text \<open>The last part of \<open>Terminate_Process\<close>: kill the children, then the process itself.\<close>

lemma kill_kids:
  assumes r: "repr s Q" and l: "live_ok Q" and t: "tree_ok s (PNode p ts)" "distinct (procs (PNode p ts))"
    and lt: "\<forall>q \<in> set (procs (PNode p ts)). q < 20 \<and> q \<notin> set (unused Q)"
  shows "\<exists>s1. (if child (proc_table s p) = None then Ok s else check_sibling kill_fuel (Some p) s) = Ok s1
      \<and> killed s Q (forest_procs ts) s1 \<and> cleared s (insert p (set (forest_procs ts))) (set (forest_procs ts)) s1"
proof -
  let ?S = "forest_procs ts"
  have dp: "distinct ?S" "p \<notin> set ?S" "p < 20" using t(2) lt by auto
  have k: "kids_ok s p (map root ts)" and lo: "list_all (tree_ok s) ts" using t(1) by auto
  have "\<forall>q \<in> set ?S. alive Q q" using lt live_ok_alive [OF l] by auto
  then have "kill_pre s Q ts" using r dp lo by (simp add: kill_pre_def)
  moreover have "length ?S \<le> 20" using distinct_lt_length [OF dp(1), of 20] lt by auto
  then have "3 * length ?S + 2 \<le> kill_fuel" by (simp add: kill_fuel_def)
  ultimately show ?thesis using kids_killed [OF _ _ k dp(3,2)] kills_all by blast
qed

text \<open>A process that waits nowhere only leaves the ready queue.\<close>

lemma kill_last:
  assumes ok: "aq_ok Q" and sp: "sems_of Q p = {}"
  shows "kill_heap S Q h = kill_heap (S @ [p]) Q h"
    and "(kill_q S Q)\<lparr>ready := filter (\<lambda>r. r \<noteq> p) (ready (kill_q S Q)), unused := unused (kill_q S Q) @ [p]\<rparr> = kill_q (S @ [p]) Q"
proof -
  have dB: "distinct (map fst (blocked Q))" using ok by (simp add: aq_ok_def)
  have np: "\<forall>a. p \<notin> set (wait_of (blocked Q) a)" using sp by (auto simp: sems_of_def)
  have "filter (\<lambda>q. q \<in> set S) (wait_of (blocked Q) a) = filter (\<lambda>q. q \<in> set (S @ [p])) (wait_of (blocked Q) a)" for a
    using np by (intro filter_cong) auto
  then show "kill_heap S Q h = kill_heap (S @ [p]) Q h" by (intro ext) (simp only: kill_heap_def)
  have "leave (\<lambda>a r. r \<in> set S) (blocked Q) = leave (\<lambda>a r. r \<in> set (S @ [p])) (blocked Q)"
    using np wait_of_mem [OF dB] by (intro leave_cong) auto
  then show "(kill_q S Q)\<lparr>ready := filter (\<lambda>r. r \<noteq> p) (ready (kill_q S Q)), unused := unused (kill_q S Q) @ [p]\<rparr> = kill_q (S @ [p]) Q"
    by (auto simp: kill_q_def intro: filter_cong)
qed

lemma kill_self:
  assumes r: "repr s Q" and l: "live_ok Q" and t: "tree_ok s t" "distinct (procs t)"
    and lt: "\<forall>q \<in> set (procs t). q < 20 \<and> q \<notin> set (unused Q)" and c: "root t \<in> set (ready Q)"
  shows "\<exists>s'. rbind (rd_proc s (Some (root t))) (\<lambda>e.
      rbind (if child e = None then Ok s else check_sibling kill_fuel (Some (root t)) s) (\<lambda>s.
      rbind (rq_out (Some (root t)) s) (\<lambda>(removed, s). rbind (freeProc removed s) f))) = f s'
    \<and> killed s Q (procs t) s' \<and> cleared s (set (procs t)) (set (procs t) - {root t}) s'"
proof -
  obtain p ts where t': "t = PNode p ts" by (cases t)
  let ?S = "forest_procs ts"
  have ok: "aq_ok Q" by (rule repr_aq_ok [OF r])
  have dp: "p \<notin> set ?S" and p: "p < 20" "p \<notin> set (unused Q)" "p \<in> set (ready Q)"
    using t(2) lt c by (auto simp: t')
  have sp: "sems_of Q p = {}" using l p(3) by (simp add: live_ok_def)
  from kill_kids [OF r l t [unfolded t'] lt [unfolded t']] obtain s1 where
    s1: "(if child (proc_table s p) = None then Ok s else check_sibling kill_fuel (Some p) s) = Ok s1"
    "killed s Q ?S s1" "cleared s (insert p (set ?S)) (set ?S) s1" by blast
  have r1: "repr s1 (kill_q ?S Q)" using s1(2) by (simp add: killed_def)
  have "p \<in> set (ready (kill_q ?S Q))" using p(3) dp by (simp add: kill_q_def)
  from rq_out_repr [OF r1 this] obtain s2 where s2: "rq_out (Some p) s1 = Ok (Some p, s2)" "core s2 = core s1"
    "repr s2 ((kill_q ?S Q)\<lparr>ready := filter (\<lambda>r. r \<noteq> p) (ready (kill_q ?S Q))\<rparr>)" by blast
  let ?Q2 = "(kill_q ?S Q)\<lparr>ready := filter (\<lambda>r. r \<noteq> p) (ready (kill_q ?S Q))\<rparr>"
  have "distinct (map fst (blocked Q))" using ok by (simp add: aq_ok_def)
  then have "sems_of ?Q2 p = {}" using sp by (simp add: sems_of_def wait_of_kill)
  with free_dead [OF s2(3) p(1)] p(2) dp obtain s3 where s3: "freeProc (Some p) s2 = Ok s3" "core s3 = core s2"
    "repr s3 (?Q2\<lparr>unused := unused ?Q2 @ [p]\<rparr>)" by (auto simp: kill_q_def)
  have "killed s Q (?S @ [p]) s3"
    using s3(3) s1(2) kill_last [OF ok sp] core_eqD(1) [OF s2(2)] core_eqD(1) [OF s3(2)] fcore_core [OF s2(2)] fcore_core [OF s3(2)]
    by (simp add: killed_def)
  moreover have "cleared s (set (?S @ [p])) (set (?S @ [p]) - {p}) s3"
    using s1(3) family_core [OF s2(2)] family_core [OF s3(2)] dp by (auto simp: cleared_def)
  moreover have "rbind (rd_proc s (Some p)) (\<lambda>e.
      rbind (if child e = None then Ok s else check_sibling kill_fuel (Some p) s) (\<lambda>s.
      rbind (rq_out (Some p) s) (\<lambda>(removed, s). rbind (freeProc removed s) f))) = f s3"
    using s1(1) s2(1) s3(1) p(1) by (cases "child (proc_table s p)") simp_all
  ultimately show ?thesis unfolding t' ptree.sel procs.simps by blast
qed

section \<open>Termination\<close>

text \<open>Other processes keep their children when \<open>c\<close> leaves.\<close>

lemma kids_ok_left:
  assumes l: "left_family s p as c bs u" and k: "kids_ok s q rs" and q: "q \<noteq> p"
    and n: "\<And>r. r \<in> set rs \<Longrightarrow> r \<notin> set (as @ c # bs)"
  shows "kids_ok u q rs"
proof (rule kids_ok_cong [OF k])
  show "chd u q = chd s q" using l q by (simp add: left_family_def)
  show "bro u r = bro s r \<and> par u r = par s r" if "r \<in> set rs" for r
    using l n [OF that] unfolding left_family_def by blast
qed

lemma fam_ok_None:
  assumes ok: "aq_ok Q" and f: "fam_ok s Q (Some T)" and c: "cleared s (set (procs T)) (set (procs T) - {root T}) s'"
  shows "fam_ok s' (kill_q (procs T) Q) None"
  using assms by (auto simp: fam_ok_def cleared_def kill_q_def aq_ok_def)

lemma fam_ok_prune:
  assumes f: "fam_ok s Q (Some T)" and e: "(p, as @ c # bs) \<in> set (edges T)"
    and t: "root t = c" "t \<in> set (subs T)" "root T' = root T" "distinct (procs T')"
      "set (procs T) = set (procs T') \<union> set (procs t)" "set (procs T') \<inter> set (procs t) = {}"
      "set (edges T') \<subseteq> insert (p, as @ bs) (set (edges T) - {(p, as @ c # bs)})"
    and l: "left_family s p as c bs u" and cl: "cleared u (set (procs t)) (set (procs t) - {c}) s'"
  shows "fam_ok s' (kill_q (procs t) Q) (Some T')"
proof -
  have d: "distinct (procs T)" and tr: "tree_ok s T" and P: "set (procs T) = {..<20} - set (unused Q)"
    using f by (auto simp: fam_ok_def)
  have ptrs: "chd s' q = chd u q" "bro s' q = bro u q" "par s' q = par u q" if "q \<notin> set (procs t)" for q
    using cl that by (auto simp: cleared_def)
  have old: "bro u q = bro s q" "par u q = par s q" if "q \<notin> set (as @ c # bs)" for q
    using l that by (auto simp: left_family_def)
  have "kids_ok s' q rs" if q: "(q, rs) \<in> set (edges T')" for q rs
  proof -
    have in': "q \<notin> set (procs t)" "\<forall>r \<in> set rs. r \<notin> set (procs t)"
      using edges_procs [OF q] t(6) by blast+
    have "kids_ok u q rs"
    proof (cases "(q, rs) = (p, as @ bs)")
      case False
      then have old_edge: "(q, rs) \<in> set (edges T)" "(q, rs) \<noteq> (p, as @ c # bs)" using t(7) q by auto
      have qp: "q \<noteq> p" using edge_unique [OF d old_edge(1) e] old_edge(2) by blast
      have "r \<notin> set (as @ c # bs)" if "r \<in> set rs" for r
        using edge_unique [OF d old_edge(1) e, of r] that qp by blast
      moreover have "kids_ok s q rs" using tr old_edge(1) by (auto simp: tree_ok_edges)
      ultimately show ?thesis by (intro kids_ok_left [OF l _ qp])
    qed (use l in \<open>simp add: left_family_def\<close>)
    then show ?thesis by (rule kids_ok_cong) (use ptrs in' in simp_all)
  qed
  then have "tree_ok s' T'" by (auto simp: tree_ok_edges)
  moreover have rt: "root T \<notin> set (procs t)" "root T \<notin> set (as @ c # bs)"
    using t(3,6) procs_root [of T'] root_no_kid [OF d e] by auto
  then have "par s' (root T') = None" "bro s' (root T') = None"
    using f t(3) ptrs [OF rt(1)] old [OF rt(2)] by (simp_all add: fam_ok_def)
  moreover have "chd s' q = None \<and> par s' q = None \<and> bro s' q = None" if q: "q \<in> set (unused Q) \<union> set (procs t)" for q
  proof (cases "q \<in> set (procs t)")
    case True
    then show ?thesis using cl l by (auto simp: cleared_def left_family_def)
  next
    case False
    then have qu: "q \<in> set (unused Q)" "q \<notin> set (procs T)" using q P by auto
    moreover have "q \<noteq> p" "q \<notin> set (as @ c # bs)" using edges_procs [OF e] qu(2) by blast+
    ultimately show ?thesis using f ptrs [OF False] old [of q] l by (auto simp: fam_ok_def left_family_def)
  qed
  ultimately show ?thesis using t(4,5,6) P by (auto simp: fam_ok_def kill_q_def)
qed

lemma tree_ok_left:
  assumes d: "distinct (procs T)" and e: "(p, as @ c # bs) \<in> set (edges T)"
    and t: "root t = c" "t \<in> set (subs T)" "distinct (procs t)" and tr: "tree_ok s T" and l: "left_family s p as c bs u"
  shows "tree_ok u t"
proof -
  have "kids_ok u q ys" if q: "(q, ys) \<in> set (edges t)" for q ys
  proof -
    have qT: "(q, ys) \<in> set (edges T)" using q subs_edges [OF t(2)] by blast
    have "c \<notin> set ys" using root_no_kid [OF t(3) q] t(1) by simp
    then have qp: "q \<noteq> p" using edge_unique [OF d qT e] by auto
    have "r \<notin> set (as @ c # bs)" if "r \<in> set ys" for r
      using edge_unique [OF d qT e, of r] that qp by blast
    moreover have "kids_ok s q ys" using tr qT by (auto simp: tree_ok_edges)
    ultimately show ?thesis by (intro kids_ok_left [OF l _ qp])
  qed
  then show ?thesis by (auto simp: tree_ok_edges)
qed

lemma Terminate_refines:
  assumes r: "repr s Q" and l: "live_ok Q" and f: "fam_ok s Q (Some T)" and ne: "ready Q = c # cs"
  shows "\<exists>t s1 T'. Terminate_Process s = schedule s1 \<and> t \<in> set (subs T) \<and> root t = c
    \<and> killed s Q (procs t) s1 \<and> fam_ok s1 (kill_q (procs t) Q) T'
    \<and> T' = (if c = root T then None else Some (pruned c T))"
proof -
  have d: "distinct (procs T)" and tr: "tree_ok s T" and P: "set (procs T) = {..<20} - set (unused Q)"
    using f by (auto simp: fam_ok_def)
  note h = head_alone [OF r l ne]
  have cT: "c \<in> set (procs T)" using P h(2,3) by simp
  have tp: "Terminate_Process s = rbind (leave_family (Some c) s) (\<lambda>s. rbind (rd_proc s (Some c)) (\<lambda>e.
      rbind (if child e = None then Ok s else check_sibling kill_fuel (Some c) s) (\<lambda>s.
      rbind (rq_out (Some c) s) (\<lambda>(removed, s). rbind (freeProc removed s) schedule))))"
    using headQueue_ready [OF r] ne by (simp add: Terminate_Process_def)
  show ?thesis
  proof (cases "c = root T")
    case True
    then have "leave_family (Some c) s = Ok s" using f h(3) by (intro leave_family_root) (auto simp: fam_ok_def)
    moreover have "\<forall>q \<in> set (procs T). q < 20 \<and> q \<notin> set (unused Q)" using P by auto
    with kill_self [OF r l tr d, of schedule] True ne obtain s1 where
      "rbind (rd_proc s (Some c)) (\<lambda>e.
        rbind (if child e = None then Ok s else check_sibling kill_fuel (Some c) s) (\<lambda>s.
        rbind (rq_out (Some c) s) (\<lambda>(removed, s). rbind (freeProc removed s) schedule))) = schedule s1"
      "killed s Q (procs T) s1" "cleared s (set (procs T)) (set (procs T) - {root T}) s1" by auto
    ultimately show ?thesis using tp True fam_ok_None [OF repr_aq_ok [OF r] f]
      by (intro exI [of _ T] exI [of _ s1] exI [of _ None]) simp
  next
    case False
    from edge_of_kid [OF cT False] obtain p rs where "(p, rs) \<in> set (edges T)" "c \<in> set rs" by blast
    then obtain as bs where e: "(p, as @ c # bs) \<in> set (edges T)" by (metis in_set_conv_decomp)
    have k: "kids_ok s p (as @ c # bs)" using tr e by (auto simp: tree_ok_edges)
    have de: "distinct (p # as @ c # bs)" using edges_distinct [OF d e] by simp
    have lt: "\<forall>q \<in> set (p # as @ c # bs). q < 20" using edges_procs [OF e] P by auto
    from leave_family_kid [OF k de lt] obtain u where u: "leave_family (Some c) s = Ok u"
      "left_family s p as c bs u" by blast
    then have fr: "fam_frame s u" by (simp add: left_family_def)
    from prune_tree [OF d e] obtain t T' where t: "root t = c" "t \<in> set (subs T)" "distinct (procs t)"
      "root T' = root T" "distinct (procs T')" "set (procs T) = set (procs T') \<union> set (procs t)"
      "set (procs T') \<inter> set (procs t) = {}"
      "set (edges T') \<subseteq> insert (p, as @ bs) (set (edges T) - {(p, as @ c # bs)})" "T' = pruned c T" by blast
    have tu: "tree_ok u t" by (rule tree_ok_left [OF d e t(1,2,3) tr u(2)])
    have ru: "repr u Q" using repr_fam_frame [OF fr] r by simp
    have "\<forall>q \<in> set (procs t). q < 20 \<and> q \<notin> set (unused Q)" using P t(6) by auto
    with kill_self [OF ru l tu t(3), of schedule] t(1) ne obtain s1 where s1:
      "rbind (rd_proc u (Some c)) (\<lambda>e.
        rbind (if child e = None then Ok u else check_sibling kill_fuel (Some c) u) (\<lambda>s.
        rbind (rq_out (Some c) s) (\<lambda>(removed, s). rbind (freeProc removed s) schedule))) = schedule s1"
      "killed u Q (procs t) s1" "cleared u (set (procs t)) (set (procs t) - {c}) s1" by auto
    have "fam_ok s1 (kill_q (procs t) Q) (Some T')"
      by (rule fam_ok_prune [OF f e t(1,2,4,5,6,7,8) u(2) s1(3)])
    moreover have "killed s Q (procs t) s1" using s1(2) killed_fam_frame [OF fr] by simp
    ultimately show ?thesis using tp u(1) s1(1) t(1,2,9) False
      by (intro exI [of _ t] exI [of _ s1] exI [of _ "Some T'"]) simp
  qed
qed

section \<open>Creation\<close>

text \<open>The part of \<open>Create_Process\<close> that makes \<open>n\<close> the last child of \<open>c\<close>.\<close>

definition adopt :: "nat \<Rightarrow> nat \<Rightarrow> kstate \<Rightarrow> kstate kres" where
  "adopt c n s = rbind (rd_proc s (Some c)) (\<lambda>e.
     if child e = None then
       rbind (wr_proc s (Some c) (\<lambda>e. e\<lparr>child := Some n\<rparr>)) (\<lambda>s.
       wr_proc s (Some n) (\<lambda>e. e\<lparr>parent := Some c\<rparr>))
     else
       rbind (last_brother MAXPROC (child e) s) (\<lambda>first_child.
       rbind (wr_proc s first_child (\<lambda>e. e\<lparr>parent := None\<rparr>)) (\<lambda>s.
       rbind (wr_proc s first_child (\<lambda>e. e\<lparr>brother := Some n\<rparr>)) (\<lambda>s.
       wr_proc s (Some n) (\<lambda>e. e\<lparr>parent := Some c\<rparr>)))))"

definition joined :: "kstate \<Rightarrow> nat \<Rightarrow> nat list \<Rightarrow> nat \<Rightarrow> kstate \<Rightarrow> bool" where
  "joined s c rs n t \<longleftrightarrow> kids_ok t c (rs @ [n]) \<and> (\<forall>q. q \<noteq> c \<longrightarrow> chd t q = chd s q)
     \<and> (\<forall>q. q \<notin> set (rs @ [n]) \<longrightarrow> bro t q = bro s q \<and> par t q = par s q) \<and> fam_frame s t"

lemma adopt_joined:
  assumes k: "kids_ok s c rs" and d: "distinct (c # rs @ [n])" and lt: "\<forall>q \<in> set (c # rs @ [n]). q < 20"
    and n: "bro s n = None"
  shows "\<exists>t. adopt c n s = Ok t \<and> joined s c rs n t"
proof (cases "rs = []")
  case True
  let ?t = "upd_proc n (\<lambda>e. e\<lparr>parent := Some c\<rparr>) (upd_proc c (\<lambda>e. e\<lparr>child := Some n\<rparr>) s)"
  have "adopt c n s = Ok ?t" using k True lt by (simp add: adopt_def kids_ok_def chd_def wr_proc_upd)
  moreover have "joined s c rs n ?t"
    using True n by (auto simp: joined_def kids_ok_def intro!: fam_frame_intros)
  ultimately show ?thesis by blast
next
  case False
  then obtain a rs' where rs: "rs = a # rs'" by (cases rs) auto
  let ?l = "last rs"
  have l: "?l \<in> set rs" "?l \<noteq> n" "?l < 20" using False d lt by (auto simp: rs)
  have len: "length rs' < 20" using distinct_lt_length [of rs 20] d lt by (auto simp: rs)
  have lb: "last_brother 20 (Some a) s = Ok (Some ?l)"
    using last_brother_seg [of s a rs' 20] k lt len by (auto simp: rs kids_ok_def)
  let ?t = "upd_proc n (\<lambda>e. e\<lparr>parent := Some c\<rparr>) (upd_proc ?l (\<lambda>e. e\<lparr>brother := Some n\<rparr>)
    (upd_proc ?l (\<lambda>e. e\<lparr>parent := None\<rparr>) s))"
  have "adopt c n s = Ok ?t"
    using k lt lb l by (simp add: adopt_def kids_ok_def chd_def wr_proc_upd rs)
  moreover have "kids_ok ?t c (rs @ [n])"
  proof -
    have "seg (bro s) rs None" using k by (simp add: kids_ok_def)
    then have "seg ((bro s)(?l := Some n)) rs (Some n)" using d False by (intro seg_redirect) auto
    moreover have "par s r = None" if "r \<in> set rs" "r \<noteq> ?l" for r
      using k that False by (metis kids_ok_def append_butlast_last_id insert_iff list.set(2) rotate1.simps(2) set_rotate1)
    ultimately show ?thesis using l n k False d by (auto simp: kids_ok_def seg_append)
  qed
  then have "joined s c rs n ?t" using l by (auto simp: joined_def intro!: fam_frame_intros)
  ultimately show ?thesis by blast
qed

lemma kids_ok_joined:
  assumes l: "joined s c rs n u" and k: "kids_ok s q ys" and q: "q \<noteq> c"
    and no: "\<And>r. r \<in> set ys \<Longrightarrow> r \<notin> set (rs @ [n])"
  shows "kids_ok u q ys"
proof (rule kids_ok_cong [OF k])
  show "chd u q = chd s q" using l q by (simp add: joined_def)
  show "bro u r = bro s r \<and> par u r = par s r" if "r \<in> set ys" for r
    using l no [OF that] unfolding joined_def by blast
qed

lemma fam_ok_graft:
  assumes f: "fam_ok s Q (Some T)" and e: "(c, rs) \<in> set (edges T)" and u: "unused Q = n # ns"
    and ok: "aq_ok Q" and j: "joined s c rs n t"
  shows "\<exists>T'. fam_ok t (Q\<lparr>unused := ns, ready := xs\<rparr>) (Some T') \<and> root T' = root T \<and> (c, rs @ [n]) \<in> set (edges T')
    \<and> set (procs T') = insert n (set (procs T)) \<and> T' = adopted c n T"
proof -
  have d: "distinct (procs T)" and tr: "tree_ok s T" and P: "set (procs T) = {..<20} - set (unused Q)"
    using f by (auto simp: fam_ok_def)
  have n: "n \<notin> set (procs T)" "n < 20" "n \<notin> set ns" using P u ok by (auto simp: aq_ok_def)
  from graft_tree [OF d e n(1)] obtain T' where T': "root T' = root T" "distinct (procs T')"
    "set (procs T') = insert n (set (procs T))"
    "set (edges T') \<subseteq> {(c, rs @ [n]), (n, [])} \<union> (set (edges T) - {(c, rs)})" "T' = adopted c n T" by blast
  have "kids_ok t q ys" if q: "(q, ys) \<in> set (edges T')" for q ys
  proof -
    consider "(q, ys) = (c, rs @ [n])" | "(q, ys) = (n, [])" | "(q, ys) \<in> set (edges T)" "(q, ys) \<noteq> (c, rs)"
      using q T'(4) by blast
    then show ?thesis
    proof cases
      case 1
      then show ?thesis using j by (simp add: joined_def)
    next
      case 2
      have "n \<noteq> c" using edges_procs [OF e] n(1) by blast
      with 2 show ?thesis using j f u by (auto simp: joined_def kids_ok_def fam_ok_def)
    next
      case 3
      have qc: "q \<noteq> c" using edge_unique [OF d 3(1) e] 3(2) by blast
      have "r \<notin> set (rs @ [n])" if "r \<in> set ys" for r
        using edge_unique [OF d 3(1) e, of r] that qc edges_procs [OF 3(1)] n(1) by auto
      moreover have "kids_ok s q ys" using tr 3(1) by (auto simp: tree_ok_edges)
      ultimately show ?thesis by (intro kids_ok_joined [OF j _ qc])
    qed
  qed
  then have "tree_ok t T'" by (auto simp: tree_ok_edges)
  moreover have rt: "root T \<notin> set (rs @ [n])" using root_no_kid [OF d e] n(1) procs_root [of T] by auto
  then have "par t (root T') = None" "bro t (root T') = None"
    using f j T'(1) by (auto simp: joined_def fam_ok_def)
  moreover have "chd t q = None \<and> par t q = None \<and> bro t q = None" if q: "q \<in> set ns" for q
  proof -
    have "q \<notin> set (procs T)" using P u q by auto
    then have "q \<noteq> c" "q \<notin> set (rs @ [n])" using edges_procs [OF e] n(3) q by auto
    then show ?thesis using f j u q by (auto simp: joined_def fam_ok_def)
  qed
  moreover have "(c, rs @ [n]) \<in> set (edges T')"
  proof -
    have "c \<in> set (procs T')" using T'(3) edges_procs [OF e] by blast
    from edge_exists [OF this] obtain ys where ys: "(c, ys) \<in> set (edges T')" by blast
    have "c \<noteq> n" using edges_procs [OF e] n(1) by blast
    with ys T'(4) edge_unique [OF d e, of c ys] show ?thesis by blast
  qed
  ultimately have "fam_ok t (Q\<lparr>unused := ns, ready := xs\<rparr>) (Some T')" "(c, rs @ [n]) \<in> set (edges T')"
    using T'(1,2,3) P u n by (auto simp: fam_ok_def)
  then show ?thesis using T'(1,3,5) by blast
qed

lemma family_ps [simp]:
  "chd (upd_proc p (\<lambda>e. e\<lparr>p_s := x\<rparr>) s) = chd s" "par (upd_proc p (\<lambda>e. e\<lparr>p_s := x\<rparr>) s) = par s"
  "bro (upd_proc p (\<lambda>e. e\<lparr>p_s := x\<rparr>) s) = bro s"
  by (auto simp: chd_def par_def bro_def fun_eq_iff)

lemma family_state [simp]:
  "chd (s\<lparr>heap_state := h\<rparr>) = chd s" "par (s\<lparr>heap_state := h\<rparr>) = par s" "bro (s\<lparr>heap_state := h\<rparr>) = bro s"
  by (auto simp: chd_def par_def bro_def fun_eq_iff)

lemma fam_ok_cong:
  assumes "fam_ok s Q T" "chd t = chd s" "par t = par s" "bro t = bro s"
  shows "fam_ok t Q T"
proof -
  have "tree_ok t u = tree_ok s u" for u by (simp add: tree_ok_edges kids_ok_def assms)
  then show ?thesis using assms by (simp add: fam_ok_def split: option.splits)
qed

lemma fcore_eqD:
  assumes "fcore s = fcore t"
  shows "heap_state s = heap_state t" "p_s (proc_table s p) = p_s (proc_table t p)"
    "clock_lock_at s = clock_lock_at t" "dev_sem_at s = dev_sem_at t" "print_polls s = print_polls t"
    "cpu_time (proc_table s p) = cpu_time (proc_table t p)" "clock_count s = clock_count t"
proof -
  have e: "heap_state (fcore s) = heap_state (fcore t)" "p_s (proc_table (fcore s) p) = p_s (proc_table (fcore t) p)"
    "clock_lock_at (fcore s) = clock_lock_at (fcore t)" "dev_sem_at (fcore s) = dev_sem_at (fcore t)"
    "print_polls (fcore s) = print_polls (fcore t)"
    "cpu_time (proc_table (fcore s) p) = cpu_time (proc_table (fcore t) p)" "clock_count (fcore s) = clock_count (fcore t)"
    using assms by simp_all
  show "heap_state s = heap_state t" "p_s (proc_table s p) = p_s (proc_table t p)"
    "clock_lock_at s = clock_lock_at t" "dev_sem_at s = dev_sem_at t" "print_polls s = print_polls t"
    "cpu_time (proc_table s p) = cpu_time (proc_table t p)" "clock_count s = clock_count t"
    using e by (simp_all add: fcore_def core_def)
qed

lemma Create_none:
  assumes r: "repr s Q" and u: "unused Q = []" and ne: "ready Q \<noteq> []"
  shows "Create_Process old s = Ok (set_state old (set_reg 2 (- 1) (heap_state s old)) s)"
  using allocProc_none [OF r u] headQueue_ready [OF r] by (simp add: Create_Process_def)

lemma Create_refines:
  assumes r: "repr s Q" and l: "live_ok Q" and f: "fam_ok s Q (Some T)" and ne: "ready Q = c # cs"
    and u: "unused Q = n # ns"
  shows "\<exists>s' T' rs. Create_Process old s = Ok s' \<and> repr s' (Q\<lparr>unused := ns, ready := ready Q @ [n]\<rparr>)
    \<and> live_ok (Q\<lparr>unused := ns, ready := ready Q @ [n]\<rparr>)
    \<and> fam_ok s' (Q\<lparr>unused := ns, ready := ready Q @ [n]\<rparr>) (Some T')
    \<and> (c, rs) \<in> set (edges T) \<and> (c, rs @ [n]) \<in> set (edges T') \<and> root T' = root T \<and> T' = adopted c n T
    \<and> p_s (proc_table s' n) = heap_state s (s_r (heap_state s old) 4)
    \<and> (\<forall>q. q \<noteq> n \<longrightarrow> p_s (proc_table s' q) = p_s (proc_table s q))
    \<and> heap_state s' = (heap_state s)(old := set_reg 2 0 (heap_state s old)) \<and> heap_int s' = heap_int s
    \<and> same_env s s'"
proof -
  note h = head_alone [OF r l ne]
  have ok: "aq_ok Q" by (rule repr_aq_ok [OF r])
  have n: "n < 20" "n \<notin> set ns" "occupied Q n = 0" using ok u by (auto simp: aq_ok_def)
  have d: "distinct (procs T)" and P: "set (procs T) = {..<20} - set (unused Q)" and tr: "tree_ok s T"
    using f by (auto simp: fam_ok_def)
  have nr: "n \<notin> set (ready Q)" "sems_of Q n = {}" using occupied_0 [OF ok, of n] n(3) by auto
  from allocProc_refines [OF r u] obtain s1 where s1: "allocProc s = Ok (Some n, s1)" "core s1 = core s"
    "repr s1 (Q\<lparr>unused := ns\<rparr>)" by blast
  let ?x = "heap_state s (s_r (heap_state s old) 4)"
  let ?s2 = "upd_proc n (\<lambda>e. e\<lparr>p_s := ?x\<rparr>) s1"
  have f2: "chd ?s2 = chd s" "par ?s2 = par s" "bro ?s2 = bro s" using family_core [OF s1(2)] by simp_all
  from edge_exists [of c T] P h(2,3) obtain rs where e: "(c, rs) \<in> set (edges T)" by auto
  have ec: "c \<in> set (procs T)" "set rs \<subseteq> set (procs T)" using edges_procs [OF e] by auto
  have nT: "n \<notin> set (procs T)" using P u by simp
  have dr: "distinct (c # rs @ [n])" using edges_distinct [OF d e] ec nT by auto
  have lt: "\<forall>q \<in> set (c # rs @ [n]). q < 20" using ec P n(1) by auto
  have k2: "kids_ok ?s2 c rs" using tr e by (auto simp: tree_ok_edges kids_ok_def family_core [OF s1(2)])
  have "bro ?s2 n = None" using f u by (simp add: fam_ok_def family_core [OF s1(2)])
  from adopt_joined [OF k2 dr lt this] obtain s3 where s3: "adopt c n ?s2 = Ok s3" "joined ?s2 c rs n s3" by blast
  then have fr: "fam_frame ?s2 s3" by (simp add: joined_def)
  have r3: "repr s3 (Q\<lparr>unused := ns\<rparr>)" using s1(3) repr_fam_frame [OF fr] by simp
  have "can_ready (Q\<lparr>unused := ns\<rparr>) n"
    using n nr by (simp add: can_ready_def occupied_def)
  from rq_insert_repr [OF r3 this, unfolded aqueues.simps] obtain s4 where
    s4: "rq_insert (Some n) s3 = Ok s4" "core s4 = core s3" and
    r4: "repr s4 ((Q\<lparr>unused := ns\<rparr>)\<lparr>ready := ready (Q\<lparr>unused := ns\<rparr>) @ [n]\<rparr>)" by blast
  have s4r: "repr s4 (Q\<lparr>unused := ns, ready := ready Q @ [n]\<rparr>)" using r4 by simp
  have f2': "fam_ok ?s2 Q (Some T)" by (rule fam_ok_cong [OF f f2])
  from fam_ok_graft [OF f2' e u ok s3(2), of "ready Q @ [n]"] obtain T' where T':
    "fam_ok s3 (Q\<lparr>unused := ns, ready := ready Q @ [n]\<rparr>) (Some T')" "root T' = root T"
    "(c, rs @ [n]) \<in> set (edges T')" "T' = adopted c n T" by blast
  let ?s' = "set_state old (set_reg 2 0 (heap_state s4 old)) s4"
  have hs: "heap_state s4 = heap_state s" "heap_int s4 = heap_int s"
    and ps: "p_s (proc_table s4 q) = (if q = n then ?x else p_s (proc_table s q))" for q
    using core_eqD [OF s4(2)] fr core_eqD [OF s1(2)] fcore_eqD [of s3 ?s2]
    by (auto simp: fam_frame_def)
  have en: "same_env s ?s'"
    using core_same(1) [OF s4(2)] fr core_same(1) [OF s1(2)] fcore_eqD [of s3 ?s2]
    by (simp add: fam_frame_def same_env_def)
  have "Create_Process old s = Ok ?s'"
    using s1(1) headQueue_ready [OF s1(3)] ne n(1) h(3) s3(1) s4(1) core_eqD(2) [OF s1(2)]
    by (cases "child (proc_table s1 c)") (auto simp: Create_Process_def adopt_def wr_proc_upd)
  moreover have "repr ?s' (Q\<lparr>unused := ns, ready := ready Q @ [n]\<rparr>)" using s4r by simp
  moreover have "fam_ok ?s' (Q\<lparr>unused := ns, ready := ready Q @ [n]\<rparr>) (Some T')"
    by (rule fam_ok_cong [OF T'(1)]) (use family_core [OF s4(2)] in simp_all)
  moreover have "live_ok (Q\<lparr>unused := ns, ready := ready Q @ [n]\<rparr>)"
    using l u nr(2) by (auto simp: live_ok_def)
  ultimately show ?thesis using e T'(2,3,4) ps hs en
    by (intro exI [of _ ?s'] exI [of _ T'] exI [of _ rs]) simp
qed

end
