(* ===== verification/Semops.thy ===== *)
theory Semops
  imports Lifecycle
begin

text \<open>
  SYS3: a vector of P and V operations, done one after the other on behalf of the
  running process, which is blocked on every semaphore whose P did not succeed. The loop
  refines a fold over the vector on the abstract queues.
\<close>

section \<open>The abstract effect of one operation\<close>

text \<open>The semaphore values and the queues; \<open>c\<close> is the running process.\<close>

fun sem_step :: "nat \<Rightarrow> vpop \<Rightarrow> (addr \<Rightarrow> int32) \<times> aqueues \<Rightarrow> (addr \<Rightarrow> int32) \<times> aqueues" where
  "sem_step c v (h, Q) =
     (let a = vp_sem v in
      if vp_op v = LOCK
      then (h(a := h a - 1), if sint (h a - 1) < 0 then Q\<lparr>blocked := block a c (blocked Q)\<rparr> else Q)
      else (h(a := h a + 1), if sint (h a) < 0 then wake a Q else Q))"

fun ops_at :: "kstate \<Rightarrow> addr \<Rightarrow> nat \<Rightarrow> vpop list" where
  "ops_at s va 0 = []"
| "ops_at s va (Suc n) = heap_vpop s va # ops_at s (va + 8) n"

text \<open>Does some P of the vector block?\<close>

fun some_blocks :: "vpop list \<Rightarrow> (addr \<Rightarrow> int32) \<Rightarrow> bool" where
  "some_blocks [] h = False"
| "some_blocks (v # vs) h =
     (if vp_op v = LOCK
      then sint (h (vp_sem v) - 1) < 0 \<or> some_blocks vs (h(vp_sem v := h (vp_sem v) - 1))
      else some_blocks vs (h(vp_sem v := h (vp_sem v) + 1)))"

text \<open>
  What a vector must satisfy: distinct semaphores, none of them the null address, on
  which the process does not wait, at most as many as the process has free queue links and
  as there are free descriptors.
\<close>

definition sem_pre :: "nat \<Rightarrow> vpop list \<Rightarrow> aqueues \<Rightarrow> bool" where
  "sem_pre c vs Q \<longleftrightarrow> c < 20 \<and> c \<notin> set (unused Q) \<and> distinct (map vp_sem vs)
     \<and> (\<forall>v \<in> set vs. vp_sem v \<noteq> ENULL_addr \<and> c \<notin> set (wait_of (blocked Q) (vp_sem v)))
     \<and> occupied Q c + length vs \<le> 10 \<and> length (blocked Q) + length vs \<le> 20"

lemma length_block: "length (block a c B) \<le> Suc (length B)"
  by (induction B) auto

lemma length_leave: "length (leave P B) \<le> length B"
  unfolding leave_def by (rule order_trans [OF length_filter_le]) simp

lemma wake_simps:
  "unused (wake a Q) = unused Q" "length (blocked (wake a Q)) \<le> length (blocked Q)"
  "ready (wake a Q) = ready Q @ (case wait_of (blocked Q) a of [] \<Rightarrow> []
     | p # ps \<Rightarrow> if occupied (Q\<lparr>blocked := leave (\<lambda>b r. b = a \<and> r = p) (blocked Q)\<rparr>) p = 0 then [p] else [])"
  by (auto simp: wake_def Let_def length_leave split: list.splits)

lemma count_leave_other:
  "c \<noteq> p \<Longrightarrow> count_list (concat (map snd (leave (\<lambda>b r. b = a \<and> r = p) B))) c = count_list (concat (map snd B)) c"
proof (induction B)
  case (Cons e B)
  obtain b q where e: "e = (b, q)" by (cases e)
  have cf: "count_list (filter (\<lambda>r. \<not> (X \<and> r = p)) q) c = count_list q c" for X
    using Cons.prems by (induction q) auto
  have "leave (\<lambda>b r. b = a \<and> r = p) (e # B)
      = leave (\<lambda>b r. b = a \<and> r = p) [e] @ leave (\<lambda>b r. b = a \<and> r = p) B"
    using leave_append [of _ "[e]" B] by simp
  moreover have "count_list (concat (map snd (leave (\<lambda>b r. b = a \<and> r = p) [e]))) c = count_list (snd e) c"
    using cf [of "b = a"] by (cases "filter (\<lambda>r. \<not> (b = a \<and> r = p)) q = []") (simp_all add: leave_def e)
  ultimately show ?case using Cons by simp
qed (simp add: leave_def)

lemma occupied_wake:
  assumes "c \<notin> set (wait_of (blocked Q) a)"
  shows "occupied (wake a Q) c = occupied Q c"
proof (cases "wait_of (blocked Q) a")
  case (Cons p ps)
  then have "c \<noteq> p" using assms by auto
  then show ?thesis using Cons by (simp add: wake_def Let_def occupied_def count_leave_other)
qed (simp add: wake_def)

lemma occupied_block: "occupied (Q\<lparr>blocked := block a p (blocked Q)\<rparr>) c = occupied Q c + (if c = p then 1 else 0)"
  by (simp add: occupied_def count_block)

lemma sem_pre_step:
  assumes pre: "sem_pre c (v # vs) Q" and ok: "aq_ok Q"
  shows "sem_pre c vs (snd (sem_step c v (h, Q)))"
proof -
  let ?a = "vp_sem v"
  have ne: "\<forall>w \<in> set vs. vp_sem w \<noteq> ?a" using pre unfolding sem_pre_def by (metis distinct.simps(2) image_eqI list.set_map list.simps(9))
  have c: "c \<notin> set (wait_of (blocked Q) ?a)" using pre by (simp add: sem_pre_def)
  have "sem_pre c vs (Q\<lparr>blocked := block ?a c (blocked Q)\<rparr>)"
    using pre ne length_block [of ?a c "blocked Q"] by (auto simp: sem_pre_def wait_of_block occupied_block)
  moreover have "sem_pre c vs (wake ?a Q)"
    using pre ne c wake_simps(1,2) [of ?a Q]
    by (auto simp: sem_pre_def wait_of_wake [OF ok] occupied_wake intro: order_trans)
  moreover have "sem_pre c vs Q" using pre by (auto simp: sem_pre_def)
  ultimately show ?thesis by (simp add: Let_def)
qed

section \<open>The loop refines the fold\<close>

lemma ops_at_core: "heap_vpop t = heap_vpop s \<Longrightarrow> ops_at t va n = ops_at s va n"
  by (induction n arbitrary: va) auto

text \<open>Everything else: nothing but the state saved in the entry of \<open>c\<close> changes.\<close>

definition sem_frame :: "nat \<Rightarrow> addr \<Rightarrow> kstate \<Rightarrow> kstate \<Rightarrow> bool" where
  "sem_frame c old s t \<longleftrightarrow> heap_state t = heap_state s \<and> heap_vpop t = heap_vpop s
     \<and> chd t = chd s \<and> par t = par s \<and> bro t = bro s
     \<and> clock_lock_at t = clock_lock_at s \<and> dev_sem_at t = dev_sem_at s \<and> print_polls t = print_polls s
     \<and> (\<forall>p. p_s (proc_table t p) = p_s (proc_table s p) \<or> p = c \<and> p_s (proc_table t p) = heap_state s old)"

lemma sem_frame_refl: "sem_frame c old s s"
  by (simp add: sem_frame_def)

lemma sem_frame_trans: "sem_frame c old s t \<Longrightarrow> sem_frame c old t u \<Longrightarrow> sem_frame c old s u"
  unfolding sem_frame_def by metis

lemma sem_frame_core: "core t = core s \<Longrightarrow> sem_frame c old s t"
  by (auto simp: sem_frame_def family_core [of t s] dest: core_eqD core_proc_eqD)

lemma sem_frame_int: "sem_frame c old s (set_int a v s)"
  by (simp add: sem_frame_def)

lemma sem_frame_ps: "sem_frame c old s (upd_proc c (\<lambda>e. e\<lparr>p_s := heap_state s old\<rparr>) s)"
  by (auto simp: sem_frame_def)

lemma sem_block_step:
  assumes r: "repr s Q" and pre: "sem_pre c (v # vs) Q"
  shows "\<exists>s'. insertBlocked (vp_sem v) (Some c) s = Ok (False, s') \<and> core s' = core s
    \<and> repr s' (Q\<lparr>blocked := block (vp_sem v) c (blocked Q)\<rparr>)"
proof -
  have "can_block Q (vp_sem v) c" "\<not> asl_full Q (vp_sem v)"
    using pre by (auto simp: sem_pre_def can_block_def asl_full_def)
  from insertBlocked_refines [OF r this] show ?thesis .
qed

lemma sem_loop_Suc:
  assumes "c < 20"
  shows "sem_loop (Suc n) va (Some c) old flag s =
     (if vp_op (heap_vpop s va) = LOCK then
        if sint (heap_int s (vp_sem (heap_vpop s va)) - 1) < 0 then
          rbind (insertBlocked (vp_sem (heap_vpop s va)) (Some c)
              (upd_proc c (\<lambda>e. e\<lparr>p_s := heap_state s old\<rparr>)
                (set_int (vp_sem (heap_vpop s va)) (heap_int s (vp_sem (heap_vpop s va)) - 1) s)))
            (\<lambda>(full, s). sem_loop n (va + 8) (Some c) old True s)
        else sem_loop n (va + 8) (Some c) old flag
          (set_int (vp_sem (heap_vpop s va)) (heap_int s (vp_sem (heap_vpop s va)) - 1) s)
      else if sint (heap_int s (vp_sem (heap_vpop s va))) < 0 then
        rbind (wake_step (vp_sem (heap_vpop s va))
            (set_int (vp_sem (heap_vpop s va)) (heap_int s (vp_sem (heap_vpop s va)) + 1) s))
          (\<lambda>s. sem_loop n (va + 8) (Some c) old flag s)
      else sem_loop n (va + 8) (Some c) old flag
        (set_int (vp_sem (heap_vpop s va)) (heap_int s (vp_sem (heap_vpop s va)) + 1) s))"
  using assms
  by (cases "removeBlocked (vp_sem (heap_vpop s va))
      (set_int (vp_sem (heap_vpop s va)) (heap_int s (vp_sem (heap_vpop s va)) + 1) s)")
    (auto simp: Let_def wr_proc_upd wake_step_def rbind_assoc)

text \<open>The first operation of a vector.\<close>

lemma sem_loop_first:
  fixes s va defines "v \<equiv> heap_vpop s va"
  defines "b \<equiv> some_blocks [v] (heap_int s)"
  assumes r: "repr s Q" and pre: "sem_pre c (v # vs) Q"
  shows "\<exists>t. sem_loop (Suc n) va (Some c) old flag s = sem_loop n (va + 8) (Some c) old (flag \<or> b) t
    \<and> heap_int t = fst (sem_step c v (heap_int s, Q)) \<and> repr t (snd (sem_step c v (heap_int s, Q)))
    \<and> sem_frame c old s t \<and> (b \<longrightarrow> p_s (proc_table t c) = heap_state s old)"
proof -
  define a where "a = vp_sem v"
  define x where "x = heap_int s a"
  have c: "c < 20" using pre by (simp add: sem_pre_def)
  have b: "b \<longleftrightarrow> vp_op v = LOCK \<and> sint (x - 1) < 0" by (simp add: b_def Let_def a_def x_def)
  note loop = sem_loop_Suc [OF c, of n va old flag s, folded v_def, folded a_def, folded x_def]
  consider (pass) "vp_op v = LOCK" "\<not> sint (x - 1) < 0" | (block) "vp_op v = LOCK" "sint (x - 1) < 0"
    | (up) "vp_op v \<noteq> LOCK" "\<not> sint x < 0" | (wake) "vp_op v \<noteq> LOCK" "sint x < 0" by blast
  then show ?thesis
  proof cases
    case pass
    then show ?thesis
      by (intro exI [of _ "set_int a (x - 1) s"])
        (use loop r in \<open>simp_all add: Let_def a_def x_def sem_frame_int b\<close>)
  next
    case block
    let ?s1 = "upd_proc c (\<lambda>e. e\<lparr>p_s := heap_state s old\<rparr>) (set_int a (x - 1) s)"
    have "repr ?s1 Q" using r by simp
    from sem_block_step [OF this pre] obtain t where t: "insertBlocked a (Some c) ?s1 = Ok (False, t)"
      "core t = core ?s1" "repr t (Q\<lparr>blocked := Blocking.block a c (blocked Q)\<rparr>)" by (auto simp: a_def)
    have "sem_frame c old s ?s1"
      using sem_frame_trans [OF sem_frame_int sem_frame_ps, of c old s a "x - 1"] by simp
    then have fr: "sem_frame c old s t" by (rule sem_frame_trans [OF _ sem_frame_core [OF t(2)]])
    with block show ?thesis
      by (intro exI [of _ t]) (use loop t core_eqD [OF t(2)] in \<open>simp_all add: Let_def a_def x_def b\<close>)
  next
    case up
    then show ?thesis
      by (intro exI [of _ "set_int a (x + 1) s"])
        (use loop r in \<open>simp_all add: Let_def a_def x_def sem_frame_int b\<close>)
  next
    case wake
    have "repr (set_int a (x + 1) s) Q" using r by simp
    from wake_step_repr [OF this, of a] obtain t where t: "wake_step a (set_int a (x + 1) s) = Ok t"
      "core t = core (set_int a (x + 1) s)" "repr t (Interrupts.wake a Q)" by blast
    with wake show ?thesis
      by (intro exI [of _ t])
        (use loop core_eqD [OF t(2)] sem_frame_trans [OF sem_frame_int sem_frame_core [OF t(2)]]
          in \<open>simp_all add: Let_def a_def x_def b\<close>)
  qed
qed

lemma some_blocks_step:
  "some_blocks (v # vs) h \<longleftrightarrow> some_blocks [v] h \<or> some_blocks vs (fst (sem_step c v (h, Q)))"
  by (simp add: Let_def)

lemma sem_loop_refines:
  assumes "repr s Q" "sem_pre c (ops_at s va n) Q"
  shows "\<exists>s'. sem_loop n va (Some c) old flag s = Ok (flag \<or> some_blocks (ops_at s va n) (heap_int s), s')
    \<and> heap_int s' = fst (fold (sem_step c) (ops_at s va n) (heap_int s, Q))
    \<and> repr s' (snd (fold (sem_step c) (ops_at s va n) (heap_int s, Q))) \<and> sem_frame c old s s'
    \<and> (some_blocks (ops_at s va n) (heap_int s) \<longrightarrow> p_s (proc_table s' c) = heap_state s old)"
  using assms
proof (induction n arbitrary: va flag s Q)
  case 0
  then show ?case by (simp add: sem_frame_refl)
next
  case (Suc n)
  let ?v = "heap_vpop s va" and ?vs = "ops_at s (va + 8) n"
  let ?b = "some_blocks [?v] (heap_int s)" and ?Q = "snd (sem_step c ?v (heap_int s, Q))"
  have pre: "sem_pre c (?v # ?vs) Q" using Suc.prems(2) by simp
  from sem_loop_first [OF Suc.prems(1) pre, of n old flag] obtain t where t:
    "sem_loop (Suc n) va (Some c) old flag s = sem_loop n (va + 8) (Some c) old (flag \<or> ?b) t"
    "heap_int t = fst (sem_step c ?v (heap_int s, Q))" "repr t ?Q" "sem_frame c old s t"
    "?b \<longrightarrow> p_s (proc_table t c) = heap_state s old" by blast
  have hv: "ops_at t (va + 8) n = ?vs" using t(4) by (intro ops_at_core) (simp add: sem_frame_def)
  have "sem_pre c (ops_at t (va + 8) n) ?Q"
    unfolding hv by (rule sem_pre_step [OF pre repr_aq_ok [OF Suc.prems(1)]])
  from Suc.IH [OF t(3) this, of "flag \<or> ?b"] obtain s' where s':
    "sem_loop n (va + 8) (Some c) old (flag \<or> ?b) t = Ok ((flag \<or> ?b) \<or> some_blocks ?vs (heap_int t), s')"
    "heap_int s' = fst (fold (sem_step c) ?vs (sem_step c ?v (heap_int s, Q)))"
    "repr s' (snd (fold (sem_step c) ?vs (sem_step c ?v (heap_int s, Q))))" "sem_frame c old t s'"
    "some_blocks ?vs (heap_int t) \<longrightarrow> p_s (proc_table s' c) = heap_state t old"
    unfolding hv t(2) prod.collapse by blast
  have sb: "some_blocks (?v # ?vs) (heap_int s) \<longleftrightarrow> ?b \<or> some_blocks ?vs (heap_int t)"
    unfolding t(2) by (rule some_blocks_step)
  have "p_s (proc_table s' c) = heap_state s old" if "?b \<or> some_blocks ?vs (heap_int t)"
    using that s'(4,5) t(4,5) unfolding sem_frame_def by metis
  with t(1) s' sb sem_frame_trans [OF t(4) s'(4)] show ?case
    by (intro exI [of _ s']) (simp only: ops_at.simps fold_simps disj_assoc, blast)
qed

section \<open>No process is lost by a vector of operations\<close>

text \<open>While the loop runs, the caller is at the head of the ready queue and may also wait.\<close>

definition sem_mid :: "nat \<Rightarrow> aqueues \<Rightarrow> bool" where
  "sem_mid c Q \<longleftrightarrow> live_but {c} Q \<and> first_of (ready Q) = Some c"

lemma sem_mid_step:
  assumes m: "sem_mid c Q" and pre: "sem_pre c (v # vs) Q" and ok: "aq_ok Q"
  shows "sem_mid c (snd (sem_step c v (h, Q)))"
proof -
  have "live_but {c} (wake (vp_sem v) Q)"
    using m pre by (intro live_but_wake [OF ok]) (auto simp: sem_mid_def sem_pre_def)
  moreover have "first_of (ready (wake (vp_sem v) Q)) = Some c"
    using m by (cases "ready Q") (auto simp: sem_mid_def wake_simps(3))
  moreover have "live_but {c} (Q\<lparr>blocked := block (vp_sem v) c (blocked Q)\<rparr>)"
  proof -
    have "sems_of (Q\<lparr>blocked := block (vp_sem v) c (blocked Q)\<rparr>) p = sems_of Q p" if "p \<noteq> c" for p
      using that by (auto simp: sems_of_def wait_of_block split: if_splits)
    with m show ?thesis by (simp add: sem_mid_def live_but_def)
  qed
  ultimately show ?thesis using m by (simp add: Let_def sem_mid_def)
qed

lemma sems_of_step:
  assumes "sem_pre c (v # vs) Q" "aq_ok Q"
  shows "sems_of (snd (sem_step c v (h, Q))) c
    = sems_of Q c \<union> (if vp_op v = LOCK \<and> sint (h (vp_sem v) - 1) < 0 then {vp_sem v} else {})"
proof -
  have "c \<notin> set (wait_of (blocked Q) (vp_sem v))" using assms(1) by (simp add: sem_pre_def)
  then have "sems_of (wake (vp_sem v) Q) c = sems_of Q c"
    using list.set_sel(2) [of "wait_of (blocked Q) (vp_sem v)"]
    by (cases "wait_of (blocked Q) (vp_sem v)") (auto simp: sems_of_def wait_of_wake [OF assms(2)] split: if_splits)
  moreover have "sems_of (Q\<lparr>blocked := block (vp_sem v) c (blocked Q)\<rparr>) c = insert (vp_sem v) (sems_of Q c)"
    by (auto simp: sems_of_def wait_of_block split: if_splits)
  ultimately show ?thesis by (simp add: Let_def)
qed

text \<open>All facts about the whole vector that the system call rests on, by induction on it;
  the abstract state stays well-formed because the loop represents it.\<close>

lemma sem_fold:
  assumes "repr s Q" "sem_pre c (ops_at s va n) Q" "sem_mid c Q"
    and "fold (sem_step c) (ops_at s va n) (heap_int s, Q) = (h', Q')"
  shows "sem_mid c Q' \<and> unused Q' = unused Q
    \<and> (sems_of Q' c = {} \<longleftrightarrow> sems_of Q c = {} \<and> \<not> some_blocks (ops_at s va n) (heap_int s))"
  using assms
proof (induction n arbitrary: va s Q)
  case (Suc n)
  let ?v = "heap_vpop s va"
  let ?Q1 = "snd (sem_step c ?v (heap_int s, Q))" and ?h1 = "fst (sem_step c ?v (heap_int s, Q))"
  have ok: "aq_ok Q" by (rule repr_aq_ok [OF Suc.prems(1)])
  have pre: "sem_pre c (?v # ops_at s (va + 8) n) Q" using Suc.prems(2) by simp
  have "sem_pre c (ops_at s va 1) Q" using pre by (auto simp: sem_pre_def)
  from sem_loop_refines [OF Suc.prems(1) this, of undefined False] obtain t where t:
    "heap_int t = ?h1" "repr t ?Q1" "sem_frame c undefined s t" by auto
  have hv: "ops_at t (va + 8) n = ops_at s (va + 8) n" using t(3) by (intro ops_at_core) (simp add: sem_frame_def)
  have "sem_mid c Q' \<and> unused Q' = unused ?Q1
    \<and> (sems_of Q' c = {} \<longleftrightarrow> sems_of ?Q1 c = {} \<and> \<not> some_blocks (ops_at s (va + 8) n) ?h1)"
    using Suc.IH [OF t(2), of "va + 8"] sem_pre_step [OF pre ok] sem_mid_step [OF Suc.prems(3) pre ok]
      Suc.prems(4) t(1) unfolding hv by simp
  moreover have "unused ?Q1 = unused Q" by (simp add: Let_def wake_simps)
  ultimately show ?case using sems_of_step [OF pre ok, of "heap_int s"] by (simp add: Let_def)
qed simp

lemma live_ok_blocked:
  assumes ok: "aq_ok Q" and m: "sem_mid c Q" and b: "sems_of Q c \<noteq> {}"
  shows "live_ok (Q\<lparr>ready := tl (ready Q)\<rparr>)"
proof -
  obtain cs where cs: "ready Q = c # cs" using m by (auto simp: sem_mid_def first_of_eq_Some)
  have "distinct (c # cs)" using ok cs by (simp add: aq_ok_def)
  then show ?thesis using m b cs by (auto simp: sem_mid_def live_ok_def live_but_def)
qed

lemma live_ok_passed: "sem_mid c Q \<Longrightarrow> sems_of Q c = {} \<Longrightarrow> live_ok Q"
  by (cases "ready Q") (auto simp: sem_mid_def live_ok_def live_but_def)

text \<open>The system call: the caller goes on when all P have passed, and otherwise leaves the
  ready queue with its state saved.\<close>

lemma Sem_OP_refines:
  assumes r: "repr s Q" and l: "live_ok Q" and ne: "ready Q = c # cs"
    and vs: "vs = ops_at s (s_r (heap_state s old) 4) (nat (sint (s_r (heap_state s old) 3)))"
    and pre: "sem_pre c vs Q" and f: "fold (sem_step c) vs (heap_int s, Q) = (h', Q')"
  shows "\<exists>s'. heap_int s' = h' \<and> sem_frame c old s s'
    \<and> (if some_blocks vs (heap_int s)
       then Sem_OP old s = schedule s' \<and> repr s' (Q'\<lparr>ready := tl (ready Q')\<rparr>)
         \<and> live_ok (Q'\<lparr>ready := tl (ready Q')\<rparr>) \<and> p_s (proc_table s' c) = heap_state s old
       else Sem_OP old s = Ok s' \<and> repr s' Q' \<and> live_ok Q')
    \<and> unused Q' = unused Q \<and> first_of (ready Q') = Some c"
proof -
  let ?n = "nat (sint (s_r (heap_state s old) 3))" and ?va = "s_r (heap_state s old) 4"
  have mid: "sem_mid c Q" using l ne by (auto simp: sem_mid_def live_but_def live_ok_def)
  have sc: "sems_of Q c = {}" using l ne by (simp add: live_ok_def)
  from sem_loop_refines [OF r pre [unfolded vs], of old False] f obtain s1 where s1:
    "sem_loop ?n ?va (Some c) old False s = Ok (some_blocks vs (heap_int s), s1)" "heap_int s1 = h'"
    "repr s1 Q'" "sem_frame c old s s1" "some_blocks vs (heap_int s) \<longrightarrow> p_s (proc_table s1 c) = heap_state s old"
    by (auto simp: vs)
  have post: "sem_mid c Q'" "unused Q' = unused Q" "sems_of Q' c = {} \<longleftrightarrow> \<not> some_blocks vs (heap_int s)"
    using sem_fold [OF r pre [unfolded vs] mid f [unfolded vs]] sc by (simp_all add: vs)
  have ok: "aq_ok Q'" by (rule repr_aq_ok [OF s1(3)])
  obtain cs' where cs': "ready Q' = c # cs'" using post(1) by (auto simp: sem_mid_def first_of_eq_Some)
  have body: "Sem_OP old s = (if some_blocks vs (heap_int s) then rbind (rq_remove s1) (\<lambda>(_, s). schedule s) else Ok s1)"
    using headQueue_ready [OF r] ne s1(1) by (simp add: Sem_OP_def)
  show ?thesis
  proof (cases "some_blocks vs (heap_int s)")
    case True
    from rq_remove_repr [OF s1(3) cs'] obtain s2 where s2: "rq_remove s1 = Ok (Some c, s2)" "core s2 = core s1"
      "repr s2 (Q'\<lparr>ready := cs'\<rparr>)" by blast
    have "live_ok (Q'\<lparr>ready := tl (ready Q')\<rparr>)" using live_ok_blocked [OF ok post(1)] post(3) True by simp
    with True body s1 s2 cs' post(2) core_eqD [OF s2(2)] sem_frame_trans [OF s1(4) sem_frame_core [OF s2(2)]]
    show ?thesis by (intro exI [of _ s2]) simp
  next
    case False
    with body s1 cs' post live_ok_passed [OF post(1)] show ?thesis by (intro exI [of _ s1]) simp
  qed
qed

end
