(* ===== verification/Nucleus.thy ===== *)
theory Nucleus
  imports Semops Traps
begin

text \<open>
  The nucleus as a whole. Its invariant \<open>nuc_ok\<close> joins the queue structures, the rule that
  no process is lost, the family tree and the meaning of the semaphores the nucleus keeps for
  itself; every handler, run to the point where control leaves it, ends in a state with
  the invariant, and the system starts in one. The runs of the machine are then an
  interpretation of the locale \<open>machine\<close>.
\<close>

section \<open>The invariant\<close>

definition nuc_sems :: "kstate \<Rightarrow> addr set" where
  "nuc_sems s = insert (clock_lock_at s) (dev_sem s ` {..<15})"

definition nuc_ok :: "kstate \<Rightarrow> aqueues \<Rightarrow> ptree option \<Rightarrow> bool" where
  "nuc_ok s Q T \<longleftrightarrow> repr s Q \<and> live_ok Q \<and> fam_ok s Q T
     \<and> (\<forall>a \<in> nuc_sems s. a \<noteq> ENULL_addr \<and> sem_ok s Q a) \<and> print_polls s \<noteq> None"

text \<open>
  What may come out of a handler: a state is loaded and a process is at the head of the
  ready queue; or the processor sleeps, no process is ready and an interrupt is awaited; or the
  machine halts. Invalid addresses, endless loops and panics are excluded.
\<close>

fun outcome_ok :: "exit \<Rightarrow> bool" where
  "outcome_ok (LDST st s) = (\<exists>Q T. nuc_ok s Q T \<and> ready Q \<noteq> [])"
| "outcome_ok (SLEEP s) = (\<exists>Q T. nuc_ok s Q T \<and> ready Q = [] \<and> (clock_waits s Q \<or> dev_waits s Q))"
| "outcome_ok (HALTED s) = (\<exists>Q T. nuc_ok s Q T)"
| "outcome_ok (PANIC msg) = False"
| "outcome_ok FAULT = False"
| "outcome_ok HANG = False"

fun done_ok :: "kstate kres \<Rightarrow> bool" where
  "done_ok (Ok s) = (\<exists>Q T. nuc_ok s Q T \<and> ready Q \<noteq> [])"
| "done_ok (Exit e) = outcome_ok e"

lemma nuc_sems_env: "same_env s t \<Longrightarrow> nuc_sems t = nuc_sems s"
  by (simp add: same_env_def nuc_sems_def dev_sem_def)

lemma fam_ok_same:
  assumes "fam_ok s Q T" "same_family s t" "unused Q' = unused Q"
  shows "fam_ok t Q' T"
proof -
  have "fam_ok t Q T" by (rule fam_ok_cong [OF assms(1)])
    (use assms(2) in \<open>simp_all add: same_family_def chd_def par_def bro_def fun_eq_iff\<close>)
  with assms(3) show ?thesis by (simp add: fam_ok_def split: option.splits)
qed

lemma nuc_okD:
  assumes "nuc_ok s Q T"
  shows "repr s Q" "live_ok Q" "fam_ok s Q T" "print_polls s \<noteq> None" "aq_ok Q"
    and "a \<in> nuc_sems s \<Longrightarrow> a \<noteq> ENULL_addr" "a \<in> nuc_sems s \<Longrightarrow> sem_ok s Q a"
  using assms repr_aq_ok by (auto simp: nuc_ok_def)

text \<open>The next state, with its own queues and family, in the surroundings of the last.\<close>

lemma nuc_ok_next:
  assumes n: "nuc_ok s Q T" and e: "same_env s t" and r: "repr t Q'" "live_ok Q'" "fam_ok t Q' T'"
    and so: "\<And>a. a \<in> nuc_sems s \<Longrightarrow> sem_ok t Q' a"
  shows "nuc_ok t Q' T'"
  using assms nuc_okD [OF n] by (auto simp: nuc_ok_def nuc_sems_env [OF e]) (simp add: same_env_def)

lemma nuc_ok_same:
  assumes n: "nuc_ok s Q T" and q: "same_queues s t" and f: "same_family s t" and e: "same_env s t"
    and h: "\<And>a. a \<in> nuc_sems s \<Longrightarrow> heap_int t a = heap_int s a"
  shows "nuc_ok t Q T"
proof (rule nuc_ok_next [OF n e _ _ fam_ok_same [OF nuc_okD(3) [OF n] f]])
  show "repr t Q" using nuc_okD(1) [OF n] repr_same_queues [OF q] by simp
  show "live_ok Q" by (rule nuc_okD(2) [OF n])
  show "sem_ok t Q a" if "a \<in> nuc_sems s" for a
    using nuc_okD(7) [OF n that] h [OF that] by (simp add: sem_ok_def)
qed simp

lemma same_family_fields [simp]:
  "same_family s (s\<lparr>clock_reads := n\<rparr>)" "same_family s (s\<lparr>interval_timer := v\<rparr>)"
  "same_family s (s\<lparr>heap_int := hi\<rparr>)" "same_family s (s\<lparr>heap_state := hs\<rparr>)"
  "same_family s (s\<lparr>devreg := dr\<rparr>)" "same_family s (s\<lparr>save_arr := sv'\<rparr>)"
  "same_family s (s\<lparr>clock_count := cc\<rparr>)" "same_family s (s\<lparr>print_buf := b\<rparr>)"
  by (simp_all add: same_family_def)

lemma same_env_fields [simp]:
  "same_env s (s\<lparr>clock_reads := n\<rparr>)" "same_env s (s\<lparr>interval_timer := v\<rparr>)"
  "same_env s (s\<lparr>heap_int := hi\<rparr>)" "same_env s (s\<lparr>heap_state := hs\<rparr>)"
  "same_env s (s\<lparr>devreg := dr\<rparr>)" "same_env s (s\<lparr>save_arr := sv'\<rparr>)"
  "same_env s (s\<lparr>clock_count := cc\<rparr>)" "same_env s (s\<lparr>print_buf := b\<rparr>)" "same_env s (upd_proc p f s)"
  by (simp_all add: same_env_def)

text \<open>An update of an entry that leaves its place in the family alone.\<close>

definition keeps_family :: "(proc_t \<Rightarrow> proc_t) \<Rightarrow> bool" where
  "keeps_family f \<longleftrightarrow> (\<forall>e. parent (f e) = parent e \<and> child (f e) = child e \<and> brother (f e) = brother e)"

lemma keeps_family_simps [simp]:
  "keeps_family (\<lambda>e. e\<lparr>p_s := x\<rparr>)" "keeps_family (\<lambda>e. e\<lparr>start_t := t\<rparr>)"
  "keeps_family (\<lambda>e. e\<lparr>cpu_time := g e\<rparr>)" "keeps_family (\<lambda>e. e\<lparr>p_s := set_reg i v (p_s e)\<rparr>)"
  "keeps_family (\<lambda>e. e\<lparr>prog_old := a, prog_new := b\<rparr>)"
  "keeps_family (\<lambda>e. e\<lparr>memory_management_old := a, memory_management_new := b\<rparr>)"
  "keeps_family (\<lambda>e. e\<lparr>system_call_old := a, system_call_new := b\<rparr>)"
  by (simp_all add: keeps_family_def)

lemma same_family_upd_proc [simp]: "keeps_family f \<Longrightarrow> same_family s (upd_proc p f s)"
  by (auto simp: same_family_def keeps_family_def upd_proc_def)

lemma nuc_ok_upd [intro]:
  "nuc_ok s Q T \<Longrightarrow> keeps_queue f \<Longrightarrow> keeps_family f \<Longrightarrow> nuc_ok (upd_proc p f s) Q T"
  by (rule nuc_ok_same [of s]) simp_all

lemma nuc_ok_fields [intro]:
  "nuc_ok s Q T \<Longrightarrow> nuc_ok (s\<lparr>clock_reads := n\<rparr>) Q T" "nuc_ok s Q T \<Longrightarrow> nuc_ok (s\<lparr>interval_timer := v\<rparr>) Q T"
  "nuc_ok s Q T \<Longrightarrow> nuc_ok (s\<lparr>heap_state := hs\<rparr>) Q T" "nuc_ok s Q T \<Longrightarrow> nuc_ok (s\<lparr>devreg := dr\<rparr>) Q T"
  "nuc_ok s Q T \<Longrightarrow> nuc_ok (s\<lparr>print_buf := b\<rparr>) Q T"
  by (rule nuc_ok_same [of s], assumption, simp_all)+

lemma nuc_ok_running:
  assumes "nuc_ok s Q T" "ready Q = c # cs"
  obtains T' where "T = Some T'"
proof (cases T)
  case None
  have "c \<notin> set (unused Q)" "c < 20" using head_alone(2,3) [OF nuc_okD(1,2) [OF assms(1)] assms(2)] by auto
  then show ?thesis using nuc_okD(3) [OF assms(1)] None by (auto simp: fam_ok_def)
qed (rule that)

lemma done_okI: "nuc_ok s Q T \<Longrightarrow> ready Q = c # cs \<Longrightarrow> done_ok (Ok s)"
  by auto

lemma loaded_okI: "nuc_ok s Q T \<Longrightarrow> ready Q = c # cs \<Longrightarrow> outcome_ok (LDST st s)"
  by auto

lemma done_okE:
  assumes "done_ok (Ok s)"
  obtains Q T c cs where "nuc_ok s Q T" "ready Q = c # cs"
  using assms by (auto simp: neq_Nil_conv)

declare done_ok.simps(1) [simp del] outcome_ok.simps(1) [simp del]

lemma done_state:
  assumes "nuc_ok s Q T" "ready Q = c # cs"
  shows "done_ok (Ok (set_state old x s))"
  by (rule done_okI [OF nuc_ok_fields(3) [OF assms(1)] assms(2)])

section \<open>The dispatcher\<close>

lemma dispatched_ok:
  assumes "nuc_ok s Q T"
  shows "nuc_ok (dispatched p s) Q T"
  unfolding dispatched_def
  by (rule nuc_ok_upd [OF nuc_ok_fields(1) [OF nuc_ok_fields(2) [OF assms]]]) simp_all

lemma schedule_exits:
  assumes n: "nuc_ok s Q T"
  shows "\<exists>e. schedule s = Exit e \<and> outcome_ok e"
proof (cases "ready Q")
  case (Cons p ps)
  then show ?thesis
    using schedule_ready(1) [OF nuc_okD(1) [OF n] Cons] loaded_okI [OF dispatched_ok [OF n] Cons] by simp
next
  case Nil
  have "nuc_ok (intschedule s) Q T" "nuc_ok (printed k s) Q T" for k
    using n by (auto simp: intschedule_def printed_def)
  then show ?thesis
    using n Nil nuc_okD(4) [OF n]
    by (auto simp: schedule_idle [OF nuc_okD(1) [OF n] Nil] intdeadlock_cases [OF nuc_okD(1) [OF n]]
        intschedule_def clock_waits_def dev_waits_def dev_sem_def)
qed

lemma schedule_done: "nuc_ok s Q T \<Longrightarrow> done_ok (schedule s)"
  using schedule_exits by fastforce

section \<open>Termination and creation of processes\<close>

lemma sint_add_nat32:
  fixes x :: int32
  assumes "sint x + int k \<le> 0"
  shows "sint (x + of_nat k) = sint x + int k"
  using assms
proof (induction k)
  case (Suc k)
  have e: "x + of_nat (Suc k) = (x + of_nat k) + 1" by simp
  show ?case unfolding e using Suc by (subst sint_inc32) auto
qed simp

lemma sem_ok_kill:
  assumes so: "sem_ok s Q a" and ok: "aq_ok Q" and h: "heap_int t = kill_heap xs Q (heap_int s)"
  shows "sem_ok t (kill_q xs Q) a"
proof -
  let ?w = "wait_of (blocked Q) a" and ?k = "length (filter (\<lambda>p. p \<in> set xs) (wait_of (blocked Q) a))"
  have d: "distinct (map fst (blocked Q))" using ok by (simp add: aq_ok_def)
  have len: "length (filter (\<lambda>p. p \<notin> set xs) ?w) + ?k = length ?w"
    using sum_length_filter_compl [of "\<lambda>p. p \<in> set xs" ?w] by simp
  have v: "heap_int t a = heap_int s a + of_nat ?k" by (simp add: h kill_heap_def)
  show ?thesis
  proof (cases "sint (heap_int s a) < 0")
    case True
    then have "int (length ?w) = - sint (heap_int s a)" using so by (simp add: sem_ok_def)
    moreover from this len have "sint (heap_int t a) = sint (heap_int s a) + int ?k"
      unfolding v by (intro sint_add_nat32) linarith
    ultimately show ?thesis using len
      by (auto simp: sem_ok_def wait_of_kill [OF d] simp flip: length_0_conv)
  next
    case False
    then have "?w = []" using so by (simp add: sem_ok_def)
    then show ?thesis using False v by (simp add: sem_ok_def wait_of_kill [OF d])
  qed
qed

text \<open>SYS2 in the terms of the invariant: the caller's whole subtree \<open>t\<close> is killed.\<close>

lemma Terminate_ok:
  assumes n: "nuc_ok s Q (Some T)" and ne: "ready Q = c # cs"
  shows "\<exists>t s1 T'. Terminate_Process s = schedule s1 \<and> t \<in> set (subs T) \<and> root t = c
    \<and> killed s Q (procs t) s1 \<and> nuc_ok s1 (kill_q (procs t) Q) T'
    \<and> T' = (if c = root T then None else Some (pruned c T))"
proof -
  from Terminate_refines [OF nuc_okD(1-3) [OF n] ne] obtain t s1 T' where
    s1: "Terminate_Process s = schedule s1" "killed s Q (procs t) s1" "fam_ok s1 (kill_q (procs t) Q) T'"
      "t \<in> set (subs T)" "root t = c" "T' = (if c = root T then None else Some (pruned c T))" by blast
  then have k: "repr s1 (kill_q (procs t) Q)" "heap_int s1 = kill_heap (procs t) Q (heap_int s)" "fcore s1 = fcore s"
    by (simp_all add: killed_def)
  have "nuc_ok s1 (kill_q (procs t) Q) T'"
  proof (rule nuc_ok_next [OF n _ k(1) _ s1(3)])
    show "same_env s s1" using fcore_eqD [OF k(3)] by (simp add: same_env_def)
    show "live_ok (kill_q (procs t) Q)" by (rule live_ok_kill [OF nuc_okD(5,2) [OF n]])
    show "sem_ok s1 (kill_q (procs t) Q) a" if "a \<in> nuc_sems s" for a
      by (rule sem_ok_kill [OF nuc_okD(7) [OF n that] nuc_okD(5) [OF n] k(2)])
  qed
  with s1 show ?thesis by blast
qed

lemma Terminate_exits:
  assumes n: "nuc_ok s Q T" and ne: "ready Q = c # cs"
  shows "\<exists>e. Terminate_Process s = Exit e \<and> outcome_ok e"
proof -
  obtain T0 where T: "T = Some T0" using nuc_ok_running [OF n ne] .
  from Terminate_ok [OF n [unfolded T] ne] obtain s1 Q1 T1 where
    "Terminate_Process s = schedule s1" "nuc_ok s1 Q1 T1" by blast
  with schedule_exits show ?thesis by simp
qed

lemma Create_ok:
  assumes n: "nuc_ok s Q (Some T)" and ne: "ready Q = c # cs" and u: "unused Q = m # ms"
  shows "\<exists>s' T' rs. Create_Process old s = Ok s' \<and> nuc_ok s' (Q\<lparr>unused := ms, ready := ready Q @ [m]\<rparr>) (Some T')
    \<and> (c, rs) \<in> set (edges T) \<and> (c, rs @ [m]) \<in> set (edges T') \<and> root T' = root T \<and> T' = adopted c m T
    \<and> p_s (proc_table s' m) = heap_state s (s_r (heap_state s old) 4)
    \<and> (\<forall>q. q \<noteq> m \<longrightarrow> p_s (proc_table s' q) = p_s (proc_table s q))
    \<and> heap_state s' = (heap_state s)(old := set_reg 2 0 (heap_state s old)) \<and> heap_int s' = heap_int s"
proof -
  let ?Q = "Q\<lparr>unused := ms, ready := ready Q @ [m]\<rparr>"
  from Create_refines [OF nuc_okD(1-3) [OF n] ne u, of old] obtain s' T' rs where
    s': "Create_Process old s = Ok s'" "repr s' ?Q" "live_ok ?Q" "fam_ok s' ?Q (Some T')"
      "heap_int s' = heap_int s" "same_env s s'"
    and r: "(c, rs) \<in> set (edges T)" "(c, rs @ [m]) \<in> set (edges T')" "root T' = root T" "T' = adopted c m T"
      "p_s (proc_table s' m) = heap_state s (s_r (heap_state s old) 4)"
      "\<forall>q. q \<noteq> m \<longrightarrow> p_s (proc_table s' q) = p_s (proc_table s q)"
      "heap_state s' = (heap_state s)(old := set_reg 2 0 (heap_state s old))" by blast
  have "nuc_ok s' ?Q (Some T')"
    by (rule nuc_ok_next [OF n s'(6) s'(2,3,4)]) (use nuc_okD(7) [OF n] s'(5) in \<open>simp add: sem_ok_def\<close>)
  with s' r show ?thesis by blast
qed

lemma Create_done:
  assumes n: "nuc_ok s Q T" and ne: "ready Q = c # cs"
  shows "done_ok (Create_Process old s)"
proof (cases "unused Q")
  case Nil
  show ?thesis using done_state [OF n ne] Create_none [OF nuc_okD(1) [OF n] Nil, of old] ne by simp
next
  case (Cons m ms)
  obtain T0 where T: "T = Some T0" using nuc_ok_running [OF n ne] .
  from Create_ok [OF n [unfolded T] ne Cons, of old] obtain s' T' where
    "Create_Process old s = Ok s'" "nuc_ok s' (Q\<lparr>unused := ms, ready := ready Q @ [m]\<rparr>) (Some T')" by blast
  then show ?thesis using ne by (auto intro: done_okI)
qed

section \<open>Semaphores\<close>

text \<open>A vector of operations of a process on its own semaphores leaves those of the nucleus alone.\<close>

lemma sem_step_other:
  assumes "aq_ok Q" "vp_sem v \<noteq> a"
  shows "fst (sem_step c v (h, Q)) a = h a"
    "wait_of (blocked (snd (sem_step c v (h, Q)))) a = wait_of (blocked Q) a"
  using assms by (auto simp: Let_def wait_of_block wait_of_wake)

lemma sem_fold_other:
  assumes "repr s Q" "sem_pre c (ops_at s va n) Q" "\<forall>v \<in> set (ops_at s va n). vp_sem v \<noteq> a"
    and "fold (sem_step c) (ops_at s va n) (heap_int s, Q) = (h', Q')"
  shows "h' a = heap_int s a \<and> wait_of (blocked Q') a = wait_of (blocked Q) a"
  using assms
proof (induction n arbitrary: va s Q)
  case (Suc n)
  let ?v = "heap_vpop s va"
  let ?Q1 = "snd (sem_step c ?v (heap_int s, Q))" and ?h1 = "fst (sem_step c ?v (heap_int s, Q))"
  have ok: "aq_ok Q" by (rule repr_aq_ok [OF Suc.prems(1)])
  have pre: "sem_pre c (?v # ops_at s (va + 8) n) Q" using Suc.prems(2) by simp
  have "sem_pre c (ops_at s va 1) Q" using pre by (auto simp: sem_pre_def)
  from sem_loop_refines [OF Suc.prems(1) this, of undefined False] obtain t where t:
    "heap_int t = ?h1" "repr t ?Q1" "sem_frame c undefined s t" by auto
  have hv: "ops_at t (va + 8) n = ops_at s (va + 8) n" using t(3) by (intro ops_at_core) (simp add: sem_frame_def)
  have "h' a = heap_int t a \<and> wait_of (blocked Q') a = wait_of (blocked ?Q1) a"
    by (rule Suc.IH [OF t(2), of "va + 8"])
      (use sem_pre_step [OF pre ok] Suc.prems(3,4) t(1) in \<open>simp_all add: hv\<close>)
  then show ?case using sem_step_other [OF ok, of ?v a c "heap_int s"] Suc.prems(3) t(1) by simp
qed simp

definition sem_guard :: "kstate \<Rightarrow> aqueues \<Rightarrow> nat \<Rightarrow> vpop list \<Rightarrow> bool" where
  "sem_guard s Q c vs \<longleftrightarrow> sem_pre c vs Q \<and> (\<forall>v \<in> set vs. vp_sem v \<notin> nuc_sems s)"

definition sem_args :: "kstate \<Rightarrow> addr \<Rightarrow> vpop list" where
  "sem_args s old = ops_at s (s_r (heap_state s old) 4) (nat (sint (s_r (heap_state s old) 3)))"

lemma sem_frame_same: "sem_frame c old s t \<Longrightarrow> same_env s t \<and> same_family s t"
  by (simp add: sem_frame_def same_env_def same_family_def chd_def par_def bro_def fun_eq_iff)

lemma Sem_OP_ok:
  assumes n: "nuc_ok s Q T" and ne: "ready Q = c # cs" and g: "sem_guard s Q c (sem_args s old)"
    and f: "fold (sem_step c) (sem_args s old) (heap_int s, Q) = (h', Q')"
  shows "\<exists>s'. heap_int s' = h' \<and> first_of (ready Q') = Some c
    \<and> (if some_blocks (sem_args s old) (heap_int s)
       then Sem_OP old s = schedule s' \<and> nuc_ok s' (Q'\<lparr>ready := tl (ready Q')\<rparr>) T \<and> p_s (proc_table s' c) = heap_state s old
       else Sem_OP old s = Ok s' \<and> nuc_ok s' Q' T)"
proof -
  have pre: "sem_pre c (sem_args s old) Q" using g by (simp add: sem_guard_def)
  from Sem_OP_refines [OF nuc_okD(1,2) [OF n] ne sem_args_def pre f]
  obtain s' where s': "heap_int s' = h'" "sem_frame c old s s'" "unused Q' = unused Q"
      "first_of (ready Q') = Some c"
    and B: "some_blocks (sem_args s old) (heap_int s) \<Longrightarrow> Sem_OP old s = schedule s' \<and> p_s (proc_table s' c) = heap_state s old
      \<and> repr s' (Q'\<lparr>ready := tl (ready Q')\<rparr>) \<and> live_ok (Q'\<lparr>ready := tl (ready Q')\<rparr>)"
    and P: "\<not> some_blocks (sem_args s old) (heap_int s) \<Longrightarrow> Sem_OP old s = Ok s' \<and> repr s' Q' \<and> live_ok Q'"
    by (auto split: if_splits)
  have en: "same_env s s'" "same_family s s'" using sem_frame_same [OF s'(2)] by auto
  have so: "sem_ok s' (Q'\<lparr>ready := xs\<rparr>) a" if "a \<in> nuc_sems s" for a xs
  proof -
    have "h' a = heap_int s a \<and> wait_of (blocked Q') a = wait_of (blocked Q) a"
      by (rule sem_fold_other [OF nuc_okD(1) [OF n] pre [unfolded sem_args_def] _ f [unfolded sem_args_def]])
        (use g that in \<open>auto simp: sem_guard_def sem_args_def\<close>)
    then show ?thesis using nuc_okD(7) [OF n that] s'(1) by (simp add: sem_ok_def)
  qed
  have fam: "fam_ok s' (Q'\<lparr>ready := xs\<rparr>) T" for xs
    by (rule fam_ok_same [OF nuc_okD(3) [OF n] en(2)]) (simp add: s'(3))
  have "nuc_ok s' (Q'\<lparr>ready := xs\<rparr>) T" if "repr s' (Q'\<lparr>ready := xs\<rparr>)" "live_ok (Q'\<lparr>ready := xs\<rparr>)" for xs
    by (rule nuc_ok_next [OF n en(1) that fam so])
  from this [of "tl (ready Q')"] this [of "ready Q'"] show ?thesis using s'(1,4) B P by (intro exI [of _ s']) simp
qed

lemma Sem_OP_done:
  assumes n: "nuc_ok s Q T" and ne: "ready Q = c # cs" and g: "sem_guard s Q c (sem_args s old)"
  shows "done_ok (Sem_OP old s)"
proof -
  obtain h' Q' where f: "fold (sem_step c) (sem_args s old) (heap_int s, Q) = (h', Q')" by fastforce
  from Sem_OP_ok [OF n ne g f] obtain s' where s': "first_of (ready Q') = Some c"
    "if some_blocks (sem_args s old) (heap_int s)
     then Sem_OP old s = schedule s' \<and> nuc_ok s' (Q'\<lparr>ready := tl (ready Q')\<rparr>) T \<and> p_s (proc_table s' c) = heap_state s old
     else Sem_OP old s = Ok s' \<and> nuc_ok s' Q' T" by blast
  from s'(1) obtain cs' where "ready Q' = c # cs'" by (auto simp: first_of_eq_Some)
  with s'(2) show ?thesis using schedule_done by (auto intro: done_okI split: if_splits)
qed

lemma wait_distinct:
  assumes "aq_ok Q"
  shows "distinct (wait_of (blocked Q) a)"
proof -
  have "distinct (wait_of B a)" if "\<forall>(b, q) \<in> set B. distinct q" for B
    using that by (induction B) auto
  moreover have "\<forall>(b, q) \<in> set (blocked Q). distinct q" using assms by (auto simp: aq_ok_def)
  ultimately show ?thesis .
qed

lemma sem_ok_dec_pos:
  assumes so: "sem_ok s Q a" and ok: "aq_ok Q" and v: "0 \<le> sint (heap_int s a - 1)"
  shows "0 \<le> sint (heap_int s a)"
proof (rule ccontr)
  assume neg: "\<not> 0 \<le> sint (heap_int s a)"
  then have "int (length (wait_of (blocked Q) a)) = - sint (heap_int s a)" using so by (simp add: sem_ok_def)
  moreover have "length (wait_of (blocked Q) a) \<le> 20"
    by (rule distinct_lt_length) (use ok wait_lt(1) [OF ok] wait_distinct [OF ok] in auto)
  ultimately have "sint (heap_int s a - 1) = sint (heap_int s a) - 1" by (intro sint_dec32) simp
  with v neg show False by simp
qed

lemma nuc_ok_pass:
  assumes n: "nuc_ok s Q T" and v: "0 \<le> sint (heap_int s a - 1)" "0 \<le> sint (heap_int s a)"
  shows "nuc_ok (set_int a (heap_int s a - 1) s) Q T"
proof (rule nuc_ok_next [OF n])
  show "sem_ok (set_int a (heap_int s a - 1) s) Q b" if "b \<in> nuc_sems s" for b
    by (rule sem_ok_pass [OF nuc_okD(7) [OF n that] v]) simp
qed (use nuc_okD [OF n] in \<open>simp_all add: fam_ok_same [OF nuc_okD(3) [OF n]]\<close>)

text \<open>Waiting for the pseudo-clock and for devices: P on a semaphore of the nucleus.\<close>

lemma nuc_ok_block:
  assumes n: "nuc_ok s Q T" and ne: "ready Q = c # cs" and v: "sint (heap_int s a - 1) < 0"
    and r: "repr t (block_head a Q)"
    and t: "core t = core (set_int a (heap_int s a - 1) (upd_proc c (\<lambda>e. e\<lparr>p_s := st\<rparr>) s))"
  shows "nuc_ok t (block_head a Q) T"
proof -
  let ?u = "set_int a (heap_int s a - 1) (upd_proc c (\<lambda>e. e\<lparr>p_s := st\<rparr>) s)"
  have u: "same_env s ?u" "same_family s ?u"
    by (rule same_env_trans [of _ "upd_proc c (\<lambda>e. e\<lparr>p_s := st\<rparr>) s"], simp, simp)
      (rule same_family_trans [of _ "upd_proc c (\<lambda>e. e\<lparr>p_s := st\<rparr>) s"], simp, simp)
  have h: "heap_int t = (heap_int s)(a := heap_int s a - 1)" using core_eqD [OF t] by simp
  show ?thesis
  proof (rule nuc_ok_next [OF n same_env_trans [OF u(1) core_same(1) [OF t]] r])
    show "live_ok (block_head a Q)" by (rule live_ok_block_head [OF nuc_okD(5,2) [OF n]])
    show "fam_ok t (block_head a Q) T"
      by (rule fam_ok_same [OF nuc_okD(3) [OF n] same_family_trans [OF u(2) core_same(2) [OF t]]])
        (simp add: block_head_def ne)
    show "sem_ok t (block_head a Q) b" if "b \<in> nuc_sems s" for b
      using sem_ok_block_head [OF nuc_okD(7) [OF n that] _ v h] ne by simp
  qed
qed

lemma waitforpclock_ok:
  assumes n: "nuc_ok s Q T" and ne: "ready Q = c # cs" and room: "\<not> asl_full Q (clock_lock_at s)"
  shows "\<exists>s'. heap_int s' = (heap_int s)(clock_lock_at s := heap_int s (clock_lock_at s) - 1)
    \<and> (if sint (heap_int s (clock_lock_at s) - 1) < 0
       then waitforpclock old s = schedule s' \<and> nuc_ok s' (block_head (clock_lock_at s) Q) T
       else waitforpclock old s = Ok s' \<and> nuc_ok s' Q T)"
proof -
  let ?a = "clock_lock_at s" and ?u = "upd_proc c (\<lambda>e. e\<lparr>p_s := heap_state s old\<rparr>) s"
  have a: "?a \<in> nuc_sems s" by (simp add: nuc_sems_def)
  note r = nuc_okD(1) [OF n] and c = head_alone(3) [OF nuc_okD(1,2) [OF n] ne]
  show ?thesis
  proof (cases "sint (heap_int s ?a - 1) < 0")
    case True
    from waitforpclock_blocks [OF r nuc_okD(2) [OF n] ne nuc_okD(6) [OF n a] room True] obtain s1 where
      s1: "waitforpclock old s = schedule s1" "repr s1 (block_head ?a Q)"
        "core s1 = core (set_int ?a (heap_int s ?a - 1) ?u)" by blast
    with True nuc_ok_block [OF n ne True s1(2,3)] core_eqD(1) [OF s1(3)] show ?thesis by (intro exI [of _ s1]) simp
  next
    case False
    then have v: "0 \<le> sint (heap_int s ?a - 1)" "0 \<le> sint (heap_int s ?a)"
      using sem_ok_dec_pos [OF nuc_okD(7) [OF n a] nuc_okD(5) [OF n]] by auto
    have "waitforpclock old s = Ok (set_int ?a (heap_int s ?a - 1) ?u)"
      using headQueue_ready [OF r] ne c v intsemop_P_pass [of ?u ?a] by (simp add: waitforpclock_def wr_proc_upd)
    moreover have "nuc_ok ?u Q T" using n by (rule nuc_ok_upd) simp_all
    ultimately show ?thesis using nuc_ok_pass [of ?u Q T ?a] v False
      by (intro exI [of _ "set_int ?a (heap_int s ?a - 1) ?u"]) simp
  qed
qed

lemma waitforpclock_done:
  assumes n: "nuc_ok s Q T" and ne: "ready Q = c # cs" and room: "\<not> asl_full Q (clock_lock_at s)"
  shows "done_ok (waitforpclock old s)"
proof -
  from waitforpclock_ok [OF assms, of old] obtain s' where "if sint (heap_int s (clock_lock_at s) - 1) < 0
       then waitforpclock old s = schedule s' \<and> nuc_ok s' (block_head (clock_lock_at s) Q) T
       else waitforpclock old s = Ok s' \<and> nuc_ok s' Q T" by blast
  then show ?thesis using ne schedule_done by (auto intro: done_okI split: if_splits)
qed

lemma waitforio_waits_ok:
  assumes n: "nuc_ok s Q T" and ne: "ready Q = c # cs"
    and d: "s_r (heap_state s old) 4 = of_nat dev" "dev < 15" and room: "\<not> asl_full Q (dev_sem s dev)"
    and v: "heap_int s (dev_sem s dev) \<noteq> 1" "sint (heap_int s (dev_sem s dev) - 1) < 0"
  shows "\<exists>s'. waitforio old s = schedule s' \<and> nuc_ok s' (block_head (dev_sem s dev) Q) T
    \<and> heap_int s' = (heap_int s)(dev_sem s dev := heap_int s (dev_sem s dev) - 1)"
proof -
  let ?a = "dev_sem s dev" and ?u = "upd_proc c (\<lambda>e. e\<lparr>p_s := heap_state s old\<rparr>) s"
  have a: "?a \<in> nuc_sems s" using d(2) by (simp add: nuc_sems_def)
  from waitforio_blocks [OF d v(1) nuc_okD(1,2) [OF n] ne nuc_okD(6) [OF n a] room v(2)] obtain s1 where
    s1: "waitforio old s = schedule s1" "repr s1 (block_head ?a Q)" "core s1 = core (set_int ?a (heap_int s ?a - 1) ?u)" by blast
  with nuc_ok_block [OF n ne v(2) s1(2,3)] core_eqD(1) [OF s1(3)] show ?thesis by (intro exI [of _ s1]) simp
qed

lemma waitforio_done:
  assumes n: "nuc_ok s Q T" and ne: "ready Q = c # cs"
    and d: "s_r (heap_state s old) 4 = of_nat dev" "dev < 15" and room: "\<not> asl_full Q (dev_sem s dev)"
  shows "done_ok (waitforio old s)"
proof -
  let ?a = "dev_sem s dev" and ?u = "upd_proc c (\<lambda>e. e\<lparr>p_s := heap_state s old\<rparr>) s"
  have a: "?a \<in> nuc_sems s" using d(2) by (simp add: nuc_sems_def)
  have dev: "unat (s_r (heap_state s old) 4) = dev" using d by (simp add: unat_of_nat)
  note c = head_alone(3) [OF nuc_okD(1,2) [OF n] ne]
  consider (one) "heap_int s ?a = 1" | (wait) "heap_int s ?a \<noteq> 1" "sint (heap_int s ?a - 1) < 0"
    | (pass) "heap_int s ?a \<noteq> 1" "\<not> sint (heap_int s ?a - 1) < 0" by blast
  then show ?thesis
  proof cases
    case one
    have "nuc_ok (set_int ?a (heap_int s ?a - 1) s) Q T" by (rule nuc_ok_pass [OF n]) (simp_all add: one)
    then show ?thesis using waitforio_saved [OF d one] done_state [OF _ ne, of "set_int ?a 0 s"] by (simp add: one)
  next
    case wait
    then show ?thesis using waitforio_waits_ok [OF assms wait] schedule_done by auto
  next
    case pass
    then have v: "0 \<le> sint (heap_int s ?a - 1)" "0 \<le> sint (heap_int s ?a)"
      using sem_ok_dec_pos [OF nuc_okD(7) [OF n a] nuc_okD(5) [OF n]] by auto
    have "waitforio old s = Ok (set_int ?a (heap_int s ?a - 1) ?u)"
      using headQueue_ready [OF nuc_okD(1) [OF n]] ne c v d(2) pass(1) intsemop_P_pass [of ?u ?a]
      by (simp add: waitforio_def Let_def dev wr_proc_upd)
    moreover have "nuc_ok ?u Q T" using n by (rule nuc_ok_upd) simp_all
    ultimately show ?thesis using nuc_ok_pass [of ?u Q T ?a] v ne by (auto intro: done_okI)
  qed
qed

section \<open>Trap state vectors, CPU time, traps that are passed up\<close>

lemma Get_CPU_Time_done:
  assumes n: "nuc_ok s Q T" and ne: "ready Q = c # cs"
  shows "done_ok (Get_CPU_Time old s)"
  using headQueue_ready [OF nuc_okD(1) [OF n]] ne head_alone(3) [OF nuc_okD(1,2) [OF n] ne] done_state [OF n ne]
  by (simp add: Get_CPU_Time_def)

lemma Specify_done:
  assumes n: "nuc_ok s Q T" and ne: "ready Q = c # cs"
  shows "done_ok (Specify_Trap_State_Vector old s)"
proof -
  have "done_ok (Ok (upd_proc c f s))" if "keeps_queue f" "keeps_family f" for f
    by (rule done_okI [OF nuc_ok_upd [OF n that] ne])
  then show ?thesis
    using headQueue_ready [OF nuc_okD(1) [OF n]] ne head_alone(3) [OF nuc_okD(1,2) [OF n] ne]
      Terminate_exits [OF n ne] done_okI [OF n ne]
    by (auto simp: Specify_Trap_State_Vector_def Let_def wr_proc_upd)
qed

lemma start_time_ok:
  assumes n: "nuc_ok s Q T" and c: "c < 20"
  shows "\<exists>s'. start_time (Some c) s = Ok s' \<and> nuc_ok s' Q T \<and> heap_state s' = heap_state s"
  using nuc_ok_upd [OF nuc_ok_fields(1) [OF n]] start_time_upd [OF c] by simp

lemma deliver_exits:
  assumes n: "nuc_ok s Q T" and ne: "ready Q = c # cs"
  shows "\<exists>e. deliver old area new (Some c) s = Exit e \<and> outcome_ok e"
proof -
  let ?s = "set_state area (heap_state s old) s"
  have "nuc_ok ?s Q T" using n by blast
  from start_time_ok [OF this head_alone(3) [OF nuc_okD(1,2) [OF n] ne]] show ?thesis
    using loaded_okI [OF _ ne] by (auto simp: deliver_def)
qed

lemma pass_up_exits:
  assumes n: "nuc_ok s Q T" and ne: "ready Q = c # cs" and t: "type < 3"
  shows "\<exists>e. pass_up old type s = Exit e \<and> outcome_ok e"
  using headQueue_ready [OF nuc_okD(1) [OF n]] ne head_alone(3) [OF nuc_okD(1,2) [OF n] ne]
    Terminate_exits [OF n ne] deliver_exits [OF n ne] t
  by (simp add: pass_up_def)

section \<open>The trap handlers\<close>

lemma get_interval_ok:
  assumes n: "nuc_ok s Q T" and c: "c < 20"
  shows "\<exists>s'. get_interval (Some c) s = Ok s' \<and> nuc_ok s' Q T \<and> heap_state s' = heap_state s
    \<and> heap_vpop s' = heap_vpop s \<and> heap_int s' = heap_int s \<and> same_env s s'"
  using nuc_ok_upd [OF nuc_ok_fields(1) [OF n]] get_interval_upd [OF c] by (simp add: same_env_def)

text \<open>
  What the caller of a nucleus service has to respect: a vector of semaphore operations names
  each semaphore once, none of them a semaphore of the nucleus, and is short enough; a device
  number is one, and there is a free semaphore descriptor to wait with.
\<close>

definition sys_guard :: "kstate \<Rightarrow> aqueues \<Rightarrow> bool" where
  "sys_guard s Q \<longleftrightarrow>
     (let st = heap_state s old_sys_call_state; no = unat (sys_no (s_tmp st)) in
      (no = 3 \<longrightarrow> sem_guard s Q (hd (ready Q)) (sem_args s old_sys_call_state))
      \<and> (no = 7 \<longrightarrow> \<not> asl_full Q (clock_lock_at s))
      \<and> (no = 8 \<longrightarrow> unat (s_r st 4) < 15 \<and> \<not> asl_full Q (dev_sem s (unat (s_r st 4)))))"

lemma dispatch_done:
  assumes n: "nuc_ok s Q T" and ne: "ready Q = c # cs" and g: "sys_guard s Q"
    and no: "no = unat (sys_no (s_tmp (heap_state s old_sys_call_state)))"
  shows "done_ok (dispatch_sys no s)"
proof -
  let ?o = old_sys_call_state
  have 3: "no = 3 \<Longrightarrow> done_ok (Sem_OP ?o s)"
    using g no ne by (intro Sem_OP_done [OF n ne]) (simp add: sys_guard_def Let_def)
  have 7: "no = 7 \<Longrightarrow> done_ok (waitforpclock ?o s)"
    using g no by (intro waitforpclock_done [OF n ne]) (simp add: sys_guard_def Let_def)
  have 8: "no = 8 \<Longrightarrow> done_ok (waitforio ?o s)"
    using g no by (intro waitforio_done [OF n ne, where dev = "unat (s_r (heap_state s ?o) 4)"])
      (simp_all add: sys_guard_def Let_def)
  have 4: "done_ok (notused ?o s)" using n by (auto simp: notused_def HALT_def)
  show ?thesis
    using 3 4 7 8 Create_done [OF n ne] Terminate_exits [OF n ne] Specify_done [OF n ne] Get_CPU_Time_done [OF n ne]
      pass_up_exits [OF n ne, of 2 ?o]
    by (auto simp: dispatch_sys_def)
qed

lemma trapsys_exits:
  assumes n: "nuc_ok s Q T" and ne: "ready Q = c # cs"
    and g: "ps_s (s_sr (heap_state s old_sys_call_state)) = 1 \<Longrightarrow> sys_guard s Q"
  shows "\<exists>e. trapsyshandler s = Exit e \<and> outcome_ok e"
proof -
  let ?o = old_sys_call_state
  let ?st = "heap_state s ?o"
  have c: "c < 20" by (rule head_alone(3) [OF nuc_okD(1,2) [OF n] ne])
  from get_interval_ok [OF n c] obtain s1 where s1: "get_interval (Some c) s = Ok s1" "nuc_ok s1 Q T"
    "heap_state s1 = heap_state s" "heap_vpop s1 = heap_vpop s" "heap_int s1 = heap_int s" "same_env s s1" by blast
  have sa: "sem_args s1 ?o = sem_args s ?o" using ops_at_core [OF s1(4)] s1(3) by (simp add: sem_args_def)
  have gg: "sys_guard s1 Q = sys_guard s Q"
    using s1(6) by (simp add: sys_guard_def sem_guard_def sa s1(3) nuc_sems_env [OF s1(6)])
      (simp add: same_env_def dev_sem_def)
  show ?thesis
  proof (cases "ps_s (s_sr ?st) \<noteq> 1 \<and> 1 \<le> sys_no (s_tmp ?st) \<and> sys_no (s_tmp ?st) \<le> 8")
    case True
    define s2 where "s2 = set_state ?o (?st\<lparr>s_tmp := set_pr_typ PRIVILEGE (s_tmp ?st)\<rparr>) s1"
    have "nuc_ok s2 Q T" unfolding s2_def using s1(2) by blast
    from pass_up_exits [OF this ne, of 0 ?o] obtain e where "pass_up ?o 0 s2 = Exit e" "outcome_ok e" by auto
    then show ?thesis using True headQueue_ready [OF nuc_okD(1) [OF n]] ne s1(1,3)
      unfolding trapsyshandler_def Let_def by (simp add: s2_def)
  next
    case False
    have "sys_guard s1 Q"
    proof (cases "ps_s (s_sr ?st) = 1")
      case no: False
      with False have "\<not> (1 \<le> sys_no (s_tmp ?st) \<and> sys_no (s_tmp ?st) \<le> 8)" by simp
      then show ?thesis unfolding gg by (auto simp: sys_guard_def Let_def word_le_nat_alt)
    qed (simp add: gg g)
    then have "done_ok (dispatch_sys (unat (sys_no (s_tmp ?st))) s1)"
      by (rule dispatch_done [OF s1(2) ne]) (simp add: s1(3))
    moreover have h: "trapsyshandler s = rbind (dispatch_sys (unat (sys_no (s_tmp ?st))) s1) (\<lambda>s.
        rbind (start_time (Some c) s) (\<lambda>s. Exit (LDST (heap_state s ?o) s)))"
      using False headQueue_ready [OF nuc_okD(1) [OF n]] ne s1(1,3)
      unfolding trapsyshandler_def Let_def by (simp add: False)
    ultimately show ?thesis
    proof (cases "dispatch_sys (unat (sys_no (s_tmp ?st))) s1")
      case (Ok s2)
      with \<open>done_ok _\<close> obtain Q2 T2 c2 cs2 where 2: "nuc_ok s2 Q2 T2" "ready Q2 = c2 # cs2"
        by (auto elim: done_okE)
      from start_time_ok [OF 2(1) c] obtain s3 where "start_time (Some c) s2 = Ok s3" "nuc_ok s3 Q2 T2" by blast
      with Ok h loaded_okI [OF _ 2(2)] show ?thesis by simp
    qed simp
  qed
qed

lemma trapmm_exits:
  assumes n: "nuc_ok s Q T" and ne: "ready Q = c # cs"
  shows "\<exists>e. trapmmhandler s = Exit e \<and> outcome_ok e"
proof -
  from get_interval_ok [OF n head_alone(3) [OF nuc_okD(1,2) [OF n] ne]] obtain s1 where
    s1: "get_interval (Some c) s = Ok s1" "nuc_ok s1 Q T" by blast
  from pass_up_exits [OF s1(2) ne, of 1 old_mm_state] show ?thesis
    using headQueue_ready [OF nuc_okD(1) [OF n]] ne s1(1) by (auto simp: trapmmhandler_def)
qed

lemma trapprog_exits:
  assumes n: "nuc_ok s Q T" and ne: "ready Q = c # cs"
  shows "\<exists>e. trapproghandler s = Exit e \<and> outcome_ok e"
proof -
  from get_interval_ok [OF n head_alone(3) [OF nuc_okD(1,2) [OF n] ne]] obtain s1 where
    s1: "get_interval (Some c) s = Ok s1" "nuc_ok s1 Q T" by blast
  from pass_up_exits [OF s1(2) ne, of 0 old_pro_state] show ?thesis
    using headQueue_ready [OF nuc_okD(1) [OF n]] ne s1(1) by (auto simp: trapproghandler_def)
qed

section \<open>The interrupt handlers\<close>

lemma nuc_ok_wake:
  assumes n: "nuc_ok s Q T" and v: "sint (heap_int s a) < 0" and r: "repr t (wake a Q)"
    and h: "heap_int t = (heap_int s)(a := heap_int s a + 1)" and e: "same_env s t" "same_family s t"
  shows "nuc_ok t (wake a Q) T"
proof (rule nuc_ok_next [OF n e(1) r])
  show "live_ok (wake a Q)" by (rule live_ok_wake [OF nuc_okD(5,2) [OF n]])
  show "fam_ok t (wake a Q) T" by (rule fam_ok_same [OF nuc_okD(3) [OF n] e(2)]) (simp add: wake_simps)
  show "sem_ok t (wake a Q) b" if "b \<in> nuc_sems s" for b
    by (rule sem_ok_wake [OF nuc_okD(7) [OF n that] nuc_okD(5) [OF n] v h])
qed

text \<open>At most one process waits for a device, and not every integer of completions is pending.\<close>

definition dev_guard :: "nat \<Rightarrow> addr \<Rightarrow> kstate \<Rightarrow> bool" where
  "dev_guard type old s \<longleftrightarrow>
     (let pos = dev_pos type (unat (in_dno (s_tmp (heap_state s old)))); v = sint (heap_int s (dev_sem s (nat pos)))
      in 0 \<le> pos \<and> pos < 15 \<and> - 1 \<le> v \<and> v < 2 ^ 31 - 1)"

lemma inthandler_wakes_ok:
  assumes n: "nuc_ok s Q T" and d: "dev_pos type dev = int i" "i < 15" and v: "heap_int s (dev_sem s i) = - 1"
  shows "\<exists>s' p. inthandler type dev s = Ok s' \<and> nuc_ok s' (wake (dev_sem s i) Q) T \<and> same_env s s'
    \<and> heap_int s' = (heap_int s)(dev_sem s i := 0) \<and> wait_of (blocked Q) (dev_sem s i) = [p]
    \<and> p_s (proc_table s' p) = set_reg 3 (d_stat (devreg s i)) (set_reg 2 (d_dadd (devreg s i)) (p_s (proc_table s p)))"
proof -
  let ?a = "dev_sem s i"
  have "?a \<in> nuc_sems s" using d(2) by (simp add: nuc_sems_def)
  from nuc_okD(7) [OF n this] v have "length (wait_of (blocked Q) ?a) = 1" by (simp add: sem_ok_def)
  then obtain p where w: "wait_of (blocked Q) ?a = [p]" by (auto simp: length_Suc_conv)
  define u where "u = upd_proc p (\<lambda>e. e\<lparr>p_s := set_reg 3 (d_stat (devreg s i)) (set_reg 2 (d_dadd (devreg s i)) (p_s e))\<rparr>) s"
  from inthandler_wakes [OF d v nuc_okD(1) [OF n] w] obtain s' where
    s': "inthandler type dev s = Ok s'" "repr s' (wake ?a Q)" "core s' = core (set_int ?a 0 u)"
    by (auto simp: u_def)
  have u: "same_env s (set_int ?a 0 u)" "same_family s (set_int ?a 0 u)" "heap_int u = heap_int s"
    by (auto simp: u_def same_env_def same_family_def)
  note en = same_env_trans [OF u(1) core_same(1) [OF s'(3)]]
  have "nuc_ok s' (wake ?a Q) T"
    by (rule nuc_ok_wake [OF n _ s'(2) _ en same_family_trans [OF u(2) core_same(2) [OF s'(3)]]])
      (use v core_eqD [OF s'(3)] u(3) in simp_all)
  moreover have "p_s (proc_table s' p) = p_s (proc_table u p)" using core_eqD [OF s'(3)] by simp
  ultimately show ?thesis using s'(1) w en core_eqD(1) [OF s'(3)] u(3)
    by (intro exI [of _ s'] exI [of _ p]) (simp add: u_def)
qed

lemma inthandler_ok:
  assumes n: "nuc_ok s Q T" and d: "dev_pos type dev = int i" "i < 15"
    and v: "- 1 \<le> sint (heap_int s (dev_sem s i))" "sint (heap_int s (dev_sem s i)) < 2 ^ 31 - 1"
  shows "\<exists>s' Q'. inthandler type dev s = Ok s' \<and> nuc_ok s' Q' T
    \<and> Q' = (if heap_int s (dev_sem s i) = - 1 then wake (dev_sem s i) Q else Q)"
proof (cases "heap_int s (dev_sem s i) = - 1")
  case True
  with inthandler_wakes_ok [OF n d True] show ?thesis by auto
next
  case False
  let ?a = "dev_sem s i"
  have "sint (heap_int s ?a) \<noteq> - 1"
    using False signed_word_eqI [of "heap_int s ?a" "- 1"] by auto
  with v(1) have pos: "0 \<le> sint (heap_int s ?a)" by linarith
  have up: "sint (heap_int s ?a + 1) = sint (heap_int s ?a) + 1" by (rule sint_inc32) (rule v(2))
  define t where "t = s\<lparr>heap_int := (heap_int s)(?a := heap_int s ?a + 1),
    save_arr := (save_arr s)(i := \<lparr>amnt = d_dadd (devreg s i), stat = d_stat (devreg s i)\<rparr>)\<rparr>"
  have t: "same_env s t" "same_family s t" "repr t Q" "heap_int t = (heap_int s)(?a := heap_int s ?a + 1)"
    using nuc_okD(1) [OF n] by (simp_all add: t_def same_env_def same_family_def)
  have "nuc_ok t Q T"
  proof (rule nuc_ok_next [OF n t(1,3) nuc_okD(2) [OF n] fam_ok_same [OF nuc_okD(3) [OF n] t(2)]])
    show "sem_ok t Q b" if "b \<in> nuc_sems s" for b
      using nuc_okD(7) [OF n that] pos up by (auto simp: sem_ok_def t(4))
  qed simp
  then show ?thesis using inthandler_saves [OF d False] False by (simp add: t_def)
qed

lemma dev_handler_exits:
  assumes n: "nuc_ok s Q T" and g: "dev_guard type old s"
  shows "\<exists>e. dev_handler type old s = Exit e \<and> outcome_ok e"
proof -
  let ?dev = "unat (in_dno (s_tmp (heap_state s old)))"
  define i where "i = nat (dev_pos type ?dev)"
  have i: "dev_pos type ?dev = int i" "i < 15" "- 1 \<le> sint (heap_int s (dev_sem s i))"
    "sint (heap_int s (dev_sem s i)) < 2 ^ 31 - 1"
    using g by (auto simp: dev_guard_def Let_def i_def)
  from inthandler_ok [OF n i] obtain s' Q' where s': "inthandler type ?dev s = Ok s'" "nuc_ok s' Q' T"
    "Q' = (if heap_int s (dev_sem s i) = - 1 then wake (dev_sem s i) Q else Q)" by blast
  show ?thesis
  proof (cases "ready Q")
    case Nil
    then show ?thesis using dev_handler_end [OF nuc_okD(1) [OF n] s'(1)] schedule_exits [OF s'(2)] by simp
  next
    case (Cons c cs)
    then obtain cs' where "ready Q' = c # cs'" using s'(3)
      by (cases "heap_int s (dev_sem s i) = - 1") (simp_all add: wake_simps(3))
    then show ?thesis using dev_handler_end [OF nuc_okD(1) [OF n] s'(1)] Cons loaded_okI [OF s'(2)] by simp
  qed
qed

lemma clock_ok:
  assumes n: "nuc_ok s Q T"
  shows "\<exists>s1. intclockhandler s = schedule s1 \<and> nuc_ok s1 (after_tick s Q) T \<and> same_env s s1
    \<and> heap_int s1 = (if clock_due s \<and> clock_waits s Q
        then (heap_int s)(clock_lock_at s := heap_int s (clock_lock_at s) + 1) else heap_int s)"
proof -
  let ?a = "clock_lock_at s" and ?R = "rotate_ready Q"
  have a: "?a \<in> nuc_sems s" by (simp add: nuc_sems_def)
  from intclockhandler_refines [OF nuc_okD(1,2) [OF n] nuc_okD(7) [OF n a]] obtain s1 where
    s1: "intclockhandler s = schedule s1" "repr s1 (after_tick s Q)"
      "heap_int s1 = (if clock_due s \<and> clock_waits s Q
        then (heap_int s)(?a := heap_int s ?a + 1) else heap_int s)" "same_env s s1" "same_family s s1" by blast
  have ok: "aq_ok ?R" using nuc_okD(5) [OF n]
    by (cases "ready Q") (auto simp: rotate_ready_def aq_ok_def occupied_def)
  have so: "sem_ok s ?R b" if "b \<in> nuc_sems s" for b using nuc_okD(7) [OF n that] by (simp add: sem_ok_def)
  have un: "unused (after_tick s Q) = unused Q"
    by (cases "ready Q") (simp_all add: after_tick_def wake_simps rotate_ready_def)
  have "nuc_ok s1 (after_tick s Q) T"
  proof (rule nuc_ok_next [OF n s1(4,2) _ fam_ok_same [OF nuc_okD(3) [OF n] s1(5) un]])
    show "live_ok (after_tick s Q)"
      using live_ok_rotate [OF nuc_okD(2) [OF n]] live_ok_wake [OF ok] by (simp add: after_tick_def)
    show "sem_ok s1 (after_tick s Q) b" if b: "b \<in> nuc_sems s" for b
    proof (cases "clock_due s \<and> clock_waits s Q")
      case True
      then have "sint (heap_int s ?a) < 0"
        using so [OF a] by (auto simp: sem_ok_def clock_waits_def split: if_splits)
      from sem_ok_wake [OF so [OF b] ok this, of s1] True s1(3) show ?thesis by (simp add: after_tick_def)
    next
      case False
      then have "after_tick s Q = ?R" by (auto simp: after_tick_def clock_waits_def wake_def)
      then show ?thesis using so [OF b] s1(3) False by (auto simp: sem_ok_def)
    qed
  qed
  with s1(1,3,4) show ?thesis by blast
qed

lemma clock_exits: "nuc_ok s Q T \<Longrightarrow> \<exists>e. intclockhandler s = Exit e \<and> outcome_ok e"
  using clock_ok [of s Q T] schedule_exits by metis


section \<open>The start of the system\<close>

definition same_kernel :: "kstate \<Rightarrow> kstate \<Rightarrow> bool" where
  "same_kernel s t \<longleftrightarrow> same_queues s t \<and> same_family s t \<and> same_env s t \<and> proc_table t = proc_table s"

lemma same_kernel_refl: "same_kernel s s"
  by (simp add: same_kernel_def)

lemma same_kernel_trans: "same_kernel s t \<Longrightarrow> same_kernel t u \<Longrightarrow> same_kernel s u"
  by (auto simp: same_kernel_def intro: same_queues_trans same_family_trans same_env_trans)

lemma same_kernel_init_new: "same_kernel s (init_new old pc sp s)" "heap_int (init_new old pc sp s) = heap_int s"
  by (simp_all add: same_kernel_def init_new_def Let_def)

lemma same_kernel_newI: "same_kernel s t \<Longrightarrow> same_kernel s (init_new old pc sp t)"
  by (rule same_kernel_trans [OF _ same_kernel_init_new(1)])

lemma fold_set_int:
  "fold (\<lambda>(a, r) s. set_int a (f r) s) xs s = s\<lparr>heap_int := fold (\<lambda>(a, r) h. h(a := f r)) xs (heap_int s)\<rparr>"
  by (induction xs arbitrary: s) auto

lemma fold_dev_sem:
  "fold (\<lambda>i s. set_int (dev_sem s i) 0 s) xs s = s\<lparr>heap_int := fold (\<lambda>i h. h(dev_sem s i := 0)) xs (heap_int s)\<rparr>"
proof (induction xs arbitrary: s)
  case (Cons x xs)
  then show ?case by (simp add: dev_sem_def)
qed simp

lemma fold_zero: "fold (\<lambda>i h. h(f i := 0)) xs h a = (if a \<in> f ` set xs then 0 else h a)"
  by (induction xs arbitrary: h) auto

lemma trapinit_same: "same_kernel s (trapinit entry_of sp s)"
proof -
  have "same_kernel s (fold (\<lambda>(a, r) s. set_int a (entry_of r) s) evt s)"
    unfolding fold_set_int by (simp add: same_kernel_def)
  then show ?thesis unfolding trapinit_def Let_def by (intro same_kernel_newI)
qed

lemma intinit_same:
  "same_kernel s (intinit entry_of sp s)" "a \<in> nuc_sems s \<Longrightarrow> heap_int (intinit entry_of sp s) a = 0"
proof -
  let ?u = "fold (\<lambda>i s. set_int (dev_sem s i) 0 s) [0..<15] (set_int (clock_lock_at s) 0 s)"
  have u: "?u = s\<lparr>heap_int := fold (\<lambda>i h. h(dev_sem s i := 0)) [0..<15] ((heap_int s)(clock_lock_at s := 0))\<rparr>"
    unfolding fold_dev_sem by (simp add: dev_sem_def del: upt_rec_numeral)
  have "same_kernel s ?u" unfolding u by (simp add: same_kernel_def)
  then show "same_kernel s (intinit entry_of sp s)"
    unfolding intinit_def Let_def by (intro same_kernel_newI)
  show "heap_int (intinit entry_of sp s) a = 0" if "a \<in> nuc_sems s"
    using that unfolding intinit_def Let_def same_kernel_init_new(2) u
    by (auto simp: fold_zero nuc_sems_def simp del: upt_rec_numeral)
qed

text \<open>An entry whose process has declared no trap handler.\<close>

definition no_vectors :: "proc_t \<Rightarrow> bool" where
  "no_vectors e \<longleftrightarrow> prog_old e = ENULL_addr \<and> prog_new e = ENULL_addr
     \<and> memory_management_old e = ENULL_addr \<and> memory_management_new e = ENULL_addr
     \<and> system_call_old e = ENULL_addr \<and> system_call_new e = ENULL_addr"

lemma init_ok:
  fixes s0 :: kstate
  defines "s \<equiv> s0\<lparr>running_queue := null_link\<rparr>"
  shows "repr (init entry_of st0 s0) empty_queues"
    and "fam_ok (init entry_of st0 s0) empty_queues None"
    and "same_env s0 (init entry_of st0 s0)"
    and "a \<in> nuc_sems s0 \<Longrightarrow> heap_int (init entry_of st0 s0) a = 0"
    and "no_vectors (proc_table (init entry_of st0 s0) 0)"
proof -
  let ?b = "initSemd (initProc s)"
  let ?t = "trapinit entry_of (s_sp st0) ?b"
  have e: "init entry_of st0 s0 = intinit entry_of (s_sp st0) ?t" by (simp add: init_def s_def)
  have k: "same_kernel ?b (init entry_of st0 s0)"
    unfolding e by (rule same_kernel_trans [OF trapinit_same intinit_same(1)])
  have b: "same_env s0 ?b" by (simp add: same_env_def initSemd_def initProc_def Let_def s_def)
  have rb: "repr ?b empty_queues" by (rule init_repr) (simp add: s_def)
  then show "repr (init entry_of st0 s0) empty_queues" using k repr_same_queues by (auto simp: same_kernel_def)
  have "fam_ok ?b empty_queues None"
    by (auto simp: fam_ok_def empty_queues_def chd_def par_def bro_def initSemd_def initProc_table
        set_link0_def init_entry_def Let_def simp del: upt_rec_numeral)
  then show "fam_ok (init entry_of st0 s0) empty_queues None"
    by (rule fam_ok_same) (use k in \<open>simp_all add: same_kernel_def\<close>)
  have "no_vectors (proc_table ?b 0)"
    by (simp add: no_vectors_def initSemd_def initProc_table set_link0_def init_entry_def Let_def del: upt_rec_numeral)
  then show "no_vectors (proc_table (init entry_of st0 s0) 0)" using k by (simp add: same_kernel_def)
  show "same_env s0 (init entry_of st0 s0)" using same_env_trans [OF b] k by (simp add: same_kernel_def)
  show "heap_int (init entry_of st0 s0) a = 0" if "a \<in> nuc_sems s0"
  proof -
    have "nuc_sems ?t = nuc_sems ?b" by (rule nuc_sems_env) (use trapinit_same in \<open>simp add: same_kernel_def\<close>)
    then show ?thesis unfolding e using that nuc_sems_env [OF b] by (intro intinit_same(2)) simp
  qed
qed

definition first_state :: "(string \<Rightarrow> int32) \<Rightarrow> state_t \<Rightarrow> state_t \<Rightarrow> state_t" where
  "first_state entry_of st0 st1 = set_reg 16 (entry_of ''p1'') (set_reg 15 (s_sp st0 - 1024) st1)"

definition boot_queues :: aqueues where
  "boot_queues = \<lparr>ready = [0], blocked = [], unused = [1..<20]\<rparr>"

lemma main_boots:
  assumes "ENULL_addr \<notin> nuc_sems s0" "print_polls s0 \<noteq> None"
  shows "\<exists>s. main entry_of st0 st1 s0 = Exit (LDST (first_state entry_of st0 st1) s)
    \<and> nuc_ok s boot_queues (Some (PNode 0 [])) \<and> same_env s0 s
    \<and> (\<forall>a \<in> nuc_sems s0. heap_int s a = 0) \<and> interval_timer s = quantum
    \<and> no_vectors (proc_table s 0)"
proof -
  define s where "s = init entry_of st0 s0"
  let ?Q = "\<lparr>ready = [], blocked = [], unused = [1..<20]\<rparr>"
  have u: "unused empty_queues = 0 # [1..<20]" by (simp add: empty_queues_def upt_conv_Cons del: upt_rec_numeral)
  from allocProc_refines [OF init_ok(1) u, of entry_of st0 s0] obtain s1 where s1: "allocProc s = Ok (Some 0, s1)"
    "core s1 = core s" "repr s1 ?Q" by (auto simp: empty_queues_def s_def)
  define s2 where "s2 = upd_proc 0 (\<lambda>e. e\<lparr>p_s := first_state entry_of st0 st1\<rparr>) s1"
  have r2: "repr s2 ?Q" "p_s (proc_table s2 0) = first_state entry_of st0 st1"
    using s1(3) by (simp_all add: s2_def)
  have "can_ready ?Q 0" by (simp add: can_ready_def occupied_def)
  from rq_insert_repr [OF r2(1) this] obtain s3 where s3: "rq_insert (Some 0) s2 = Ok s3" "core s3 = core s2"
    "repr s3 boot_queues" by (auto simp: boot_queues_def)
  have f: "same_env s s3" "same_family s s3"
    using core_same [OF s3(2)] core_same [OF s1(2)] by (auto simp: s2_def same_env_def same_family_def)
  have "main entry_of st0 st1 s0 = schedule s3"
  proof -
    have "upd_proc 0 (\<lambda>e. e\<lparr>p_s := set_reg 16 (entry_of ''p1'') (p_s e)\<rparr>)
        (upd_proc 0 (\<lambda>e. e\<lparr>p_s := set_reg 15 (s_sp st0 - 1024) (p_s e)\<rparr>)
          (upd_proc 0 (\<lambda>e. e\<lparr>p_s := st1\<rparr>) s1)) = s2"
      by (simp add: s2_def upd_proc_def first_state_def)
    with s1(1) s3(1) show ?thesis by (simp add: main_def s_def wr_proc_upd)
  qed
  moreover have "nuc_ok s3 boot_queues (Some (PNode 0 []))"
    unfolding nuc_ok_def
  proof (intro conjI ballI)
    show "live_ok boot_queues" by (auto simp: live_ok_def boot_queues_def sems_of_def simp del: upt_rec_numeral)
    have "par s3 p = None" "bro s3 p = None" "chd s3 p = None" if "p < 20" for p
      using init_ok(2) [of entry_of st0 s0] f(2) that
      by (auto simp: s_def [symmetric] fam_ok_def same_family_def empty_queues_def par_def bro_def chd_def
          simp del: upt_rec_numeral)
    then show "fam_ok s3 boot_queues (Some (PNode 0 []))"
      by (auto simp: fam_ok_def boot_queues_def kids_ok_def simp del: upt_rec_numeral)
    show "print_polls s3 \<noteq> None" using assms(2) init_ok(3) f(1) by (simp add: same_env_def s_def)
    fix a assume "a \<in> nuc_sems s3"
    then have a: "a \<in> nuc_sems s0" using nuc_sems_env [OF same_env_trans [OF init_ok(3) f(1) [unfolded s_def]]] by simp
    then show "a \<noteq> ENULL_addr" using assms(1) by auto
    have "heap_int s3 a = 0"
      using init_ok(4) [OF a] core_eqD [OF s3(2)] core_eqD [OF s1(2)] by (simp add: s2_def s_def)
    then show "sem_ok s3 boot_queues a" by (simp add: sem_ok_def boot_queues_def)
  qed (rule s3(3))
  moreover have "schedule s3 = Exit (LDST (first_state entry_of st0 st1) (dispatched 0 s3))"
    using schedule_ready(1) [OF s3(3), of 0 "[]"] core_eqD(15) [OF s3(2)] r2(2) by (simp add: boot_queues_def)
  moreover have "same_env s0 (dispatched 0 s3)"
    using same_env_trans [OF init_ok(3) f(1) [unfolded s_def]] by (simp add: dispatched_def same_env_def)
  moreover have "heap_int s3 a = 0" if "a \<in> nuc_sems s0" for a
    using init_ok(4) [OF that] core_eqD [OF s3(2)] core_eqD [OF s1(2)] by (simp add: s2_def s_def)
  moreover have "no_vectors (proc_table s3 0)"
    using init_ok(5) [of entry_of st0 s0] core_proc_eqD [OF s3(2)] core_proc_eqD [OF s1(2)]
    by (simp add: s2_def s_def no_vectors_def)
  ultimately show ?thesis using dispatched_ok by (intro exI [of _ "dispatched 0 s3"]) (simp add: dispatched_def no_vectors_def)
qed

section \<open>Runs of the machine\<close>

text \<open>
  Between two entries into the nucleus the processes, the devices and the clock may change
  their memory, the saved areas and the device registers as they like, except for the
  semaphores of the nucleus. An entry into the nucleus is a trap or an interrupt whose
  handler ends by loading a state or by sleeping.
\<close>

inductive outside :: "kstate \<Rightarrow> kstate \<Rightarrow> bool" where
  "(\<And>a. a \<in> nuc_sems s \<Longrightarrow> hi a = heap_int s a) \<Longrightarrow>
   outside s (s\<lparr>heap_int := hi, heap_state := hs, heap_vpop := hv, devreg := dr\<rparr>)"

text \<open>The entries: traps need a running process, interrupts come at any time.\<close>

definition entries :: "kstate \<Rightarrow> aqueues \<Rightarrow> kstate kres set" where
  "entries s Q =
     (if ready Q \<noteq> [] then {trapmmhandler s, trapproghandler s}
        \<union> (if ps_s (s_sr (heap_state s old_sys_call_state)) = 1 \<longrightarrow> sys_guard s Q then {trapsyshandler s} else {})
      else {})
     \<union> {intclockhandler s}
     \<union> (if dev_guard TERMINAL old_terminal_state s then {intterminalhandler s} else {})
     \<union> (if dev_guard PRINTER old_printer_state s then {intprinterhandler s} else {})
     \<union> (if dev_guard DISK old_disk_state s then {intdiskhandler s} else {})
     \<union> (if dev_guard FLOPPY old_floppy_state s then {intfloppyhandler s} else {})"

inductive nuc_step :: "kstate \<Rightarrow> kstate \<Rightarrow> bool" where
  out: "outside s t \<Longrightarrow> nuc_step s t"
| load: "repr s Q \<Longrightarrow> Exit (LDST st t) \<in> entries s Q \<Longrightarrow> nuc_step s t"
| wait: "repr s Q \<Longrightarrow> Exit (SLEEP t) \<in> entries s Q \<Longrightarrow> nuc_step s t"

lemma entries_exit:
  assumes n: "nuc_ok s Q T" and m: "m \<in> entries s Q"
  shows "\<exists>e. m = Exit e \<and> outcome_ok e"
proof -
  have dev: "dev_guard type old s \<Longrightarrow> \<exists>e. dev_handler type old s = Exit e \<and> outcome_ok e" for type old
    by (rule dev_handler_exits [OF n])
  show ?thesis
  proof (cases "ready Q")
    case Nil
    with m dev clock_exits [OF n] show ?thesis
      by (simp add: entries_def intterminalhandler_def intprinterhandler_def intdiskhandler_def intfloppyhandler_def
          split: if_splits) metis+
  next
    case (Cons c cs)
    with m dev clock_exits [OF n] trapmm_exits [OF n Cons] trapprog_exits [OF n Cons] trapsys_exits [OF n Cons]
    show ?thesis
      by (simp add: entries_def intterminalhandler_def intprinterhandler_def intdiskhandler_def intfloppyhandler_def
          split: if_splits) metis+
  qed
qed

lemma outside_ok: "outside s t \<Longrightarrow> nuc_ok s Q T \<Longrightarrow> nuc_ok t Q T"
proof (induction rule: outside.induct)
  case (1 s hi hs hv dr)
  show ?case by (rule nuc_ok_same [OF 1(2)]) (use 1(1) in \<open>simp_all add: same_queues_def same_family_def same_env_def\<close>)
qed

definition ninv :: "kstate \<Rightarrow> bool" where
  "ninv s \<longleftrightarrow> (\<exists>Q T. nuc_ok s Q T)"

lemma nuc_step_inv:
  assumes "ninv s" "nuc_step s t"
  shows "ninv t"
proof -
  obtain Q T where n: "nuc_ok s Q T" using assms(1) by (auto simp: ninv_def)
  have m: "outcome_ok e" if "Exit e \<in> entries s Q'" "repr s Q'" for e Q'
    using entries_exit [OF n, of "Exit e"] that repr_unique [OF that(2) nuc_okD(1) [OF n]] by simp
  from assms(2) show ?thesis
  proof cases
    case out
    from outside_ok [OF this n] show ?thesis by (auto simp: ninv_def)
  next
    case (load Q' st)
    then show ?thesis using m [OF load(2,1)] by (auto simp: ninv_def outcome_ok.simps(1))
  next
    case (wait Q')
    then show ?thesis using m [OF wait(2,1)] by (auto simp: ninv_def)
  qed
qed

definition booted :: "kstate \<Rightarrow> bool" where
  "booted s \<longleftrightarrow> (\<exists>entry_of st0 st1 s0 st. ENULL_addr \<notin> nuc_sems s0 \<and> print_polls s0 \<noteq> None
     \<and> main entry_of st0 st1 s0 = Exit (LDST st s))"

interpretation nuc: machine booted nuc_step ninv
proof (unfold_locales, goal_cases)
  case (1 s)
  then obtain entry_of st0 st1 s0 st where b: "ENULL_addr \<notin> nuc_sems s0" "print_polls s0 \<noteq> None"
    "main entry_of st0 st1 s0 = Exit (LDST st s)" by (auto simp: booted_def)
  from main_boots [OF b(1,2), of entry_of st0 st1] b(3) show ?case by (auto simp: ninv_def)
next
  case (2 s t)
  then show ?case by (rule nuc_step_inv)
qed

end
