(* ===== verification/Samples.thy ===== *)
theory Samples
  imports Nucleus
begin

text \<open>
  Concrete states of the nucleus, for the examples that accompany the properties: a machine
  before the start, the state \<open>main\<close> leaves, and states further on.
\<close>

section \<open>Leaving the nucleus\<close>

fun exit_state :: "exit \<Rightarrow> kstate option" where
  "exit_state (LDST st s) = Some s"
| "exit_state (SLEEP s) = Some s"
| "exit_state (HALTED s) = Some s"
| "exit_state (PANIC msg) = None"
| "exit_state FAULT = None"
| "exit_state HANG = None"

fun after :: "kstate kres \<Rightarrow> kstate \<Rightarrow> kstate" where
  "after (Ok t) s = t"
| "after (Exit e) s = (case exit_state e of None \<Rightarrow> s | Some t \<Rightarrow> t)"

section \<open>A machine before the start\<close>

definition blank_sr :: sr_t where
  "blank_sr = \<lparr>ps_t = 0, ps_s = 1, ps_m = 0, ps_int = 0, ps_x = 0, ps_n = 0, ps_z = 0, ps_o = 0, ps_c = 0\<rparr>"

definition blank_state :: state_t where
  "blank_state = \<lparr>s_r = (\<lambda>_. 0), s_sr = blank_sr, s_tmp = 0, s_crp = 0\<rparr>"

definition blank_proc :: proc_t where
  "blank_proc = \<lparr>p_link = (\<lambda>_. null_link), p_s = blank_state, qcount = 0, semvec = (\<lambda>_. ENULL_addr),
     cpu_time = 0, start_t = 0, prog_old = ENULL_addr, prog_new = ENULL_addr,
     memory_management_old = ENULL_addr, memory_management_new = ENULL_addr,
     system_call_old = ENULL_addr, system_call_new = ENULL_addr,
     parent = None, child = None, brother = None\<rparr>"

definition blank :: kstate where
  "blank = \<lparr>proc_table = (\<lambda>_. blank_proc), free_head = None,
     semd_table = (\<lambda>_. \<lparr>s_next = None, s_prev = None, s_semAdd = ENULL_addr, s_link = null_link\<rparr>),
     cur_sem = None, free_head_s = None, running_queue = null_link,
     heap_int = (\<lambda>_. 0), heap_state = (\<lambda>_. blank_state), heap_vpop = (\<lambda>_. \<lparr>vp_op = 0, vp_sem = 0\<rparr>),
     clock_at = (\<lambda>n. of_nat (100 * n)), clock_reads = 0, interval_timer = 0,
     devreg = (\<lambda>_. \<lparr>d_op = 0, d_dadd = 0, d_badd = 0, d_stat = 0\<rparr>),
     save_arr = (\<lambda>_. \<lparr>amnt = 0, stat = 0\<rparr>), clock_count = 0,
     clock_lock_at = 0x4000, dev_sem_at = 0x4010, print_polls = Some 3,
     print_buf = '''', print_buf_at = 0x5000\<rparr>"

lemma blank_env [simp]:
  "clock_lock_at blank = 0x4000" "dev_sem_at blank = 0x4010" "print_polls blank = Some 3"
  "running_queue blank = null_link"
  by (simp_all add: blank_def)

lemma blank_sems: "ENULL_addr \<notin> nuc_sems blank"
proof -
  have "list_all (\<lambda>i. dev_sem blank i \<noteq> ENULL_addr) [0..<15]" by (simp add: dev_sem_def upt_rec)
  then have "\<forall>i < 15. dev_sem blank i \<noteq> ENULL_addr" by (simp add: list_all_iff del: upt_rec_numeral)
  then show ?thesis by (auto simp: nuc_sems_def)
qed

section \<open>The state after the start\<close>

definition boot0 :: kstate where
  "boot0 = after (main (\<lambda>_. 0x1000) blank_state blank_state blank) blank"

lemma boot0:
  "main (\<lambda>_. 0x1000) blank_state blank_state blank = Exit (LDST (first_state (\<lambda>_. 0x1000) blank_state blank_state) boot0)"
  "nuc_ok boot0 boot_queues (Some (PNode 0 []))" "same_env blank boot0" "a \<in> nuc_sems blank \<Longrightarrow> heap_int boot0 a = 0"
  "no_vectors (proc_table boot0 0)"
proof -
  from main_boots [OF blank_sems, of "\<lambda>_. 0x1000" blank_state blank_state] obtain s where
    s: "main (\<lambda>_. 0x1000) blank_state blank_state blank = Exit (LDST (first_state (\<lambda>_. 0x1000) blank_state blank_state) s)"
    "nuc_ok s boot_queues (Some (PNode 0 []))" "same_env blank s" "\<forall>a \<in> nuc_sems blank. heap_int s a = 0"
    "no_vectors (proc_table s 0)" by auto
  then have "boot0 = s" by (simp add: boot0_def)
  with s show "main (\<lambda>_. 0x1000) blank_state blank_state blank = Exit (LDST (first_state (\<lambda>_. 0x1000) blank_state blank_state) boot0)"
    "nuc_ok boot0 boot_queues (Some (PNode 0 []))" "same_env blank boot0" "a \<in> nuc_sems blank \<Longrightarrow> heap_int boot0 a = 0"
  "no_vectors (proc_table boot0 0)"
    by auto
qed

text \<open>The process table filled by SYS1, and memory as a process may have prepared it.\<close>

fun create_n :: "nat \<Rightarrow> kstate \<Rightarrow> kstate" where
  "create_n 0 s = s"
| "create_n (Suc n) s = create_n n (after (Create_Process old_sys_call_state s) s)"

lemma create_n_fills:
  assumes "nuc_ok s Q (Some T)" "ready Q = c # cs"
  shows "\<exists>Q' T' cs'. nuc_ok (create_n (length (unused Q)) s) Q' (Some T') \<and> ready Q' = c # cs' \<and> unused Q' = []"
  using assms
proof (induction "unused Q" arbitrary: s Q T cs)
  case Nil
  from Nil(1) [symmetric] Nil(2,3) show ?case by auto
next
  case (Cons m ms)
  let ?Q = "Q\<lparr>unused := ms, ready := ready Q @ [m]\<rparr>"
  from Create_ok [OF Cons.prems Cons.hyps(2) [symmetric], of old_sys_call_state] obtain s' T' where
    s': "Create_Process old_sys_call_state s = Ok s'" "nuc_ok s' ?Q (Some T')" by blast
  from Cons.hyps(1) [OF _ s'(2), of "cs @ [m]"] Cons.prems(2) s'(1) show ?case by (simp flip: Cons.hyps(2))
qed

definition full0 :: kstate where "full0 = create_n 19 boot0"

lemma full0: "\<exists>Q T cs. nuc_ok full0 Q (Some T) \<and> ready Q = 0 # cs \<and> unused Q = []"
  using create_n_fills [OF boot0(2), of 0 "[]"] by (simp add: full0_def boot_queues_def del: upt_rec_numeral)

definition with_memory :: "(addr \<Rightarrow> state_t) \<Rightarrow> (addr \<Rightarrow> vpop) \<Rightarrow> kstate \<Rightarrow> kstate" where
  "with_memory hs hv s = s\<lparr>heap_state := hs, heap_vpop := hv\<rparr>"

lemma with_memory_ok: "nuc_ok s Q T \<Longrightarrow> nuc_ok (with_memory hs hv s) Q T"
  by (erule nuc_ok_same) (simp_all add: with_memory_def same_queues_def same_family_def same_env_def)

end
