(* ===== verification/Nucleus_Properties.thy ===== *)
theory Nucleus_Properties
  imports Samples
begin

text \<open>
  What the nucleus promises, stated over the model's own operations, each with an
  example at a concrete state where its hypotheses hold.
\<close>

section \<open>The system as a whole\<close>






text \<open>C2: Every trap and interrupt handler, entered in a state with the invariant and within its
  guards, runs to its end: it loads a state with a process at the head of the ready
  queue, or sleeps while some process waits for the clock or a device, or halts. It never uses an
  invalid address, never loops forever and never panics.\<close>

theorem handlers_end_well:
  assumes "nuc_ok s Q T" "m \<in> entries s Q"
  shows "\<exists>e. m = Exit e \<and> outcome_ok e"
  by (rule entries_exit [OF assms])

theorem handlers_end_well_witness:
  "nuc_ok boot0 boot_queues (Some (PNode 0 [])) \<and> trapmmhandler boot0 \<in> entries boot0 boot_queues
    \<and> (\<exists>e. trapmmhandler boot0 = Exit e \<and> outcome_ok e)"
proof -
  have "trapmmhandler boot0 \<in> entries boot0 boot_queues" by (simp add: entries_def boot_queues_def)
  with boot0(2) handlers_end_well [OF boot0(2) this] show ?thesis by blast
qed



section \<open>Processes\<close>

text \<open>C6: SYS1 takes the first unused entry, gives it the state D4 points to, appends it to the
  caller's children and to the end of the ready queue, and returns 0 in D2; nothing else
  of the other processes changes.\<close>

theorem create_process:
  assumes "nuc_ok s Q (Some T)" "ready Q = c # cs" "unused Q = n # ns"
  shows "\<exists>s' T' rs. Create_Process old s = Ok s'
    \<and> nuc_ok s' (Q\<lparr>unused := ns, ready := ready Q @ [n]\<rparr>) (Some T')
    \<and> (c, rs) \<in> set (edges T) \<and> (c, rs @ [n]) \<in> set (edges T') \<and> root T' = root T
    \<and> p_s (proc_table s' n) = heap_state s (s_r (heap_state s old) 4)
    \<and> (\<forall>q. q \<noteq> n \<longrightarrow> p_s (proc_table s' q) = p_s (proc_table s q))
    \<and> heap_state s' = (heap_state s)(old := set_reg 2 0 (heap_state s old)) \<and> heap_int s' = heap_int s"
  using Create_ok [OF assms, of old] by blast

theorem create_process_witness:
  "\<exists>s' T' rs. Create_Process old_sys_call_state boot0 = Ok s'
    \<and> nuc_ok s' (boot_queues\<lparr>unused := [2..<20], ready := [0, 1]\<rparr>) (Some T')
    \<and> (0, rs @ [1]) \<in> set (edges T')"
proof -
  have u: "ready boot_queues = 0 # []" "unused boot_queues = 1 # [2..<20]"
    by (simp_all add: boot_queues_def upt_conv_Cons del: upt_rec_numeral)
  from create_process [OF boot0(2) u, of old_sys_call_state] obtain s' T' rs where
    "Create_Process old_sys_call_state boot0 = Ok s'"
    "nuc_ok s' (boot_queues\<lparr>unused := [2..<20], ready := ready boot_queues @ [1]\<rparr>) (Some T')"
    "(0, rs @ [1]) \<in> set (edges T')" by blast
  then show ?thesis unfolding u(1) by (intro exI [of _ s'] exI [of _ T'] exI [of _ rs]) simp
qed

text \<open>SYS1 with all twenty entries in use changes nothing but D2, which becomes -1.\<close>

lemma create_process_full:
  assumes "repr s Q" "unused Q = []" "ready Q \<noteq> []"
  shows "Create_Process old s = Ok (set_state old (set_reg 2 (- 1) (heap_state s old)) s)"
  by (rule Create_none [OF assms])

lemma create_process_full_witness:
  "\<exists>Q. repr full0 Q \<and> unused Q = [] \<and> ready Q \<noteq> [] \<and> Create_Process old_sys_call_state full0
    = Ok (set_state old_sys_call_state (set_reg 2 (- 1) (heap_state full0 old_sys_call_state)) full0)"
proof -
  from full0 obtain Q T cs where Q: "nuc_ok full0 Q (Some T)" "ready Q = 0 # cs" "unused Q = []" by blast
  then show ?thesis using create_process_full [OF nuc_okD(1) [OF Q(1)] Q(3), of old_sys_call_state] nuc_okD(1) [OF Q(1)]
    by (intro exI [of _ Q]) simp
qed

text \<open>C4: SYS2 kills the caller and all its descendants, and nobody else: they leave the ready queue
  and every semaphore queue, each semaphore they waited for is incremented once per
  process, their entries return to the unused ones, the caller is no longer a child of its
  parent, and the dispatcher takes over. Without a surviving process the tree is empty,
  which is the case exactly when the caller was the root.\<close>

theorem terminate_process:
  assumes "nuc_ok s Q (Some T)" "ready Q = c # cs"
  shows "\<exists>t s1 T'. Terminate_Process s = schedule s1 \<and> t \<in> set (subs T) \<and> root t = c
    \<and> nuc_ok s1 \<lparr>ready = filter (\<lambda>p. p \<notin> set (procs t)) (ready Q),
        blocked = leave (\<lambda>a p. p \<in> set (procs t)) (blocked Q), unused = unused Q @ procs t\<rparr> T'
    \<and> heap_int s1 = (\<lambda>a. heap_int s a + of_nat (length (filter (\<lambda>p. p \<in> set (procs t)) (wait_of (blocked Q) a))))
    \<and> (T' = None \<longleftrightarrow> c = root T)"
proof -
  from Terminate_ok [OF assms] obtain t s1 T' where "Terminate_Process s = schedule s1" "t \<in> set (subs T)" "root t = c"
    "killed s Q (procs t) s1" "nuc_ok s1 (kill_q (procs t) Q) T'" "T' = None \<longleftrightarrow> c = root T" by (metis option.distinct(1))
  then show ?thesis
    by (intro exI [of _ t] exI [of _ s1] exI [of _ T']) (simp add: kill_q_def killed_def kill_heap_def fun_eq_iff)
qed

theorem terminate_process_witness:
  "\<exists>s1. Terminate_Process boot0 = schedule s1
    \<and> nuc_ok s1 \<lparr>ready = [], blocked = [], unused = [1..<20] @ [0]\<rparr> None"
proof -
  have "ready boot_queues = 0 # []" by (simp add: boot_queues_def)
  from terminate_process [OF boot0(2) this] obtain s1 T' where s1: "Terminate_Process boot0 = schedule s1"
    "nuc_ok s1 \<lparr>ready = filter (\<lambda>p. p \<notin> set (procs (PNode 0 []))) (ready boot_queues),
        blocked = leave (\<lambda>a p. p \<in> set (procs (PNode 0 []))) (blocked boot_queues),
        unused = unused boot_queues @ procs (PNode 0 [])\<rparr> T'"
    "T' = None \<longleftrightarrow> 0 = root (PNode 0 [])" by auto
  then have "nuc_ok s1 \<lparr>ready = [], blocked = [], unused = [1..<20] @ [0]\<rparr> None"
    by (simp add: boot_queues_def leave_def del: upt_rec_numeral)
  with s1(1) show ?thesis by blast
qed

section \<open>Semaphores\<close>

text \<open>C3: SYS3 performs the P and V of its vector one after the other, as \<open>sem_step\<close> says: a V on
  a negative semaphore wakes the process that has waited longest, which becomes ready when
  it waits for nothing else, and a P that makes its semaphore negative queues the caller
  there. If some P did, the caller leaves the ready queue with its state saved and the dispatcher
  takes over; otherwise the caller goes on.\<close>

theorem semaphore_vector:
  assumes "nuc_ok s Q T" "ready Q = c # cs" "sem_pre c (sem_args s old) Q"
    and "fold (sem_step c) (sem_args s old) (heap_int s, Q) = (h', Q')"
  shows "\<exists>s'. heap_int s' = h'
    \<and> (if some_blocks (sem_args s old) (heap_int s)
       then Sem_OP old s = schedule s' \<and> repr s' (Q'\<lparr>ready := tl (ready Q')\<rparr>)
         \<and> live_ok (Q'\<lparr>ready := tl (ready Q')\<rparr>) \<and> p_s (proc_table s' c) = heap_state s old
       else Sem_OP old s = Ok s' \<and> repr s' Q' \<and> live_ok Q')
    \<and> unused Q' = unused Q \<and> first_of (ready Q') = Some c"
  using Sem_OP_refines [OF nuc_okD(1,2) [OF assms(1)] assms(2) sem_args_def assms(3,4)] by blast

definition sem0 :: kstate where
  "sem0 = with_memory (\<lambda>_. set_reg 3 1 (set_reg 4 0x7000 blank_state)) (\<lambda>_. \<lparr>vp_op = LOCK, vp_sem = 0x4000\<rparr>) boot0"

lemma sem0: "nuc_ok sem0 boot_queues (Some (PNode 0 []))" "sem_args sem0 old = [\<lparr>vp_op = LOCK, vp_sem = 0x4000\<rparr>]"
  "heap_int sem0 0x4000 = 0"
  using with_memory_ok [OF boot0(2)] boot0(4) [of "0x4000"]
  by (simp_all add: sem0_def sem_args_def with_memory_def set_reg_def nuc_sems_def)

theorem semaphore_vector_witness:
  "\<exists>s'. Sem_OP 0x930 sem0 = schedule s' \<and> heap_int s' 0x4000 = - 1
    \<and> repr s' \<lparr>ready = [], blocked = [(0x4000, [0])], unused = [1..<20]\<rparr>"
proof -
  have r: "ready boot_queues = 0 # []" by (simp add: boot_queues_def)
  have pre: "sem_pre 0 (sem_args sem0 0x930) boot_queues"
    by (simp add: sem0(2) sem_pre_def boot_queues_def occupied_def)
  have f: "fold (sem_step 0) (sem_args sem0 0x930) (heap_int sem0, boot_queues)
    = ((heap_int sem0)(0x4000 := - 1), boot_queues\<lparr>blocked := [(0x4000, [0])]\<rparr>)"
    by (simp add: sem0(2,3) Let_def boot_queues_def)
  from semaphore_vector [OF sem0(1) r pre f] show ?thesis
    by (auto simp: sem0(2,3) boot_queues_def simp del: upt_rec_numeral)
qed

section \<open>Devices and the clock\<close>

text \<open>Waiting and being woken: the caller ends up at the end of the ready queue.\<close>

lemma wake_block_head:
  assumes n: "nuc_ok s Q T" and ne: "ready Q = c # cs" and w: "wait_of (blocked Q) a = []"
  shows "wake a (block_head a Q) = Q\<lparr>ready := cs @ [c]\<rparr>"
proof -
  have B: "\<forall>(b, q) \<in> set (blocked Q). q \<noteq> []" "distinct (map fst (blocked Q))"
    using nuc_okD(5) [OF n] by (auto simp: aq_ok_def)
  have a: "a \<notin> fst ` set (blocked Q)"
  proof
    assume "a \<in> fst ` set (blocked Q)"
    then obtain q where "(a, q) \<in> set (blocked Q)" by auto
    with wait_of_mem [OF B(2) this] B(1) w show False by auto
  qed
  have "leave (\<lambda>b r. b = a \<and> r = c) (blocked Q) = blocked Q"
    by (rule leave_id) (use B(1) a in force)
  then have l: "leave (\<lambda>b r. b = a \<and> r = c) (block a c (blocked Q)) = blocked Q"
    using block_miss [OF a, of c] by (simp add: leave_append) (simp add: leave_def)
  have "occupied (Q\<lparr>ready := cs, blocked := blocked Q\<rparr>) c = 0"
    using head_alone(1) [OF nuc_okD(1,2) [OF n] ne] by simp
  then show ?thesis using w l by (simp add: wake_def block_head_def ne wait_of_block Let_def)
qed

lemma schedule_waiting:
  assumes r: "repr s Q" and w: "dev_waits s Q"
  shows "\<exists>e t. schedule s = Exit e \<and> exit_state e = Some t \<and> repr t Q \<and> heap_int t = heap_int s \<and> devreg t = devreg s
    \<and> dev_sem t = dev_sem s \<and> (\<forall>p. p_s (proc_table t p) = p_s (proc_table s p))"
proof (cases "ready Q")
  case Nil
  then show ?thesis using r w
    by (auto simp: schedule_idle [OF r Nil] intdeadlock_cases [OF r] intschedule_def dev_sem_def)
next
  case (Cons p ps)
  then show ?thesis using schedule_ready [OF r Cons] by (auto simp: dispatched_def dev_sem_def)
qed

text \<open>C5: It makes no difference to a process whether a device completes before or after the
  process asks for it with SYS8: either way it finds the length and the status of the
  operation in D2 and D3 and the semaphore of the device is back to 0. In the first case it
  simply goes on, in the second it has waited and is the last of the ready queue.\<close>

theorem io_order_irrelevant:
  assumes n: "nuc_ok s Q T" and ne: "ready Q = c # cs"
    and d: "s_r (heap_state s old) 4 = of_nat i" "i < 15" "dev_pos type dev = int i"
    and v: "heap_int s (dev_sem s i) = 0" and room: "\<not> asl_full Q (dev_sem s i)"
  shows "(\<exists>s1. rbind (inthandler type dev s) (waitforio old) = Ok s1
      \<and> heap_state s1 old = set_reg 3 (d_stat (devreg s i)) (set_reg 2 (d_dadd (devreg s i)) (heap_state s old))
      \<and> heap_int s1 (dev_sem s i) = 0 \<and> repr s1 Q)
    \<and> (\<exists>e t s2. waitforio old s = Exit e \<and> exit_state e = Some t \<and> inthandler type dev t = Ok s2
      \<and> p_s (proc_table s2 c) = set_reg 3 (d_stat (devreg s i)) (set_reg 2 (d_dadd (devreg s i)) (heap_state s old))
      \<and> heap_int s2 (dev_sem s i) = 0 \<and> repr s2 (Q\<lparr>ready := cs @ [c]\<rparr>))"
proof
  let ?a = "dev_sem s i"
  note r = nuc_okD(1) [OF n] and l = nuc_okD(2) [OF n]
  have a: "?a \<in> nuc_sems s" using d(2) by (simp add: nuc_sems_def)
  have w: "wait_of (blocked Q) ?a = []" using nuc_okD(7) [OF n a] v by (simp add: sem_ok_def)
  let ?u = "s\<lparr>heap_int := (heap_int s)(?a := 1), save_arr := (save_arr s)(i := \<lparr>amnt = d_dadd (devreg s i), stat = d_stat (devreg s i)\<rparr>)\<rparr>"
  have "inthandler type dev s = Ok ?u" using inthandler_saves [OF d(3,2)] v by simp
  moreover have "waitforio old ?u = Ok (set_state old (set_reg 3 (d_stat (devreg s i))
      (set_reg 2 (d_dadd (devreg s i)) (heap_state s old))) (set_int ?a 0 ?u))"
    using waitforio_saved [of ?u old i] d(1,2) by (simp add: dev_sem_def)
  ultimately show "\<exists>s1. rbind (inthandler type dev s) (waitforio old) = Ok s1
      \<and> heap_state s1 old = set_reg 3 (d_stat (devreg s i)) (set_reg 2 (d_dadd (devreg s i)) (heap_state s old))
      \<and> heap_int s1 ?a = 0 \<and> repr s1 Q" using r by simp
  have "heap_int s ?a \<noteq> 1" "sint (heap_int s ?a - 1) < 0" using v by simp_all
  from waitforio_blocks [OF d(1,2) this(1) r l ne nuc_okD(6) [OF n a] room this(2)] v obtain s1 where
    s1: "waitforio old s = schedule s1" "repr s1 (block_head ?a Q)"
      "core s1 = core (set_int ?a (- 1) (upd_proc c (\<lambda>e. e\<lparr>p_s := heap_state s old\<rparr>) s))" by auto
  have e1: "heap_int s1 ?a = - 1" "devreg s1 = devreg s" "dev_sem s1 = dev_sem s" "p_s (proc_table s1 c) = heap_state s old"
    using core_eqD [OF s1(3)] by (simp_all add: dev_sem_def [abs_def])
  have w1: "wait_of (blocked (block_head ?a Q)) ?a = [c]" using w ne by (simp add: wait_of_block_head)
  then have "dev_waits s1 (block_head ?a Q)" using d(2) e1(3) by (auto simp: dev_waits_def)
  from schedule_waiting [OF s1(2) this] obtain e t where t: "schedule s1 = Exit e" "exit_state e = Some t"
    "repr t (block_head ?a Q)" "heap_int t = heap_int s1" "devreg t = devreg s1" "dev_sem t = dev_sem s1"
    "\<forall>p. p_s (proc_table t p) = p_s (proc_table s1 p)" by blast
  have "heap_int t (dev_sem t i) = - 1" "wait_of (blocked (block_head ?a Q)) (dev_sem t i) = [c]"
    using t(4,6) e1 w1 by simp_all
  from inthandler_wakes [OF d(3,2) this(1) t(3) this(2)] obtain s2 where s2: "inthandler type dev t = Ok s2"
    "repr s2 (wake ?a (block_head ?a Q))" "core s2 = core (set_int ?a 0 (upd_proc c (\<lambda>e. e\<lparr>p_s :=
        set_reg 3 (d_stat (devreg t i)) (set_reg 2 (d_dadd (devreg t i)) (p_s e))\<rparr>) t))"
    using t(6) e1(3) by auto
  have "p_s (proc_table s2 c) = set_reg 3 (d_stat (devreg s i)) (set_reg 2 (d_dadd (devreg s i)) (heap_state s old))"
    "heap_int s2 ?a = 0" using core_eqD [OF s2(3)] t(5,7) e1 by simp_all
  with s1(1) t(1,2) s2(1,2) wake_block_head [OF n ne w]
  show "\<exists>e t s2. waitforio old s = Exit e \<and> exit_state e = Some t \<and> inthandler type dev t = Ok s2
      \<and> p_s (proc_table s2 c) = set_reg 3 (d_stat (devreg s i)) (set_reg 2 (d_dadd (devreg s i)) (heap_state s old))
      \<and> heap_int s2 ?a = 0 \<and> repr s2 (Q\<lparr>ready := cs @ [c]\<rparr>)" by simp
qed

definition dev0 :: kstate where
  "dev0 = with_memory (\<lambda>_. set_reg 4 5 blank_state) (\<lambda>_. \<lparr>vp_op = 0, vp_sem = 0\<rparr>) boot0"

lemma dev0: "nuc_ok dev0 boot_queues (Some (PNode 0 []))" "heap_int dev0 (dev_sem dev0 5) = 0"
  "s_r (heap_state dev0 old) 4 = of_nat 5"
proof -
  have "dev_sem boot0 5 = dev_sem blank 5" using boot0(3) by (simp add: dev_sem_def same_env_def)
  moreover have "dev_sem blank 5 \<in> nuc_sems blank" by (simp add: nuc_sems_def)
  ultimately show "heap_int dev0 (dev_sem dev0 5) = 0"
    using boot0(4) by (simp add: dev0_def with_memory_def dev_sem_def)
qed (simp_all add: dev0_def with_memory_ok [OF boot0(2)], simp add: with_memory_def set_reg_def)

theorem io_order_irrelevant_witness:
  "\<exists>e t s2. waitforio 0x930 dev0 = Exit e \<and> exit_state e = Some t \<and> inthandler PRINTER 0 t = Ok s2
    \<and> s_r (p_s (proc_table s2 0)) 3 = d_stat (devreg dev0 5)"
proof -
  have "ready boot_queues = 0 # []" "\<not> asl_full boot_queues (dev_sem dev0 5)" "dev_pos PRINTER 0 = int 5"
    by (simp_all add: boot_queues_def asl_full_def dev_pos_def)
  from io_order_irrelevant [OF dev0(1) this(1) dev0(3) _ this(3) dev0(2) this(2), of "0x930"]
  show ?thesis by (auto simp: set_reg_def)
qed

text \<open>C10: A clock interrupt saves the interrupted state in the entry of the running process, charges
  it the time since it was started, moves it to the end of the ready queue, and after
  100 ms of full quanta wakes the process that has waited longest for the pseudo-clock; then the
  dispatcher takes over.\<close>

theorem clock_tick:
  assumes "nuc_ok s Q T"
  shows "\<exists>s1. intclockhandler s = schedule s1
    \<and> repr s1 (if clock_due s then wake (clock_lock_at s) (rotate_ready Q) else rotate_ready Q)
    \<and> clock_count s1 = (if clock_due s then 0 else clock_count s + quantum)
    \<and> heap_int s1 = (if clock_due s \<and> wait_of (blocked Q) (clock_lock_at s) \<noteq> []
        then (heap_int s)(clock_lock_at s := heap_int s (clock_lock_at s) + 1) else heap_int s)
    \<and> (\<forall>p. p_s (proc_table s1 p)
        = (if first_of (ready Q) = Some p then heap_state s old_clock_state else p_s (proc_table s p)))
    \<and> (\<forall>p. cpu_time (proc_table s1 p) = cpu_time (proc_table s p)
        + (if first_of (ready Q) = Some p then clock_at s (clock_reads s) - start_t (proc_table s p) else 0))"
proof -
  have "clock_lock_at s \<in> nuc_sems s" by (simp add: nuc_sems_def)
  from intclockhandler_refines [OF nuc_okD(1,2) [OF assms] nuc_okD(7) [OF assms this]] show ?thesis
    unfolding after_tick_def clock_waits_def by blast
qed

theorem clock_tick_witness:
  "\<exists>s1. intclockhandler boot0 = schedule s1 \<and> p_s (proc_table s1 0) = heap_state boot0 old_clock_state"
proof -
  have "first_of (ready boot_queues) = Some 0" by (simp add: boot_queues_def)
  then show ?thesis using clock_tick [OF boot0(2)] by auto
qed

text \<open>C11: The dispatcher loads the state of the process at the head of the ready queue with a full
  quantum and the start time recorded. With no ready process it waits for the clock (with the
  timer set) or for a device if some process does, and otherwise stops the machine: normal
  termination when no process is blocked, deadlock when some are.\<close>

theorem dispatcher:
  assumes "nuc_ok s Q T"
  shows "schedule s = (case ready Q of
      p # ps \<Rightarrow> Exit (LDST (p_s (proc_table s p))
        (upd_proc p (\<lambda>e. e\<lparr>start_t := clock_at s (clock_reads s)\<rparr>)
          (s\<lparr>interval_timer := quantum, clock_reads := Suc (clock_reads s)\<rparr>)))
    | [] \<Rightarrow> if wait_of (blocked Q) (clock_lock_at s) \<noteq> [] then Exit (SLEEP (s\<lparr>interval_timer := quantum\<rparr>))
        else if \<exists>i < 15. wait_of (blocked Q) (dev_sem s i) \<noteq> [] then Exit (SLEEP s)
        else if blocked Q = [] then Exit (HALTED (printed 0 s))
        else Exit (HALTED (printed 1 s)))"
proof -
  note r = nuc_okD(1) [OF assms]
  show ?thesis
    using schedule_ready(1) [OF r] schedule_idle [OF r] intdeadlock_cases [OF r] nuc_okD(4) [OF assms]
    by (auto simp: dispatched_def clock_waits_def dev_waits_def intschedule_def split: list.splits)
qed

theorem dispatcher_witness:
  "\<exists>s1. Terminate_Process boot0 = schedule s1 \<and> schedule s1 = Exit (HALTED (printed 0 s1))
    \<and> print_buf (printed 0 s1) = ''nucleus: normal termination''"
proof -
  have r: "ready boot_queues = 0 # []" by (simp add: boot_queues_def)
  from Terminate_ok [OF boot0(2) r] obtain t s1 T' where s1: "Terminate_Process boot0 = schedule s1"
    "t \<in> set (subs (PNode 0 []))" "nuc_ok s1 (kill_q (procs t) boot_queues) T'" by blast
  then have "nuc_ok s1 (kill_q [0] boot_queues) T'" by simp
  from dispatcher [OF this] s1(1) show ?thesis
    by (intro exI [of _ s1]) (simp add: kill_q_def boot_queues_def leave_def printed_def print_msg_def)
qed

section \<open>Traps\<close>

text \<open>C12: A process in user mode that executes SYS1 to SYS8 gets a privileged-instruction program
  trap instead of the service: if it has declared a handler with SYS5, the state at the time
  of the call, with the trap type set to PRIVILEGE, is stored in the declared area and the declared
  new state is loaded; otherwise it is terminated. The service itself is not performed.\<close>

theorem user_mode_call_trapped:
  assumes n: "nuc_ok s Q T" and ne: "ready Q = c # cs"
    and u: "ps_s (s_sr (heap_state s old_sys_call_state)) = 0"
    and no: "1 \<le> sys_no (s_tmp (heap_state s old_sys_call_state))" "sys_no (s_tmp (heap_state s old_sys_call_state)) \<le> 8"
  shows "\<exists>s1. nuc_ok s1 Q T \<and> trapsyshandler s =
    (if prog_new (proc_table s c) = ENULL_addr then Terminate_Process s1
     else rbind (start_time (Some c) s1) (\<lambda>s'. Exit (LDST (heap_state s1 (prog_new (proc_table s c))) s')))
    \<and> (prog_new (proc_table s c) \<noteq> ENULL_addr \<longrightarrow>
       heap_state s1 (prog_old (proc_table s c)) = (heap_state s old_sys_call_state)
         \<lparr>s_tmp := set_pr_typ PRIVILEGE (s_tmp (heap_state s old_sys_call_state))\<rparr>)"
proof -
  let ?o = old_sys_call_state
  define st where "st = (heap_state s ?o)\<lparr>s_tmp := set_pr_typ PRIVILEGE (s_tmp (heap_state s ?o))\<rparr>"
  have c: "c < 20" by (rule head_alone(3) [OF nuc_okD(1,2) [OF n] ne])
  let ?cpu = "\<lambda>e. e\<lparr>cpu_time := cpu_time e + (clock_at s (clock_reads s) - start_t e)\<rparr>"
  define s1 where "s1 = upd_proc c ?cpu (s\<lparr>clock_reads := Suc (clock_reads s)\<rparr>)"
  define s2 where "s2 = set_state ?o st s1"
  have n1: "nuc_ok s1 Q T" unfolding s1_def by (rule nuc_ok_upd [OF nuc_ok_fields(1) [OF n]]) simp_all
  then have n2: "nuc_ok s2 Q T" unfolding s2_def by blast
  have pt: "prog_new (proc_table s2 c) = prog_new (proc_table s c)" "prog_old (proc_table s2 c) = prog_old (proc_table s c)"
    by (simp_all add: s2_def s1_def)
  have "get_interval (Some c) s = Ok s1" by (simp add: get_interval_upd [OF c] s1_def)
  moreover have "heap_state s1 = heap_state s" by (simp add: s1_def)
  ultimately have "trapsyshandler s = rbind (pass_up ?o 0 s2) (\<lambda>s. rbind (dispatch_sys
        (unat (sys_no (s_tmp (heap_state s ?o)))) s) (\<lambda>s. rbind (start_time (Some c) s) (\<lambda>s. Exit (LDST (heap_state s ?o) s))))"
    using headQueue_ready [OF nuc_okD(1) [OF n]] ne u no
    unfolding trapsyshandler_def Let_def by (simp add: s2_def st_def)
  moreover obtain e where "pass_up ?o 0 s2 = Exit e" using pass_up_exits [OF n2 ne, of 0 ?o] by auto
  ultimately have h: "trapsyshandler s = pass_up ?o 0 s2" by simp
  have p: "pass_up ?o 0 s2 = (if prog_new (proc_table s c) \<noteq> ENULL_addr
      then deliver ?o (prog_old (proc_table s c)) (prog_new (proc_table s c)) (Some c) s2 else Terminate_Process s2)"
    using headQueue_ready [OF nuc_okD(1) [OF n2]] ne c pt by (simp add: pass_up_def)
  show ?thesis
  proof (cases "prog_new (proc_table s c) = ENULL_addr")
    case True
    then show ?thesis using h p n2 by auto
  next
    case False
    let ?s3 = "set_state (prog_old (proc_table s c)) st s2"
    have "heap_state s2 ?o = st" by (simp add: s2_def)
    then have "trapsyshandler s = rbind (start_time (Some c) ?s3)
        (\<lambda>s'. Exit (LDST (heap_state ?s3 (prog_new (proc_table s c))) s'))"
      unfolding h p using False c by (simp add: deliver_def start_time_upd)
    moreover have "nuc_ok ?s3 Q T" using n2 by blast
    moreover have "heap_state ?s3 (prog_old (proc_table s c)) = st" by simp
    ultimately show ?thesis using False by (intro exI [of _ ?s3]) (simp add: st_def)
  qed
qed

definition user0 :: kstate where
  "user0 = with_memory (\<lambda>_. blank_state\<lparr>s_tmp := 3, s_sr := blank_sr\<lparr>ps_s := 0\<rparr>\<rparr>) (\<lambda>_. \<lparr>vp_op = 0, vp_sem = 0\<rparr>) boot0"

theorem user_mode_call_trapped_witness:
  "\<exists>s1. nuc_ok s1 boot_queues (Some (PNode 0 [])) \<and> trapsyshandler user0 = Terminate_Process s1"
proof -
  have v: "prog_new (proc_table user0 0) = ENULL_addr"
    using boot0(5) by (simp add: user0_def with_memory_def no_vectors_def)
  have n: "nuc_ok user0 boot_queues (Some (PNode 0 []))" unfolding user0_def by (rule with_memory_ok [OF boot0(2)])
  have r: "ready boot_queues = 0 # []" by (simp add: boot_queues_def)
  have "ps_s (s_sr (heap_state user0 old_sys_call_state)) = 0" "1 \<le> sys_no (s_tmp (heap_state user0 old_sys_call_state))"
    "sys_no (s_tmp (heap_state user0 old_sys_call_state)) \<le> 8"
    by (simp_all add: user0_def with_memory_def sys_no_def)
  from user_mode_call_trapped [OF n r this] v show ?thesis by auto
qed



text \<open>C14: SYS5 records the old and new areas of D3 and D4 for the trap class of D2 (0 program, 1
  memory management, 2 system call) once; a process that declares the same class again is
  terminated, and a class other than these three changes nothing.\<close>

theorem trap_vector_declared_once:
  assumes n: "nuc_ok s Q T" and ne: "ready Q = c # cs"
  shows "Specify_Trap_State_Vector old s =
    (let st = heap_state s old; e = proc_table s c in
     if s_r st 2 = 0 then
       if prog_old e \<noteq> ENULL_addr then Terminate_Process s
       else Ok (upd_proc c (\<lambda>e. e\<lparr>prog_old := s_r st 3, prog_new := s_r st 4\<rparr>) s)
     else if s_r st 2 = 1 then
       if memory_management_old e \<noteq> ENULL_addr then Terminate_Process s
       else Ok (upd_proc c (\<lambda>e. e\<lparr>memory_management_old := s_r st 3, memory_management_new := s_r st 4\<rparr>) s)
     else if s_r st 2 = 2 then
       if system_call_old e \<noteq> ENULL_addr then Terminate_Process s
       else Ok (upd_proc c (\<lambda>e. e\<lparr>system_call_old := s_r st 3, system_call_new := s_r st 4\<rparr>) s)
     else Ok s)
   \<and> (s_r (heap_state s old) 3 \<noteq> ENULL_addr \<longrightarrow> s_r (heap_state s old) 2 \<in> {0, 1, 2} \<longrightarrow>
      rbind (Specify_Trap_State_Vector old s) (Specify_Trap_State_Vector old)
        = rbind (Specify_Trap_State_Vector old s) Terminate_Process)"
proof -
  have c: "c < 20" by (rule head_alone(3) [OF nuc_okD(1,2) [OF n] ne])
  note h = headQueue_ready [OF nuc_okD(1) [OF n]]
  have h': "headQueue (running_queue s) (upd_proc c f s) = Ok (Some c)" if "keeps_queue f" for f
  proof -
    have "repr (upd_proc c f s) Q" using nuc_okD(1) [OF n] that by simp
    from headQueue_ready [OF this] ne show ?thesis by simp
  qed
  obtain e where T: "Terminate_Process s = Exit e" using Terminate_exits [OF n ne] by blast
  show ?thesis using h ne c
    by (auto simp: Specify_Trap_State_Vector_def Let_def wr_proc_upd h' T)
qed

definition trap0 :: kstate where
  "trap0 = with_memory (\<lambda>_. set_reg 2 1 (set_reg 3 0x600 (set_reg 4 0x700 blank_state))) (heap_vpop boot0) boot0"

theorem trap_vector_declared_once_witness:
  "Specify_Trap_State_Vector 0x930 trap0
     = Ok (upd_proc 0 (\<lambda>e. e\<lparr>memory_management_old := 0x600, memory_management_new := 0x700\<rparr>) trap0)
   \<and> rbind (Specify_Trap_State_Vector 0x930 trap0) (Specify_Trap_State_Vector 0x930)
     = rbind (Specify_Trap_State_Vector 0x930 trap0) Terminate_Process"
proof -
  have n: "nuc_ok trap0 boot_queues (Some (PNode 0 []))" unfolding trap0_def by (rule with_memory_ok [OF boot0(2)])
  have m: "memory_management_old (proc_table trap0 0) = ENULL_addr" "s_r (heap_state trap0 a) 2 = 1"
    "s_r (heap_state trap0 a) 3 = 0x600" "s_r (heap_state trap0 a) 4 = 0x700" for a
    using boot0(5) by (simp_all add: trap0_def with_memory_def no_vectors_def set_reg_def)
  have "ready boot_queues = 0 # []" by (simp add: boot_queues_def)
  from trap_vector_declared_once [OF n this, of "0x930"] m show ?thesis by (auto simp: Let_def)
qed



end
