(* ===== verification/Queue_Properties.thy ===== *)
theory Queue_Properties
  imports Samples
begin

text \<open>
  What the queue modules promise: process queues and the free list are first-in first-out, the
  active semaphore list keeps one such queue per semaphore, a process is taken off all its
  semaphores at once, and running out of entries or descriptors is reported and changes nothing.
\<close>

section \<open>Process queues\<close>

text \<open>C31: Whatever is inserted into a process queue with \<open>insertProc\<close> comes out of \<open>removeProc\<close> in
  the same order, after what was there before, and then the queue is empty.\<close>

theorem process_queue_fifo:
  assumes "queue_rep (tp, s) xs" "\<forall>y \<in> set ys. can_insert y (tp, s) xs" "distinct ys"
  shows "\<exists>q1 q2. seq_enq (\<lambda>p (tp, s). insertProc tp (Some p) s) ys (tp, s) = Ok q1
    \<and> seq_deq (\<lambda>(tp, s). removeProc tp s) (length xs + length ys) q1 = Ok (map Some (xs @ ys), q2)
    \<and> queue_rep q2 [] \<and> removeProc (fst q2) (snd q2) = Ok (None, q2)"
proof -
  from pq.fifo_order [OF assms] obtain q1 q2 where
    "seq_enq (\<lambda>p (tp, s). insertProc tp (Some p) s) ys (tp, s) = Ok q1"
    "seq_deq (\<lambda>(tp, s). removeProc tp s) (length xs + length ys) q1 = Ok (map Some (xs @ ys), q2)" "queue_rep q2 []"
    by blast
  with pq.deq_empty [OF this(3)] show ?thesis
    by (intro exI [of _ q1] exI [of _ q2]) (simp add: case_prod_beta)
qed

lemma blank_queue: "queue_rep (null_link, blank) []" "p < 20 \<Longrightarrow> can_insert p (null_link, blank) []"
  by (simp_all add: queue_rep_def pring_def can_insert_def free_slot_def scan_less_iff blank_def blank_proc_def
      exI [of _ 0])

theorem process_queue_fifo_witness:
  "\<exists>q1 q2. seq_enq (\<lambda>p (tp, s). insertProc tp (Some p) s) [3, 1, 2] (null_link, blank) = Ok q1
    \<and> seq_deq (\<lambda>(tp, s). removeProc tp s) 3 q1 = Ok ([Some 3, Some 1, Some 2], q2)"
  using process_queue_fifo [OF blank_queue(1), of "[3, 1, 2]"] blank_queue(2) by (auto simp: numeral_3_eq_3)

text \<open>Entries given back with \<open>freeProc\<close> are handed out again by \<open>allocProc\<close> in the order they
  came back, after those that were free before; the next call then finds none.\<close>

lemma free_entries_fifo:
  assumes "freelist s xs" "\<forall>y \<in> set ys. y < 20 \<and> y \<notin> set xs" "distinct ys"
  shows "\<exists>s1 s2. seq_enq (\<lambda>p. freeProc (Some p)) ys s = Ok s1
    \<and> seq_deq allocProc (length xs + length ys) s1 = Ok (map Some (xs @ ys), s2) \<and> allocProc s2 = Ok (None, s2)"
proof -
  have "\<forall>y \<in> set ys. can_free y s xs" using assms(2) by (simp add: can_free_def)
  from pool.fifo_order [OF assms(1) this assms(3)] show ?thesis using pool.deq_empty by blast
qed

lemma free_entries_fifo_witness:
  "\<exists>s1 s2. seq_enq (\<lambda>p. freeProc (Some p)) [7, 4] blank = Ok s1
    \<and> seq_deq allocProc 2 s1 = Ok ([Some 7, Some 4], s2) \<and> allocProc s2 = Ok (None, s2)"
proof -
  have "freelist blank []" by (simp add: freelist_def blank_def)
  from free_entries_fifo [OF this, of "[7, 4]"] show ?thesis by (simp add: numeral_2_eq_2)
qed

section \<open>The active semaphore list\<close>

text \<open>C40: \<open>initProc\<close> and \<open>initSemd\<close> build the empty structures from any memory contents: no process
  is ready or blocked, all twenty entries are free in order.\<close>

theorem queues_initialised:
  "repr (initSemd (initProc (s\<lparr>running_queue := null_link\<rparr>))) \<lparr>ready = [], blocked = [], unused = [0..<20]\<rparr>"
  using init_repr [of "s\<lparr>running_queue := null_link\<rparr>"] by (simp add: empty_queues_def)

text \<open>C30: The processes blocked on a semaphore leave it in the order they came: inserting distinct
  processes with \<open>insertBlocked\<close> and then removing as many with \<open>removeBlocked\<close> yields first
  those that waited before, then these, each in order, and nobody waits afterwards.\<close>

theorem semaphore_queue_fifo:
  assumes "repr s Q" "\<forall>p \<in> set ps. can_block Q a p" "\<not> asl_full Q a" "distinct ps"
  shows "\<exists>s1 s2. seq_enq (\<lambda>p s. rbind (insertBlocked a (Some p) s) (\<lambda>(full, s). Ok s)) ps s = Ok s1
    \<and> seq_deq (removeBlocked a) (length (wait_of (blocked Q) a) + length ps) s1
      = Ok (map Some (wait_of (blocked Q) a @ ps), s2)
    \<and> headBlocked a s2 = Ok None"
proof -
  have "\<forall>p \<in> set ps. can_wait a p s (wait_of (blocked Q) a)" using assms by (auto simp: can_wait_def)
  from semq.fifo_order [OF sem_repI [OF assms(1) refl] this assms(4)] obtain s1 s2 where
    "seq_enq (block_on a) ps s = Ok s1" "sem_rep a s2 []"
    "seq_deq (removeBlocked a) (length (wait_of (blocked Q) a) + length ps) s1
      = Ok (map Some (wait_of (blocked Q) a @ ps), s2)" by blast
  with semq.front_None [OF this(2)] show ?thesis by (auto simp: block_on_def [abs_def])
qed

theorem semaphore_queue_fifo_witness:
  "\<exists>s1 s2. seq_enq (\<lambda>p s. rbind (insertBlocked 0x6000 (Some p) s) (\<lambda>(full, s). Ok s)) [0] boot0 = Ok s1
    \<and> seq_deq (removeBlocked 0x6000) 1 s1 = Ok ([Some 0], s2) \<and> headBlocked 0x6000 s2 = Ok None"
proof -
  have "\<forall>p \<in> set [0]. can_block boot_queues 0x6000 p" "\<not> asl_full boot_queues 0x6000"
    by (simp_all add: can_block_def asl_full_def boot_queues_def occupied_def)
  from semaphore_queue_fifo [OF nuc_okD(1) [OF boot0(2)] this] show ?thesis by (simp add: boot_queues_def)
qed

text \<open>C33: \<open>insertBlocked\<close> puts a process at the end of the queue of its semaphore, activating the
  semaphore with a free descriptor if nobody waits for it yet; when all twenty descriptors
  are in use by other semaphores it answers TRUE and changes nothing.\<close>

theorem insert_blocked:
  assumes "repr s Q" "can_block Q a p"
  shows "if asl_full Q a then insertBlocked a (Some p) s = Ok (True, s)
    else \<exists>s'. insertBlocked a (Some p) s = Ok (False, s') \<and> repr s' (Q\<lparr>blocked := block a p (blocked Q)\<rparr>)
      \<and> heap_int s' = heap_int s"
proof (cases "asl_full Q a")
  case False
  from insertBlocked_refines [OF assms False] obtain s' where "insertBlocked a (Some p) s = Ok (False, s')"
    "core s' = core s" "repr s' (Q\<lparr>blocked := block a p (blocked Q)\<rparr>)" by blast
  with core_eqD(1) [OF this(2)] False show ?thesis by auto
qed (simp add: insertBlocked_refuses [OF assms(1)])

theorem insert_blocked_witness:
  "\<exists>s'. insertBlocked 0x6000 (Some 0) boot0 = Ok (False, s')
    \<and> repr s' (boot_queues\<lparr>blocked := [(0x6000, [0])]\<rparr>)"
proof -
  have "can_block boot_queues 0x6000 0" "\<not> asl_full boot_queues 0x6000" "blocked boot_queues = []"
    by (simp_all add: can_block_def asl_full_def boot_queues_def occupied_def)
  with insert_blocked [OF nuc_okD(1) [OF boot0(2)] this(1)] show ?thesis by auto
qed

text \<open>C32: \<open>outBlocked\<close> takes a process off every semaphore it waits for, increments each of these
  semaphores once, and leaves the order of the others and all other semaphores alone; it
  answers whether the process was blocked at all.\<close>

theorem out_blocked:
  assumes "repr s Q" "p < 20"
  shows "\<exists>s'. outBlocked (Some p) s = Ok (if \<exists>a. p \<in> set (wait_of (blocked Q) a) then Some p else None, s')
    \<and> (\<forall>a. heap_int s' a = heap_int s a + (if p \<in> set (wait_of (blocked Q) a) then 1 else 0))
    \<and> repr s' (Q\<lparr>blocked := leave (\<lambda>a r. r = p) (blocked Q)\<rparr>)"
proof -
  from outBlocked_refines [OF assms] obtain s' where s': "outBlocked (Some p) s = Ok (if sems_of Q p = {} then None else Some p, s')"
    "core s' = core (s\<lparr>heap_int := incr_all (sems_of Q p) (heap_int s)\<rparr>)"
    "repr s' (Q\<lparr>blocked := leave (\<lambda>a r. r = p) (blocked Q)\<rparr>)" by blast
  moreover have "heap_int s' = incr_all (sems_of Q p) (heap_int s)" using core_eqD [OF s'(2)] by simp
  moreover have "(\<exists>a. p \<in> set (wait_of (blocked Q) a)) \<longleftrightarrow> sems_of Q p \<noteq> {}" by (auto simp: sems_of_def)
  ultimately show ?thesis by (intro exI [of _ s']) (auto simp: incr_all_def sems_of_def)
qed

theorem out_blocked_witness:
  "\<exists>s'. outBlocked (Some 0) boot0 = Ok (None, s') \<and> heap_int s' = heap_int boot0"
  using out_blocked [OF nuc_okD(1) [OF boot0(2)], of 0] by (auto simp: boot_queues_def fun_eq_iff)

end
