(* ===== verification/Programs.thy ===== *)
theory Programs
  imports Machine
begin

text \<open>
  Programs above the nucleus: the support level and the test processes. Such a program runs on
  variables shared with the other processes and enters the nucleus by system calls, at
  which it may be delayed. A program is therefore a tree: at each node it returns, reads or
  changes the shared variables, or makes a system call and goes on with what the call
  returns. Reads and changes are the steps at which another process can intervene.

  \<open>'v\<close> names the semaphores and \<open>'w\<close> the processor-state areas of a program, \<open>'g\<close> is the type of
  its other variables. The addresses of named variables are distinct, which is all the
  programs use of them.
\<close>

section \<open>Programs\<close>

record ('v, 'w, 'g) umem =
  sems :: "'v \<Rightarrow> int32"
  areas :: "'w \<Rightarrow> state_t"
  vars :: 'g

text \<open>Updates of a memory in one order: semaphores, areas, variables.\<close>

lemma umem_order [simp]:
  "sems_update f (vars_update h m) = vars_update h (sems_update f m)"
  "sems_update f (areas_update k m) = areas_update k (sems_update f m)"
  "areas_update k (vars_update h m) = vars_update h (areas_update k m)"
  for m :: "('v, 'w, 'g) umem"
  by (rule umem.equality; simp)+

lemma fun_upd_restored [simp]:
  "y \<noteq> x \<Longrightarrow> f(x := a, y := f y) = f(x := a)"
  "y \<noteq> x \<Longrightarrow> y \<noteq> z \<Longrightarrow> f(x := a, z := b, y := f y) = f(x := a, z := b)"
  by (auto simp: fun_eq_iff)

text \<open>One element of the vector of a SYS3: the operation and its semaphore.\<close>

type_synonym 'v semop = "int32 \<times> 'v"

datatype ('v, 'w, 'g, 'a) prog =
    Return 'a
  | Read "('v, 'w, 'g) umem \<Rightarrow> ('v, 'w, 'g, 'a) prog"
  | Write "('v, 'w, 'g) umem \<Rightarrow> ('v, 'w, 'g) umem" "('v, 'w, 'g, 'a) prog"
  | SYS1 state_t "int32 \<Rightarrow> ('v, 'w, 'g, 'a) prog"
  | SYS2
  | SYS3 "'v semop list" "('v, 'w, 'g, 'a) prog"
  | SYS5 int32 'w 'w "('v, 'w, 'g, 'a) prog"
  | SYS6 "int32 \<Rightarrow> ('v, 'w, 'g, 'a) prog"
  | SYS7 "('v, 'w, 'g, 'a) prog"
  | SYS8 nat "int32 \<times> int32 \<Rightarrow> ('v, 'w, 'g, 'a) prog"
  | SYS9 "('v, 'w, 'g, 'a) prog"
  | STCK "int32 \<Rightarrow> ('v, 'w, 'g, 'a) prog"
  | STST "state_t \<Rightarrow> ('v, 'w, 'g, 'a) prog"
  | DIVU int32 "('v, 'w, 'g, 'a) prog"
  | LDST_area 'w
  | LDST_state state_t
  | HALT
  | STUCK

text \<open>
  \<open>SYS1 st\<close> passes the state at the address in D4 and returns D2; \<open>SYS8\<close> returns D2 and D3; \<open>DIVU d\<close>
  divides by \<open>d\<close> and traps when it is 0; \<open>LDST_area\<close> and \<open>LDST_state\<close> load a state from an area or a
  local variable. \<open>STUCK\<close> is an access outside an array, or the end of the fuel of a loop.
\<close>

primrec pbind :: "('v, 'w, 'g, 'a) prog \<Rightarrow> ('a \<Rightarrow> ('v, 'w, 'g, 'b) prog) \<Rightarrow> ('v, 'w, 'g, 'b) prog" where
  "pbind (Return x) f = f x"
| "pbind (Read h) f = Read (\<lambda>m. pbind (h m) f)"
| "pbind (Write u p) f = Write u (pbind p f)"
| "pbind (SYS1 st h) f = SYS1 st (\<lambda>r. pbind (h r) f)"
| "pbind SYS2 f = SYS2"
| "pbind (SYS3 ops p) f = SYS3 ops (pbind p f)"
| "pbind (SYS5 t old new p) f = SYS5 t old new (pbind p f)"
| "pbind (SYS6 h) f = SYS6 (\<lambda>r. pbind (h r) f)"
| "pbind (SYS7 p) f = SYS7 (pbind p f)"
| "pbind (SYS8 dev h) f = SYS8 dev (\<lambda>d. pbind (h d) f)"
| "pbind (SYS9 p) f = SYS9 (pbind p f)"
| "pbind (STCK h) f = STCK (\<lambda>t. pbind (h t) f)"
| "pbind (STST h) f = STST (\<lambda>st. pbind (h st) f)"
| "pbind (DIVU d p) f = DIVU d (pbind p f)"
| "pbind (LDST_area w) f = LDST_area w"
| "pbind (LDST_state st) f = LDST_state st"
| "pbind HALT f = HALT"
| "pbind STUCK f = STUCK"

lemma pbind_Return [simp]: "pbind p Return = p"
  by (induction p) auto

lemma pbind_assoc: "pbind (pbind p f) g = pbind p (\<lambda>x. pbind (f x) g)"
  by (induction p) auto

text \<open>The usual pieces: sequencing without a value, variables, loops over a range.\<close>

abbreviation pseq :: "('v, 'w, 'g, unit) prog \<Rightarrow> ('v, 'w, 'g, 'b) prog \<Rightarrow> ('v, 'w, 'g, 'b) prog" where
  "pseq p q \<equiv> pbind p (\<lambda>_. q)"

definition skip :: "('v, 'w, 'g, unit) prog" where "skip = Return ()"

definition getv :: "('g \<Rightarrow> 'a) \<Rightarrow> ('v, 'w, 'g, 'a) prog" where
  "getv f = Read (\<lambda>m. Return (f (vars m)))"

definition gets :: "'v \<Rightarrow> ('v, 'w, 'g, int32) prog" where
  "gets v = Read (\<lambda>m. Return (sems m v))"

definition geta :: "'w \<Rightarrow> ('v, 'w, 'g, state_t) prog" where
  "geta w = Read (\<lambda>m. Return (areas m w))"

definition modv :: "('g \<Rightarrow> 'g) \<Rightarrow> ('v, 'w, 'g, unit) prog" where
  "modv f = Write (\<lambda>m. m\<lparr>vars := f (vars m)\<rparr>) (Return ())"

definition puts :: "'v \<Rightarrow> int32 \<Rightarrow> ('v, 'w, 'g, unit) prog" where
  "puts v x = Write (\<lambda>m. m\<lparr>sems := (sems m)(v := x)\<rparr>) (Return ())"

definition moda :: "'w \<Rightarrow> (state_t \<Rightarrow> state_t) \<Rightarrow> ('v, 'w, 'g, unit) prog" where
  "moda w f = Write (\<lambda>m. m\<lparr>areas := (areas m)(w := f (areas m w))\<rparr>) (Return ())"

fun pfor :: "'i list \<Rightarrow> ('i \<Rightarrow> ('v, 'w, 'g, unit) prog) \<Rightarrow> ('v, 'w, 'g, unit) prog" where
  "pfor [] body = Return ()"
| "pfor (i # is) body = pseq (body i) (pfor is body)"

text \<open>A loop that tests before each round, cut off when its fuel is spent.\<close>

fun pwhile :: "nat \<Rightarrow> (('v, 'w, 'g) umem \<Rightarrow> bool) \<Rightarrow> ('v, 'w, 'g, unit) prog \<Rightarrow> ('v, 'w, 'g, unit) prog" where
  "pwhile 0 b body = STUCK"
| "pwhile (Suc n) b body = Read (\<lambda>m. if b m then pseq body (pwhile n b body) else Return ())"

section \<open>A program running alone\<close>

text \<open>
  What a program does while no other process intervenes: each system call acts at once. The
  run ends when the program returns or stops, or when it blocks: \<open>Blocks\<close> keeps the
  operations of the SYS3, or the device or clock it waits for, and the rest of the program.
  \<open>dv\<close> says what a device does with the shared variables when it is waited for: it completes
  its operation and returns the length and status of D2 and D3. \<open>now\<close> are the readings of
  the clock, \<open>cpu\<close> those of the CPU time, \<open>self\<close> the processor state of the process, \<open>room\<close> the number
  of unused process entries. \<open>born\<close> and \<open>declared\<close> record the arguments of SYS1 and SYS5.
\<close>

record ('v, 'w, 'g) world =
  dv :: "nat \<Rightarrow> 'g \<Rightarrow> ((int32 \<times> int32) \<times> 'g) option"
  now :: "int32 list"
  cpu :: "int32 list"
  room :: nat
  self :: state_t
  born :: "state_t list"
  declared :: "(int32 \<times> 'w \<times> 'w) list"

datatype ('v, 'w, 'g, 'a) run =
    Done 'a
  | Blocks "('v, 'w, 'g, 'a) prog"
  | Ended
  | Halted
  | Loaded state_t
  | Trapped "('v, 'w, 'g, 'a) prog"
  | Stuck

text \<open>P and V one after the other; the flag says whether some P found its semaphore negative.\<close>

fun do_ops :: "'v semop list \<Rightarrow> ('v \<Rightarrow> int32) \<Rightarrow> bool \<times> ('v \<Rightarrow> int32)" where
  "do_ops [] s = (False, s)"
| "do_ops ((opr, v) # ops) s =
     (if opr = LOCK
      then (let (b, s') = do_ops ops (s(v := s v - 1)) in (sint (s v - 1) < 0 \<or> b, s'))
      else do_ops ops (s(v := s v + 1)))"

primrec solo :: "('v, 'w, 'g, 'a) prog \<Rightarrow> ('v, 'w, 'g) world \<Rightarrow> ('v, 'w, 'g) umem
    \<Rightarrow> ('v, 'w, 'g, 'a) run \<times> ('v, 'w, 'g) world \<times> ('v, 'w, 'g) umem" where
  "solo (Return x) e m = (Done x, e, m)"
| "solo (Read h) e m = solo (h m) e m"
| "solo (Write u p) e m = solo p e (u m)"
| "solo (SYS1 st h) e m =
     (if room e = 0 then solo (h (- 1)) e m else solo (h 0) (e\<lparr>room := room e - 1, born := born e @ [st]\<rparr>) m)"
| "solo SYS2 e m = (Ended, e, m)"
| "solo (SYS3 ops p) e m =
     (let (b, s) = do_ops ops (sems m) in
      if b then (Blocks p, e, m\<lparr>sems := s\<rparr>) else solo p e (m\<lparr>sems := s\<rparr>))"
| "solo (SYS5 t old new p) e m = solo p (e\<lparr>declared := declared e @ [(t, old, new)]\<rparr>) m"
| "solo (SYS6 h) e m = (case cpu e of [] \<Rightarrow> solo (h 0) e m | t # ts \<Rightarrow> solo (h t) (e\<lparr>cpu := ts\<rparr>) m)"
| "solo (SYS7 p) e m = (Blocks p, e, m)"
| "solo (SYS8 dev h) e m = (case dv e dev (vars m) of
       None \<Rightarrow> (Blocks (h (0, 0)), e, m)
     | Some (d, g) \<Rightarrow> solo (h d) e (m\<lparr>vars := g\<rparr>))"
| "solo (SYS9 p) e m = (Trapped p, e, m)"
| "solo (STCK h) e m = (case now e of [] \<Rightarrow> solo (h 0) e m | t # ts \<Rightarrow> solo (h t) (e\<lparr>now := ts\<rparr>) m)"
| "solo (STST h) e m = solo (h (self e)) e m"
| "solo (DIVU d p) e m = (if d = 0 then (Trapped p, e, m) else solo p e m)"
| "solo (LDST_area w) e m = (Loaded (areas m w), e, m)"
| "solo (LDST_state st) e m = (Loaded st, e, m)"
| "solo HALT e m = (Halted, e, m)"
| "solo STUCK e m = (Stuck, e, m)"

text \<open>A sequence runs its parts one after the other.\<close>

fun after_run :: "('v, 'w, 'g, 'a) run \<times> ('v, 'w, 'g) world \<times> ('v, 'w, 'g) umem \<Rightarrow> ('a \<Rightarrow> ('v, 'w, 'g, 'b) prog)
    \<Rightarrow> ('v, 'w, 'g, 'b) run \<times> ('v, 'w, 'g) world \<times> ('v, 'w, 'g) umem" where
  "after_run (Done x, e, m) f = solo (f x) e m"
| "after_run (Blocks p, e, m) f = (Blocks (pbind p f), e, m)"
| "after_run (Trapped p, e, m) f = (Trapped (pbind p f), e, m)"
| "after_run (Ended, e, m) f = (Ended, e, m)"
| "after_run (Halted, e, m) f = (Halted, e, m)"
| "after_run (Loaded st, e, m) f = (Loaded st, e, m)"
| "after_run (Stuck, e, m) f = (Stuck, e, m)"

lemma solo_pbind: "solo (pbind p f) e m = after_run (solo p e m) f"
proof (induction p arbitrary: e m)
  case (SYS3 ops p)
  then show ?case by (auto split: prod.splits)
next
  case (SYS8 dev h)
  then show ?case by (auto split: option.splits)
next
  case (STCK h)
  then show ?case by (auto split: list.splits)
next
  case (SYS6 h)
  then show ?case by (auto split: list.splits)
qed auto

lemma solo_vars [simp]:
  "solo skip e m = (Done (), e, m)" "solo (getv g) e m = (Done (g (vars m)), e, m)"
  "solo (gets v) e m = (Done (sems m v), e, m)" "solo (geta w) e m = (Done (areas m w), e, m)"
  "solo (modv u) e m = (Done (), e, m\<lparr>vars := u (vars m)\<rparr>)"
  "solo (puts v x) e m = (Done (), e, m\<lparr>sems := (sems m)(v := x)\<rparr>)"
  "solo (moda w h) e m = (Done (), e, m\<lparr>areas := (areas m)(w := h (areas m w))\<rparr>)"
  by (simp_all add: skip_def getv_def gets_def geta_def modv_def puts_def moda_def)

text \<open>A loop over a range that only changes variables is the fold of its changes.\<close>

lemma solo_pfor_modv:
  "solo (pfor is (\<lambda>i. modv (u i))) e m = (Done (), e, m\<lparr>vars := fold u is (vars m)\<rparr>)"
  by (induction "is" arbitrary: m) (simp_all add: solo_pbind)

lemma solo_pfor_append:
  "solo (pfor (is @ js) body) e m = after_run (solo (pfor is body) e m) (\<lambda>_. pfor js body)"
proof -
  have "pfor (is @ js) body = pbind (pfor is body) (\<lambda>_. pfor js body)"
    by (induction "is") (simp_all add: pbind_assoc)
  then show ?thesis by (simp add: solo_pbind)
qed

section \<open>P and V\<close>

text \<open>\<open>src/util/passeren.c\<close> and \<open>src/util/verhogen.c\<close>: a vector of one operation.\<close>

definition passeren :: "'v \<Rightarrow> ('v, 'w, 'g, unit) prog" where
  "passeren i = SYS3 [(LOCK, i)] (Return ())"

definition verhogen :: "'v \<Rightarrow> ('v, 'w, 'g, unit) prog" where
  "verhogen i = SYS3 [(UNLOCK, i)] (Return ())"

lemma solo_passeren [simp]:
  "solo (passeren i) e m = (if sint (sems m i - 1) < 0 then Blocks (Return ()) else Done (), e,
     m\<lparr>sems := (sems m)(i := sems m i - 1)\<rparr>)"
  by (simp add: passeren_def)

lemma solo_verhogen [simp]:
  "solo (verhogen i) e m = (Done (), e, m\<lparr>sems := (sems m)(i := sems m i + 1)\<rparr>)"
  by (simp add: verhogen_def)

end
