(* ===== verification/Supdata.thy ===== *)
theory Supdata
  imports Programs
begin

text \<open>
  The data of the support level: page and segment descriptors (\<open>src/h/types.h\<close>), the tables of
  \<open>src/h/support.h\<close>, and the variables of \<open>src/support\<close> in one record. A semaphore that is a
  member of a structure (\<open>d_sem[i].sem_value\<close>, \<open>ds_arr[i].sem_value\<close>, \<open>vs_arr[i].sem_value\<close>) is
  named by a constructor of \<open>sem\<close>; the six states of \<open>sa[i]\<close> are the areas.
\<close>

section \<open>Descriptors\<close>

record pd_t =
  pd_p :: "1 word"
  pd_m :: "1 word"
  pd_r :: "1 word"
  pd_frame :: "15 word"

text \<open>Which page table a segment descriptor points to.\<close>

datatype pta =
    P1a_pt
  | Shared_pt
  | Unprivileged_pt nat
  | Privileged_pt nat
  | Page_daemon_pt
  | Disk_daemon_pt
  | No_pt

record sd_t =
  sd_p :: "1 word"
  sd_prot :: "3 word"
  sd_len :: "10 word"
  sd_pta :: pta

section \<open>Tables\<close>

definition TER :: nat where "TER = 5"
definition PAGESIZE :: int where "PAGESIZE = 512"
definition MAXFRAMES :: nat where "MAXFRAMES = 20"
definition HIGH :: int32 where "HIGH = 4"
definition LOW :: int32 where "LOW = 2"

lemmas sup_consts [simp] = TER_def PAGESIZE_def MAXFRAMES_def HIGH_def LOW_def

record mm_table =
  buf :: "nat \<Rightarrow> 8 word"
  unprivileged_seg :: "nat \<Rightarrow> sd_t"
  privileged_seg :: "nat \<Rightarrow> sd_t"
  unprivileged_seg_page_table :: "nat \<Rightarrow> pd_t"
  privileged_seg_page_table :: "nat \<Rightarrow> pd_t"

record delay_sem =
  d_time :: int32
  d_start :: int32

record diks_scheduler =
  ds_track :: int32
  ds_sector :: int32
  ds_op :: int32

record page_frame_scheduler =
  pf_pid :: int
  pf_seg :: int
  pf_page :: int
  pf_track :: int
  pf_sector :: int

record virtual_sem =
  vs_addr :: addr

datatype sem =
    Sem_mm
  | Sem_floppy
  | Sem_disk
  | Sem_page
  | Sem_pf
  | Protected_sem
  | Cron_sem
  | D_sem nat
  | Ds_sem nat
  | Vs_sem nat

datatype area =
    Prog_old nat
  | Prog_new nat
  | Mm_old nat
  | Mm_new nat
  | Sys_old nat
  | Sys_new nat

section \<open>The linked program\<close>

text \<open>
  Addresses only the linker knows: the bounds of the text, data and bss sections, the entry
  points of functions, the segment tables and terminal buffers. \<open>SEG1\<close> and \<open>SEG2\<close> are the first
  addresses of the private and the shared segment, from a header the repository lacks.
\<close>

datatype segtab = P1a_st | Unprivileged_st nat | Privileged_st nat | Page_daemon_st | Disk_daemon_st

record linked =
  etext :: int
  edata :: int
  end_bss :: int
  startt1 :: int
  startd1 :: int
  startb1 :: int
  entry :: "string \<Rightarrow> int32"
  segtab_at :: "segtab \<Rightarrow> addr"
  buf_at :: "nat \<Rightarrow> addr"
  SEG1 :: addr
  SEG2 :: addr

section \<open>Variables\<close>

text \<open>
  \<open>vmem i\<close> is what terminal process \<open>i\<close> has at its virtual addresses, byte by byte, \<open>shared_int\<close> the
  integers in the shared segment, \<open>frames f\<close> the words of page frame \<open>f\<close> of the memory;
  \<open>floppy t s\<close> is what the floppy disk holds in track \<open>t\<close> and sector \<open>s\<close>, and \<open>head\<close> the track its head is at.
\<close>

record sup =
  mm :: "nat \<Rightarrow> mm_table"
  d_sem :: "nat \<Rightarrow> delay_sem"
  p1a_seg_table :: "nat \<Rightarrow> sd_t"
  p1a_seg_table_page_table :: "nat \<Rightarrow> pd_t"
  shared_seg_table_page_table :: "nat \<Rightarrow> pd_t"
  p_alive :: int32
  pf_ctr :: int
  pf_start :: int
  Tsysframe :: "nat \<Rightarrow> int"
  Tmmframe :: "nat \<Rightarrow> int"
  Scronframe :: int
  Spagedframe :: int
  Sdiskframe :: int
  Tsysstack :: "nat \<Rightarrow> int"
  Tmmstack :: "nat \<Rightarrow> int"
  Scronstack :: int
  Spagedstack :: int
  Sdiskstack :: int
  disk :: "nat \<Rightarrow> nat \<Rightarrow> int"
  page_daemon_seg :: "nat \<Rightarrow> sd_t"
  disk_daemon_seg :: "nat \<Rightarrow> sd_t"
  page_daemon_page :: "nat \<Rightarrow> pd_t"
  disk_daemon_page :: "nat \<Rightarrow> pd_t"
  ds_arr :: "nat \<Rightarrow> diks_scheduler"
  pfs_arr :: "nat \<Rightarrow> page_frame_scheduler"
  vs_arr :: "nat \<Rightarrow> virtual_sem"
  dev_arr :: "nat \<Rightarrow> devreg_t"
  vmem :: "nat \<Rightarrow> addr \<Rightarrow> 8 word"
  shared_int :: "addr \<Rightarrow> int32"
  frames :: "int \<Rightarrow> nat \<Rightarrow> int32"
  floppy :: "int \<Rightarrow> int \<Rightarrow> nat \<Rightarrow> int32"
  head :: int

type_synonym 'a sprog = "(sem, area, sup, 'a) prog"

section \<open>Assignments to members\<close>

text \<open>Descriptors of page \<open>i\<close> in the tables.\<close>

definition upd_mm :: "nat \<Rightarrow> (mm_table \<Rightarrow> mm_table) \<Rightarrow> sup \<Rightarrow> sup" where
  "upd_mm n f g = g\<lparr>mm := (mm g)(n := f (mm g n))\<rparr>"

definition upd_upage :: "nat \<Rightarrow> nat \<Rightarrow> (pd_t \<Rightarrow> pd_t) \<Rightarrow> sup \<Rightarrow> sup" where
  "upd_upage n i f = upd_mm n (\<lambda>t. t\<lparr>unprivileged_seg_page_table :=
     (unprivileged_seg_page_table t)(i := f (unprivileged_seg_page_table t i))\<rparr>)"

definition upd_ppage :: "nat \<Rightarrow> nat \<Rightarrow> (pd_t \<Rightarrow> pd_t) \<Rightarrow> sup \<Rightarrow> sup" where
  "upd_ppage n i f = upd_mm n (\<lambda>t. t\<lparr>privileged_seg_page_table :=
     (privileged_seg_page_table t)(i := f (privileged_seg_page_table t i))\<rparr>)"

definition upd_useg :: "nat \<Rightarrow> nat \<Rightarrow> (sd_t \<Rightarrow> sd_t) \<Rightarrow> sup \<Rightarrow> sup" where
  "upd_useg n i f = upd_mm n (\<lambda>t. t\<lparr>unprivileged_seg := (unprivileged_seg t)(i := f (unprivileged_seg t i))\<rparr>)"

definition upd_pseg :: "nat \<Rightarrow> nat \<Rightarrow> (sd_t \<Rightarrow> sd_t) \<Rightarrow> sup \<Rightarrow> sup" where
  "upd_pseg n i f = upd_mm n (\<lambda>t. t\<lparr>privileged_seg := (privileged_seg t)(i := f (privileged_seg t i))\<rparr>)"

definition upd_spage :: "nat \<Rightarrow> (pd_t \<Rightarrow> pd_t) \<Rightarrow> sup \<Rightarrow> sup" where
  "upd_spage i f g = g\<lparr>shared_seg_table_page_table :=
     (shared_seg_table_page_table g)(i := f (shared_seg_table_page_table g i))\<rparr>"

definition upd_dev :: "nat \<Rightarrow> (devreg_t \<Rightarrow> devreg_t) \<Rightarrow> sup \<Rightarrow> sup" where
  "upd_dev d f g = g\<lparr>dev_arr := (dev_arr g)(d := f (dev_arr g d))\<rparr>"

definition upd_frame :: "nat \<Rightarrow> (page_frame_scheduler \<Rightarrow> page_frame_scheduler) \<Rightarrow> sup \<Rightarrow> sup" where
  "upd_frame i f g = g\<lparr>pfs_arr := (pfs_arr g)(i := f (pfs_arr g i))\<rparr>"

definition upd_ds :: "nat \<Rightarrow> (diks_scheduler \<Rightarrow> diks_scheduler) \<Rightarrow> sup \<Rightarrow> sup" where
  "upd_ds i f g = g\<lparr>ds_arr := (ds_arr g)(i := f (ds_arr g i))\<rparr>"

definition upd_vs :: "nat \<Rightarrow> addr \<Rightarrow> sup \<Rightarrow> sup" where
  "upd_vs i a g = g\<lparr>vs_arr := (vs_arr g)(i := (vs_arr g i)\<lparr>vs_addr := a\<rparr>)\<rparr>"

lemmas upd_defs = upd_mm_def upd_upage_def upd_ppage_def upd_useg_def upd_pseg_def upd_spage_def
  upd_dev_def upd_frame_def upd_ds_def upd_vs_def

end
