(* ===== verification/Pager.thy ===== *)
theory Pager
  imports Supdata
begin

text \<open>
  Page frames and the paging daemon, \<open>src/support/part2/page.c\<close>. \<open>pfs_arr\<close> says for each of
  the twenty frames which page of which terminal process it holds (\<open>pf_pid = -1\<close>: free); \<open>sem_pf\<close>
  counts the free frames and \<open>sem_mm\<close> protects the tables. A page that was thrown out keeps its
  place on the floppy disk in \<open>pd_frame\<close>, track and sector in one number.
\<close>

unbundle bit_operations_syntax

section \<open>P, V and the floppy disk\<close>

definition P :: "sem \<Rightarrow> unit sprog" where
  "P sem_value = SYS3 [(LOCK, sem_value)] (Return ())"

definition V :: "sem \<Rightarrow> unit sprog" where
  "V sem_value = SYS3 [(UNLOCK, sem_value)] (Return ())"

text \<open>
  The first sector of the table that is free. When none is, the function ends without a \<open>return\<close>
  and its caller uses an undefined value.
\<close>

definition free_sector :: "sup \<Rightarrow> (nat \<times> nat) option" where
  "free_sector g = find (\<lambda>(i, j). disk g i j = - 1) (List.product [0..<100] [0..<8])"

definition get_disk_pos :: "int sprog" where
  "get_disk_pos = pbind (getv free_sector) (\<lambda>r. case r of
       None \<Rightarrow> STUCK
     | Some (i, j) \<Rightarrow> pseq (modv (\<lambda>g. g\<lparr>disk := (disk g)(i := (disk g i)(j := 1))\<rparr>))
         (Return (push_bit 3 (int i) OR int j)))"

definition page_in_out_helper :: "int \<Rightarrow> int \<Rightarrow> int32 \<Rightarrow> int \<Rightarrow> unit sprog" where
  "page_in_out_helper track sector op pf =
     SYS3 [(UNLOCK, Sem_mm), (LOCK, Sem_floppy)] (
     pseq (modv (upd_dev 11 (\<lambda>d. d\<lparr>d_dadd := of_int track\<rparr>))) (
     pseq (modv (upd_dev 11 (\<lambda>d. d\<lparr>d_op := IOSEEK\<rparr>))) (
     SYS8 11 (\<lambda>_.
     pseq (modv (upd_dev 11 (\<lambda>d. d\<lparr>d_badd := of_int (pf * PAGESIZE)\<rparr>))) (
     pseq (modv (upd_dev 11 (\<lambda>d. d\<lparr>d_dadd := of_int sector\<rparr>))) (
     pseq (modv (upd_dev 11 (\<lambda>d. d\<lparr>d_op := op\<rparr>))) (
     SYS8 11 (\<lambda>_.
     SYS3 [(LOCK, Sem_mm), (UNLOCK, Sem_floppy)] (Return ())))))))))"

section \<open>Initialisation\<close>

definition present :: "int \<Rightarrow> pd_t \<Rightarrow> pd_t" where
  "present num d = d\<lparr>pd_r := 1, pd_p := 1, pd_frame := of_int num\<rparr>"

definition absent :: "int \<Rightarrow> pd_t \<Rightarrow> pd_t" where
  "absent num d = d\<lparr>pd_r := 1, pd_p := 0, pd_frame := of_int num\<rparr>"

definition upd_page_daemon :: "nat \<Rightarrow> (pd_t \<Rightarrow> pd_t) \<Rightarrow> sup \<Rightarrow> sup" where
  "upd_page_daemon i f g = g\<lparr>page_daemon_page := (page_daemon_page g)(i := f (page_daemon_page g i))\<rparr>"

definition upd_disk_daemon :: "nat \<Rightarrow> (pd_t \<Rightarrow> pd_t) \<Rightarrow> sup \<Rightarrow> sup" where
  "upd_disk_daemon i f g = g\<lparr>disk_daemon_page := (disk_daemon_page g)(i := f (disk_daemon_page g i))\<rparr>"

definition set_page_present :: "nat \<Rightarrow> nat \<Rightarrow> sup \<Rightarrow> sup" where
  "set_page_present num judge =
     (if judge = 0 then upd_disk_daemon num (present (int num)) \<circ> upd_page_daemon num (present (int num))
      else if judge = 1 then upd_disk_daemon num (present (int num))
      else upd_page_daemon num (present (int num)))"

text \<open>The frames and stacks of the processes, after the end of the program.\<close>

definition stack_of :: "int \<Rightarrow> int" where
  "stack_of f = f * 512 - 2"

definition init_frames :: "int \<Rightarrow> sup \<Rightarrow> sup" where
  "init_frames endframe g = g\<lparr>
     Tsysframe := (Tsysframe g)(0 := endframe + 2, 1 := endframe + 3, 2 := endframe + 4, 3 := endframe + 5, 4 := endframe + 6),
     Tmmframe := (Tmmframe g)(0 := endframe + 7, 1 := endframe + 8, 2 := endframe + 9, 3 := endframe + 10, 4 := endframe + 11),
     Scronframe := endframe + 12, Spagedframe := endframe + 13, Sdiskframe := endframe + 14,
     Tsysstack := (Tsysstack g)(0 := stack_of (endframe + 3), 1 := stack_of (endframe + 4), 2 := stack_of (endframe + 5),
       3 := stack_of (endframe + 6), 4 := stack_of (endframe + 7)),
     Tmmstack := (Tmmstack g)(0 := stack_of (endframe + 8), 1 := stack_of (endframe + 9), 2 := stack_of (endframe + 10),
       3 := stack_of (endframe + 11), 4 := stack_of (endframe + 12)),
     Scronstack := stack_of (endframe + 13), Spagedstack := stack_of (endframe + 14), Sdiskstack := stack_of (endframe + 15),
     pf_start := endframe + 17\<rparr>"

text \<open>Pages of the nucleus and the support level that a system process may use.\<close>

definition in_pages :: "int \<Rightarrow> int \<Rightarrow> int \<Rightarrow> bool" where
  "in_pages a b i \<longleftrightarrow> a div PAGESIZE \<le> i \<and> i \<le> b div PAGESIZE"

definition program_page :: "linked \<Rightarrow> int \<Rightarrow> bool" where
  "program_page L i \<longleftrightarrow> in_pages (startt1 L) (etext L) i \<or> in_pages (startd1 L) (edata L) i
     \<or> in_pages (startb1 L) (end_bss L) i"

definition daemon_page :: "linked \<Rightarrow> nat \<Rightarrow> sup \<Rightarrow> sup" where
  "daemon_page L i g =
     (if i = 2 then set_page_present i 0 g
      else if in_pages 0x1400 0x1600 (int i) then set_page_present i 0 g
      else if program_page L (int i) then set_page_present i 0 g
      else if int i = Sdiskframe g then set_page_present i 1 g
      else if int i = Spagedframe g then set_page_present i 2 g
      else upd_disk_daemon i (absent (int i)) (upd_page_daemon i (absent (int i)) g))"

definition sys_state :: "linked \<Rightarrow> string \<Rightarrow> int \<Rightarrow> segtab \<Rightarrow> state_t \<Rightarrow> state_t" where
  "sys_state L pc sp crp st =
     set_reg 15 (of_int sp) (set_reg 16 (entry L pc)
       (st\<lparr>s_sr := (s_sr st)\<lparr>ps_s := 1, ps_m := 1, ps_int := 0\<rparr>, s_crp := segtab_at L crp\<rparr>))"

definition clear_ds :: "nat \<Rightarrow> sup \<Rightarrow> sup" where
  "clear_ds i = upd_vs i 0 \<circ> upd_ds i (\<lambda>d. d\<lparr>ds_op := - 1, ds_track := - 1, ds_sector := - 1\<rparr>)"

definition clear_frame :: "nat \<Rightarrow> sup \<Rightarrow> sup" where
  "clear_frame i = upd_frame i (\<lambda>_. \<lparr>pf_pid = - 1, pf_seg = - 1, pf_page = - 1, pf_track = - 1, pf_sector = - 1\<rparr>)"

definition clear_disk :: "sup \<Rightarrow> sup" where
  "clear_disk g = g\<lparr>disk := (\<lambda>i j. if i < 100 \<and> j < 8 then - 1 else disk g i j)\<rparr>"

definition all_seg0 :: "pta \<Rightarrow> sd_t \<Rightarrow> sd_t" where
  "all_seg0 t d = d\<lparr>sd_p := 1, sd_len := 255, sd_prot := 7, sd_pta := t\<rparr>"

definition daemon_segs :: "sup \<Rightarrow> sup" where
  "daemon_segs g = g\<lparr>
     page_daemon_seg := (\<lambda>i. if i = 0 then all_seg0 Page_daemon_pt (page_daemon_seg g 0)
       else if i < 32 then (page_daemon_seg g i)\<lparr>sd_p := 0\<rparr> else page_daemon_seg g i),
     disk_daemon_seg := (\<lambda>i. if i = 0 then all_seg0 Disk_daemon_pt (disk_daemon_seg g 0)
       else if i < 32 then (disk_daemon_seg g i)\<lparr>sd_p := 0\<rparr> else disk_daemon_seg g i)\<rparr>"

definition pageinit :: "linked \<Rightarrow> unit sprog" where
  "pageinit L =
     (let endframe = end_bss L div PAGESIZE in
      if 220 < endframe then HALT
      else
        pseq (modv (init_frames endframe)) (
        pseq (puts Sem_pf (of_nat MAXFRAMES)) (
        pseq (modv (\<lambda>g. g\<lparr>pf_ctr := 0\<rparr>)) (
        pseq (puts Sem_disk 0) (
        pseq (puts Sem_page 0) (
        pseq (puts Sem_floppy 1) (
        pseq (puts Protected_sem 1) (
        pseq (pfor [0..<MAXPROC] (\<lambda>i. pseq (puts (Ds_sem i) 0) (pseq (puts (Vs_sem i) 0) (modv (clear_ds i))))) (
        pseq (pfor [0..<MAXFRAMES] (\<lambda>i. modv (clear_frame i))) (
        pseq (modv clear_disk) (
        pseq (modv daemon_segs) (
        pseq (pfor [0..<256] (\<lambda>i. modv (daemon_page L i))) (
        pbind (getv Spagedstack) (\<lambda>sp.
        STST (\<lambda>st. SYS1 (sys_state L ''pagedaemon'' sp Page_daemon_st st) (\<lambda>_.
        pbind (getv Sdiskstack) (\<lambda>sp.
        STST (\<lambda>st. SYS1 (sys_state L ''diskdaemon'' sp Disk_daemon_st st) (\<lambda>_.
        Return ())))))))))))))))))))"

section \<open>Getting and giving back frames\<close>

text \<open>The frame that holds a page of the shared segment already, and the first free frame.\<close>

definition shared_frame :: "int \<Rightarrow> int \<Rightarrow> sup \<Rightarrow> nat option" where
  "shared_frame page sg g = find (\<lambda>i. pf_pid (pfs_arr g i) \<noteq> - 1
     \<and> pf_page (pfs_arr g i) = page \<and> pf_seg (pfs_arr g i) = sg) [0..<MAXFRAMES]"

definition free_frame :: "sup \<Rightarrow> nat option" where
  "free_frame g = find (\<lambda>i. pf_pid (pfs_arr g i) = - 1) [0..<MAXFRAMES]"

definition getfreeframe :: "int \<Rightarrow> int \<Rightarrow> int \<Rightarrow> int sprog" where
  "getfreeframe term page sg =
     pseq (P Sem_pf) (
     pseq (P Sem_mm) (
     pbind (if sg = 2 then getv (shared_frame page sg) else Return None) (\<lambda>shared.
     pbind (case shared of
         Some i \<Rightarrow> getv (\<lambda>g. pf_start g + int i)
       | None \<Rightarrow> pbind (getv free_frame) (\<lambda>r. case r of
           None \<Rightarrow> Return (- 1)
         | Some i \<Rightarrow> pseq (modv (upd_frame i (\<lambda>f. f\<lparr>pf_pid := term, pf_page := page, pf_seg := sg,
                         pf_track := - 1, pf_sector := - 1\<rparr>)))
             (getv (\<lambda>g. pf_start g + int i)))) (\<lambda>rv.
     pbind (gets Sem_pf) (\<lambda>n.
     pseq (if sint n \<le> sint LOW then V Sem_page else Return ()) (
     pseq (V Sem_mm) (
     Return rv)))))))"

text \<open>The page descriptor a frame belongs to: private (segment 1) or shared (segment 2).\<close>

definition page_desc :: "nat \<Rightarrow> int \<Rightarrow> nat \<Rightarrow> sup \<Rightarrow> pd_t" where
  "page_desc term sg page g =
     (if sg = 1 then unprivileged_seg_page_table (mm g term) page else shared_seg_table_page_table g page)"

definition upd_page_desc :: "nat \<Rightarrow> int \<Rightarrow> nat \<Rightarrow> (pd_t \<Rightarrow> pd_t) \<Rightarrow> sup \<Rightarrow> sup" where
  "upd_page_desc term sg page f =
     (if sg = 1 then upd_upage term page f else if sg = 2 then upd_spage page f else id)"

definition pagein :: "nat \<Rightarrow> nat \<Rightarrow> int \<Rightarrow> int \<Rightarrow> unit sprog" where
  "pagein term page sg pf =
     pseq (P Sem_mm) (
     pbind (getv (\<lambda>g. if sg = 1 \<or> sg = 2 then uint (pd_frame (page_desc term sg page g)) else - 1)) (\<lambda>page_frame.
     let track = drop_bit 3 page_frame; sector = page_frame AND 7 in
     pseq (page_in_out_helper track sector IOREAD pf) (
     pbind (getv pf_start) (\<lambda>start.
     if pf - start < 0 \<or> int MAXFRAMES \<le> pf - start then STUCK
     else
       pseq (modv (upd_frame (nat (pf - start)) (\<lambda>f. f\<lparr>pf_track := track, pf_sector := sector\<rparr>))) (
       pseq (modv (upd_page_desc term sg page (\<lambda>d. d\<lparr>pd_r := 1\<rparr>))) (
       V Sem_mm))))))"

text \<open>
  The second loop of \<open>putframe\<close> runs over 32 pages and looks at \<open>pfs_arr[i]\<close> for each that is
  on the floppy disk, although there are only twenty frames.
\<close>

definition release_sector :: "nat \<Rightarrow> nat \<Rightarrow> unit sprog" where
  "release_sector term i =
     pbind (getv (\<lambda>g. unprivileged_seg_page_table (mm g term) i)) (\<lambda>d.
     if pd_r d = 0 \<and> pd_p d = 0 then
       if MAXFRAMES \<le> i then STUCK
       else pbind (getv (\<lambda>g. pf_seg (pfs_arr g i))) (\<lambda>s.
         if s \<noteq> 2 then
           let pf = uint (pd_frame d); track = drop_bit 3 pf; sector = pf AND 7 in
           if track < 100 then
             modv (\<lambda>g. g\<lparr>disk := (disk g)(nat track := (disk g (nat track))(nat sector := - 1))\<rparr>)
           else STUCK
         else Return ())
     else Return ())"

definition putframe :: "nat \<Rightarrow> unit sprog" where
  "putframe term =
     pseq (P Sem_mm) (
     pseq (pfor [0..<MAXFRAMES] (\<lambda>i.
       pbind (getv (\<lambda>g. pfs_arr g i)) (\<lambda>f.
       if pf_pid f = int term \<and> pf_seg f \<noteq> 2 then
         pseq (modv (upd_frame i (\<lambda>f. f\<lparr>pf_pid := - 1\<rparr>))) (V Sem_pf)
       else Return ()))) (
     pseq (pfor [0..<32] (release_sector term)) (
     V Sem_mm)))"

section \<open>The paging daemon\<close>

text \<open>Where a page goes: to its old place on the floppy disk or to a new one.\<close>

definition out_position :: "page_frame_scheduler \<Rightarrow> (int \<times> int \<times> int) sprog" where
  "out_position f =
     (if pf_track f \<noteq> - 1 \<and> pf_sector f \<noteq> - 1
      then Return (pf_track f, pf_sector f, push_bit 3 (pf_track f) OR pf_sector f)
      else pbind get_disk_pos (\<lambda>page_frame. Return (drop_bit 3 page_frame, page_frame AND 7, page_frame)))"

text \<open>Throw out the page in frame \<open>i\<close>.\<close>

definition page_out :: "nat \<Rightarrow> nat \<Rightarrow> int \<Rightarrow> nat \<Rightarrow> unit sprog" where
  "page_out i num sg page =
     pseq (modv (upd_page_desc num sg page (\<lambda>d. d\<lparr>pd_p := 0\<rparr>))) (
     pbind (getv (\<lambda>g. pfs_arr g i)) (\<lambda>f.
     pbind (out_position f) (\<lambda>(track, sector, page_frame).
     pseq (modv (upd_page_desc num sg page (\<lambda>d. d\<lparr>pd_frame := of_int page_frame\<rparr>))) (
     pbind (getv pf_start) (\<lambda>start.
     pseq (page_in_out_helper track sector IOWRITE (start + int i)) (
     pseq (modv (upd_frame i (\<lambda>f. f\<lparr>pf_pid := - 1\<rparr>))) (
     V Sem_pf)))))))"

text \<open>Second chance: a referenced page loses its reference bit, an unreferenced one is thrown out.\<close>

definition daemon_frame :: "nat \<Rightarrow> unit sprog" where
  "daemon_frame i =
     pseq (P Sem_mm) (
     pbind (getv (\<lambda>g. pfs_arr g i)) (\<lambda>f.
     pseq (if pf_pid f \<noteq> - 1 \<and> (pf_seg f = 1 \<or> pf_seg f = 2) then
             let num = nat (pf_pid f); page = nat (pf_page f) in
             pbind (getv (page_desc num (pf_seg f) page)) (\<lambda>d.
             if pd_p d = 1 then
               if pd_r d = 1 then modv (upd_page_desc num (pf_seg f) page (\<lambda>d. d\<lparr>pd_r := 0\<rparr>))
               else page_out i num (pf_seg f) page
             else Return ())
           else Return ()) (
     V Sem_mm)))"

text \<open>\<open>fuel\<close> bounds the rounds of each of the two loops.\<close>

definition pagedaemon :: "nat \<Rightarrow> unit sprog" where
  "pagedaemon fuel =
     pseq (pwhile fuel (\<lambda>m. 0 < sint (p_alive (vars m))) (
       pseq (P Sem_page) (
       pwhile fuel (\<lambda>m. sint (sems m Sem_pf) < sint HIGH) (pfor [0..<MAXFRAMES] daemon_frame)))) (
     SYS2)"

end
