(* ===== verification/Slcalls.thy ===== *)
theory Slcalls
  imports Pager
begin

text \<open>
  The system calls of the support level, \<open>src/support/part1/slsyscall1.c\<close> (terminals, delay,
  time, termination) and \<open>src/support/part2/slsyscall2.c\<close> (virtual semaphores, the disk and the
  disk daemon). \<open>old\<close> is the area with the caller's state, \<open>num\<close> the number of its terminal.
\<close>

unbundle bit_operations_syntax

section \<open>Terminals\<close>

definition set_r2 :: "area \<Rightarrow> int32 \<Rightarrow> unit sprog" where
  "set_r2 old v = moda old (set_reg 2 v)"

text \<open>
  Copying between the caller's memory and \<open>mm[num].buf\<close>, which has 512 bytes; a longer copy runs
  over the end of the buffer.
\<close>

definition copy_out :: "nat \<Rightarrow> addr \<Rightarrow> nat \<Rightarrow> sup \<Rightarrow> sup" where
  "copy_out num a n g = g\<lparr>vmem := (vmem g)(num := fold (\<lambda>i f. f(a + of_nat i := buf (mm g num) i)) [0..<n] (vmem g num))\<rparr>"

definition copy_in :: "nat \<Rightarrow> addr \<Rightarrow> nat \<Rightarrow> sup \<Rightarrow> sup" where
  "copy_in num a n g =
     upd_mm num (\<lambda>t. t\<lparr>buf := fold (\<lambda>i f. f(i := vmem g num (a + of_nat i))) [0..<n] (buf t)\<rparr>) g"

definition Read_from_Terminal :: "linked \<Rightarrow> area \<Rightarrow> nat \<Rightarrow> unit sprog" where
  "Read_from_Terminal L old num =
     pbind (geta old) (\<lambda>st.
     let a = s_r st 3 in
     pseq (modv (upd_dev num (\<lambda>d. d\<lparr>d_badd := buf_at L num\<rparr>))) (
     pseq (modv (upd_dev num (\<lambda>d. d\<lparr>d_op := IOREAD\<rparr>))) (
     SYS8 num (\<lambda>_.
     pbind (getv (\<lambda>g. dev_arr g num)) (\<lambda>d.
     if d_stat d = NORMAL \<or> d_stat d = ENDOFINPUT then
       if d_dadd d \<noteq> 0 then
         if 512 < unat (d_dadd d) then STUCK
         else pseq (modv (copy_out num a (unat (d_dadd d)))) (set_r2 old (d_dadd d))
       else set_r2 old (- ENDOFINPUT)
     else set_r2 old (0 - d_stat d))))))"

definition Write_to_Terminal :: "linked \<Rightarrow> area \<Rightarrow> nat \<Rightarrow> unit sprog" where
  "Write_to_Terminal L old num =
     pbind (geta old) (\<lambda>st.
     let a = s_r st 3; n = s_r st 4 in
     if 512 < sint n then STUCK
     else
       pseq (modv (copy_in num a (nat (sint n)))) (
       pseq (modv (upd_dev num (\<lambda>d. d\<lparr>d_badd := buf_at L num\<rparr>))) (
       pseq (modv (upd_dev num (\<lambda>d. d\<lparr>d_dadd := n\<rparr>))) (
       pseq (modv (upd_dev num (\<lambda>d. d\<lparr>d_op := IOWRITE\<rparr>))) (
       SYS8 num (\<lambda>_.
       pbind (getv (\<lambda>g. dev_arr g num)) (\<lambda>d.
       if d_stat d = NORMAL then
         if d_dadd d \<noteq> 0 then set_r2 old (d_dadd d) else set_r2 old (- ENDOFINPUT)
       else set_r2 old (0 - d_stat d))))))))"

section \<open>Delay, time, termination\<close>

definition Delay :: "area \<Rightarrow> nat \<Rightarrow> unit sprog" where
  "Delay old num =
     pbind (geta old) (\<lambda>st.
     pseq (modv (\<lambda>g. g\<lparr>d_sem := (d_sem g)(num := (d_sem g num)\<lparr>d_time := s_r st 4\<rparr>)\<rparr>)) (
     STCK (\<lambda>t.
     pseq (modv (\<lambda>g. g\<lparr>d_sem := (d_sem g)(num := (d_sem g num)\<lparr>d_start := t\<rparr>)\<rparr>)) (
     SYS3 [(LOCK, D_sem num), (UNLOCK, Cron_sem)] (Return ())))))"

definition Get_Time_of_Day :: "area \<Rightarrow> nat \<Rightarrow> unit sprog" where
  "Get_Time_of_Day old num = STCK (\<lambda>cur_time. set_r2 old cur_time)"

definition Terminate :: "area \<Rightarrow> nat \<Rightarrow> 'a sprog" where
  "Terminate old num =
     pseq (modv (\<lambda>g. g\<lparr>p_alive := p_alive g - 1\<rparr>)) (
     pseq (putframe num) (
     pbind (getv p_alive) (\<lambda>n.
     pseq (if n = 0 then SYS3 [(UNLOCK, Cron_sem)] (Return ()) else Return ()) (
     SYS2))))"

section \<open>Virtual semaphores\<close>

text \<open>The first entry of \<open>vs_arr\<close> for an address; address 0 marks an unused entry.\<close>

definition vs_find :: "addr \<Rightarrow> sup \<Rightarrow> nat option" where
  "vs_find a g = find (\<lambda>i. vs_addr (vs_arr g i) = a) [0..<MAXPROC]"

definition add_shared :: "addr \<Rightarrow> int32 \<Rightarrow> sup \<Rightarrow> sup" where
  "add_shared a d g = g\<lparr>shared_int := (shared_int g)(a := shared_int g a + d)\<rparr>"

definition P_Virtual_Semaphore :: "linked \<Rightarrow> area \<Rightarrow> nat \<Rightarrow> unit sprog" where
  "P_Virtual_Semaphore L old num =
     pseq (P Protected_sem) (
     pbind (geta old) (\<lambda>st.
     let vpop_addr = s_r st 4 in
     if SEG2 L \<le> vpop_addr then
       pbind (getv (\<lambda>g. shared_int g vpop_addr)) (\<lambda>v.
       if 0 < sint v then
         pseq (modv (add_shared vpop_addr (- 1))) (V Protected_sem)
       else
         pbind (getv (vs_find 0)) (\<lambda>r. case r of
           None \<Rightarrow> Return ()
         | Some i \<Rightarrow>
             pseq (modv (upd_vs i vpop_addr)) (
             pseq (modv (add_shared vpop_addr (- 1))) (
             pseq (V Protected_sem) (
             SYS3 [(LOCK, Vs_sem i)] (Return ()))))))
     else pseq (V Protected_sem) (Terminate old num)))"

definition V_Virtual_Semaphore :: "linked \<Rightarrow> area \<Rightarrow> nat \<Rightarrow> unit sprog" where
  "V_Virtual_Semaphore L old num =
     pseq (P Protected_sem) (
     pbind (geta old) (\<lambda>st.
     let vpop_addr = s_r st 4 in
     if SEG2 L \<le> vpop_addr then
       pbind (getv (\<lambda>g. shared_int g vpop_addr)) (\<lambda>v.
       if 0 \<le> sint v then
         pseq (modv (add_shared vpop_addr 1)) (V Protected_sem)
       else
         pbind (getv (vs_find vpop_addr)) (\<lambda>r. case r of
           None \<Rightarrow> Return ()
         | Some i \<Rightarrow>
             pseq (modv (upd_vs i 0)) (
             pseq (modv (add_shared vpop_addr 1)) (
             pseq (V Protected_sem) (
             SYS3 [(UNLOCK, Vs_sem i)] (Return ()))))))
     else pseq (V Protected_sem) (Terminate old num)))"

section \<open>The disk\<close>

definition request :: "nat \<Rightarrow> state_t \<Rightarrow> int32 \<Rightarrow> sup \<Rightarrow> sup" where
  "request num st op = upd_ds num (\<lambda>d. d\<lparr>ds_track := s_r st 4, ds_sector := s_r st 2, ds_op := op\<rparr>)"

definition Disk_Put :: "linked \<Rightarrow> area \<Rightarrow> nat \<Rightarrow> unit sprog" where
  "Disk_Put L old num =
     pbind (geta old) (\<lambda>st.
     pseq (if s_r st 3 < SEG1 L then Terminate old num else Return ()) (
     pseq (modv (copy_in num (s_r st 3) 512)) (
     pseq (modv (request num st IOWRITE)) (
     SYS3 [(LOCK, Ds_sem num), (UNLOCK, Sem_disk)] (
     pbind (getv (\<lambda>g. dev_arr g 7)) (\<lambda>d.
     if d_stat d = NORMAL then set_r2 old 512 else set_r2 old (- d_stat d)))))))"

definition Disk_Get :: "linked \<Rightarrow> area \<Rightarrow> nat \<Rightarrow> unit sprog" where
  "Disk_Get L old num =
     pbind (geta old) (\<lambda>st.
     pseq (if s_r st 3 < SEG1 L then Terminate old num else Return ()) (
     pseq (modv (request num st IOREAD)) (
     SYS3 [(LOCK, Ds_sem num), (UNLOCK, Sem_disk)] (
     pbind (getv (\<lambda>g. dev_arr g 7)) (\<lambda>d.
     if d_stat d = NORMAL then pseq (modv (copy_out num (s_r st 3) 512)) (set_r2 old 512)
     else set_r2 old (- d_stat d))))))"

section \<open>The disk daemon\<close>

text \<open>
  The distance of a request from the head in the direction of travel, and the loop of
  \<open>tasker_helper\<close> that keeps the nearest request so far.
\<close>

definition distance :: "int32 \<Rightarrow> int32 \<Rightarrow> nat \<Rightarrow> diks_scheduler \<Rightarrow> int32" where
  "distance track sector dir d =
     (if dir = 0 then (ds_track d - track) * 8 + ds_sector d - sector
      else (track - ds_track d) * 8 + sector - ds_sector d)"

fun nearest :: "nat list \<Rightarrow> (nat \<Rightarrow> bool) \<Rightarrow> (nat \<Rightarrow> int32) \<Rightarrow> int32 \<Rightarrow> int \<Rightarrow> int" where
  "nearest [] waiting dist least rv = rv"
| "nearest (i # is) waiting dist least rv =
     (if waiting i \<and> 0 \<le> sint (dist i) \<and> sint (dist i) < sint least
      then nearest is waiting dist (dist i) (int i)
      else nearest is waiting dist least rv)"

definition tasker_helper :: "int32 \<Rightarrow> int32 \<Rightarrow> nat \<Rightarrow> int sprog" where
  "tasker_helper track sector dir =
     Read (\<lambda>m. Return (nearest [0..<MAXPROC] (\<lambda>i. sems m (Ds_sem i) = - 1)
       (\<lambda>i. distance track sector dir (ds_arr (vars m) i)) 10000 (- 1)))"

text \<open>
  One round of the daemon: it chooses a request, in the other direction when there is none ahead,
  serves it, and returns where the head is and the direction of travel.
\<close>

definition disk_choose :: "int32 \<Rightarrow> int32 \<Rightarrow> nat \<Rightarrow> (int \<times> nat) sprog" where
  "disk_choose track sector dir =
     pbind (tasker_helper track sector dir) (\<lambda>num.
     if num = - 1
     then let dir = dir XOR 1 in pbind (tasker_helper track sector dir) (\<lambda>num. Return (num, dir))
     else Return (num, dir))"

definition disk_serve :: "linked \<Rightarrow> int \<Rightarrow> nat \<Rightarrow> (int32 \<times> int32 \<times> nat) sprog" where
  "disk_serve L num dir =
     (if num < 0 then STUCK
      else
       pbind (getv (\<lambda>g. ds_arr g (nat num))) (\<lambda>r.
       let track = ds_track r; sector = ds_sector r in
       pseq (modv (upd_dev 7 (\<lambda>d. d\<lparr>d_dadd := track\<rparr>))) (
       pseq (modv (upd_dev 7 (\<lambda>d. d\<lparr>d_op := IOSEEK\<rparr>))) (
       SYS8 7 (\<lambda>_.
       pbind (getv (\<lambda>g. dev_arr g 7)) (\<lambda>d.
       pseq (if d_stat d = NORMAL then
               pseq (modv (upd_dev 7 (\<lambda>d. d\<lparr>d_dadd := sector\<rparr>))) (
               pseq (modv (upd_dev 7 (\<lambda>d. d\<lparr>d_badd := buf_at L (nat num)\<rparr>))) (
               pbind (getv (\<lambda>g. ds_op (ds_arr g (nat num)))) (\<lambda>op.
               pseq (modv (upd_dev 7 (\<lambda>d. d\<lparr>d_op := op\<rparr>))) (
               SYS8 7 (\<lambda>_. Return ())))))
             else Return ()) (
       SYS3 [(UNLOCK, Ds_sem (nat num))] (
       Return (track, sector, dir)))))))))"

definition disk_round :: "linked \<Rightarrow> int32 \<Rightarrow> int32 \<Rightarrow> nat \<Rightarrow> (int32 \<times> int32 \<times> nat) sprog" where
  "disk_round L track sector dir =
     SYS3 [(LOCK, Sem_disk)] (
     pbind (disk_choose track sector dir) (\<lambda>(num, dir). disk_serve L num dir))"

fun disk_loop :: "nat \<Rightarrow> linked \<Rightarrow> int32 \<times> int32 \<times> nat \<Rightarrow> unit sprog" where
  "disk_loop 0 L h = STUCK"
| "disk_loop (Suc n) L (track, sector, dir) =
     pbind (getv p_alive) (\<lambda>alive.
     if 0 < sint alive then pbind (disk_round L track sector dir) (disk_loop n L) else Return ())"

definition diskdaemon :: "nat \<Rightarrow> linked \<Rightarrow> unit sprog" where
  "diskdaemon fuel L = pseq (disk_loop fuel L (0, 0, 0)) SYS2"

end
