(* ===== verification/Support.thy ===== *)
theory Support
  imports Slcalls
begin

text \<open>
  The support level's processes and trap handlers, \<open>src/support/part1/support.c\<close>: \<open>p1\<close> builds the
  page and segment tables and becomes \<open>p1a\<close>, which creates a terminal process per terminal
  and then runs the cron loop; a terminal process declares its three trap handlers and enters
  the boot code in user mode; the handlers terminate it, page, or serve SYS9 to SYS17.
\<close>

unbundle bit_operations_syntax

section \<open>Tables\<close>

definition boot_code :: "int32 list" where
  "boot_code = [0x41f90008, 0x00002608, 0x4e454a82, 0x6c000008, 0x4ef90008, 0x0000d1c2,
     0x787fb882, 0x6d000008, 0x10bc000a, 0x52486000, 0xffde4e71]"

text \<open>The copy of the loader in \<open>bootcode.c\<close>.\<close>

definition bootcode :: "int32 list" where
  "bootcode = [0x41f90008, 0x00002608, 0x4e454a82, 0x6c000008, 0x4ef90008, 0x0000d1c2,
     0x787fb882, 0x6d000008, 0x10bc000a, 0x52486000, 0xffde4e71]"

definition upd_p1a_page :: "nat \<Rightarrow> (pd_t \<Rightarrow> pd_t) \<Rightarrow> sup \<Rightarrow> sup" where
  "upd_p1a_page i f g = g\<lparr>p1a_seg_table_page_table := (p1a_seg_table_page_table g)(i := f (p1a_seg_table_page_table g i))\<rparr>"

definition set_page_table_entry_present :: "nat \<Rightarrow> sup \<Rightarrow> sup" where
  "set_page_table_entry_present num = upd_p1a_page num (present (int num))"

definition set_unprivileged_seg_present :: "nat \<Rightarrow> nat \<Rightarrow> sup \<Rightarrow> sup" where
  "set_unprivileged_seg_present num seg_num = upd_useg num seg_num (\<lambda>d. d\<lparr>sd_p := 1, sd_len := 31, sd_prot := 7,
     sd_pta := (if seg_num = 1 then Unprivileged_pt num else Shared_pt)\<rparr>)"

definition set_privileged_seg_present :: "nat \<Rightarrow> nat \<Rightarrow> sup \<Rightarrow> sup" where
  "set_privileged_seg_present num seg_num = upd_pseg num seg_num (\<lambda>d. d\<lparr>sd_p := 1, sd_prot := 7,
     sd_len := (if seg_num = 0 then 255 else 31),
     sd_pta := (if seg_num = 2 then Shared_pt else if seg_num = 0 then Privileged_pt num
                else if seg_num = 1 then Unprivileged_pt num else sd_pta d)\<rparr>)"

definition set_privileged_page_present :: "nat \<Rightarrow> nat \<Rightarrow> sup \<Rightarrow> sup" where
  "set_privileged_page_present num page_num = upd_ppage num page_num (present (int page_num))"

definition p1a_page :: "linked \<Rightarrow> nat \<Rightarrow> sup \<Rightarrow> sup" where
  "p1a_page L i g =
     (if i = 2 then set_page_table_entry_present i g
      else if program_page L (int i) then set_page_table_entry_present i g
      else if int i = Scronframe g then set_page_table_entry_present i g
      else upd_p1a_page i (absent (int i)) g)"

definition terminal_page :: "linked \<Rightarrow> nat \<Rightarrow> nat \<Rightarrow> sup \<Rightarrow> sup" where
  "terminal_page L i j g =
     (if j = 2 then set_privileged_page_present i j g
      else if in_pages 0x1400 0x1600 (int j) then set_privileged_page_present i j g
      else if program_page L (int j) then set_privileged_page_present i j g
      else if int j = Tsysframe g i then set_privileged_page_present i j g
      else if int j = Tmmframe g i then set_privileged_page_present i j g
      else upd_ppage i j (absent (int j)) g)"

definition no_page :: "pd_t \<Rightarrow> pd_t" where
  "no_page d = d\<lparr>pd_p := 0, pd_r := 1\<rparr>"

definition terminal_tables :: "linked \<Rightarrow> nat \<Rightarrow> sup \<Rightarrow> sup" where
  "terminal_tables L i g =
     (let g = g\<lparr>d_sem := (d_sem g)(i := \<lparr>d_time = 0, d_start = 0\<rparr>)\<rparr>;
          g = upd_useg i 0 (\<lambda>d. d\<lparr>sd_p := 0\<rparr>) g;
          g = set_unprivileged_seg_present i 1 g;
          g = set_unprivileged_seg_present i 2 g;
          g = set_privileged_seg_present i 0 g;
          g = set_privileged_seg_present i 1 g;
          g = set_privileged_seg_present i 2 g;
          g = fold (\<lambda>j g. upd_pseg i j (\<lambda>d. d\<lparr>sd_p := 0\<rparr>) (upd_useg i j (\<lambda>d. d\<lparr>sd_p := 0\<rparr>) g)) [3..<32] g;
          g = fold (\<lambda>j g. upd_spage j no_page (upd_upage i j no_page g)) [0..<32] g
      in fold (terminal_page L i) [0..<256] g)"

section \<open>The first process\<close>

definition load_boot :: "nat \<Rightarrow> unit sprog" where
  "load_boot i =
     pbind (getfreeframe (int i) 31 1) (\<lambda>free_frame.
     pseq (modv (\<lambda>g. g\<lparr>frames := (frames g)(free_frame :=
       (\<lambda>j. if j < 11 then boot_code ! j else frames g free_frame j))\<rparr>)) (
     pseq (modv (upd_upage i 31 (\<lambda>d. d\<lparr>pd_p := 1\<rparr>))) (
     modv (upd_upage i 31 (\<lambda>d. d\<lparr>pd_frame := of_int free_frame\<rparr>)))))"

definition p1 :: "linked \<Rightarrow> unit sprog" where
  "p1 L =
     pseq (pageinit L) (
     pseq (modv (\<lambda>g. g\<lparr>p1a_seg_table := (\<lambda>i. if i = 0 then all_seg0 P1a_pt (p1a_seg_table g 0)
       else if i < 32 then (p1a_seg_table g i)\<lparr>sd_p := 0\<rparr> else p1a_seg_table g i)\<rparr>)) (
     pseq (pfor [0..<256] (\<lambda>i. modv (p1a_page L i))) (
     pseq (pfor [0..<TER] (\<lambda>i. pseq (puts (D_sem i) 0) (modv (terminal_tables L i)))) (
     pseq (puts Cron_sem 0) (
     pseq (puts Sem_mm 1) (
     pseq (pfor [0..<TER] load_boot) (
     pseq (modv (\<lambda>g. g\<lparr>p_alive := of_nat TER\<rparr>)) (
     pbind (getv Scronstack) (\<lambda>sp.
     STST (\<lambda>st. LDST_state (sys_state L ''p1a'' sp P1a_st st)))))))))))"

section \<open>The cron loop\<close>

definition cron_wake :: "nat \<Rightarrow> unit sprog" where
  "cron_wake i =
     pbind (gets (D_sem i)) (\<lambda>v.
     if sint v < 0 then
       STCK (\<lambda>cur.
       pbind (getv (\<lambda>g. d_sem g i)) (\<lambda>d.
       if sint (d_time d) < sint (cur - d_start d) then SYS3 [(UNLOCK, D_sem i)] (Return ())
       else Return ()))
     else Return ())"

definition someone_delayed :: "(sem, area, sup) umem \<Rightarrow> bool" where
  "someone_delayed m \<longleftrightarrow> (\<exists>i \<in> set [0..<TER]. sint (sems m (D_sem i)) < 0)"

definition cron_round :: "unit sprog" where
  "cron_round =
     pseq (pfor [0..<TER] cron_wake) (
     Read (\<lambda>m. if someone_delayed m then SYS7 (Return ()) else SYS3 [(LOCK, Cron_sem)] (Return ())))"

definition cron :: "nat \<Rightarrow> unit sprog" where
  "cron fuel = pseq (pwhile fuel (\<lambda>m. 0 < sint (p_alive (vars m))) cron_round) SYS2"

definition p1a :: "nat \<Rightarrow> linked \<Rightarrow> unit sprog" where
  "p1a fuel L =
     STST (\<lambda>st.
     pseq (pfor [0..<TER] (\<lambda>i.
       pbind (getv (\<lambda>g. Tsysstack g i)) (\<lambda>sp.
       SYS1 (set_reg 4 (of_nat i) (set_reg 15 (of_int sp) (set_reg 16 (entry L ''tprocess'')
         (st\<lparr>s_crp := segtab_at L (Privileged_st i)\<rparr>)))) (\<lambda>_. Return ())))) (
     cron fuel))"

section \<open>Terminal processes\<close>

definition new_area :: "linked \<Rightarrow> area \<Rightarrow> string \<Rightarrow> (sup \<Rightarrow> int) \<Rightarrow> nat \<Rightarrow> unit sprog" where
  "new_area L w pc stack num =
     STST (\<lambda>st.
     pbind (getv stack) (\<lambda>sp.
     moda w (\<lambda>_. set_reg 4 (of_nat num) (set_reg 15 (of_int sp) (set_reg 16 (entry L pc)
       (st\<lparr>s_crp := segtab_at L (Privileged_st num)\<rparr>))))))"

definition tprocess :: "linked \<Rightarrow> unit sprog" where
  "tprocess L =
     STST (\<lambda>tp.
     let num = unat (s_r tp 4) in
     if TER \<le> num then STUCK
     else
       pseq (new_area L (Prog_new num) ''slproghandler'' (\<lambda>g. Tsysstack g num) num) (
       pseq (new_area L (Mm_new num) ''slmmhandler'' (\<lambda>g. Tmmstack g num) num) (
       pseq (new_area L (Sys_new num) ''slsyshandler'' (\<lambda>g. Tsysstack g num) num) (
       SYS5 0 (Prog_old num) (Prog_new num) (
       SYS5 1 (Mm_old num) (Mm_new num) (
       SYS5 2 (Sys_old num) (Sys_new num) (
       LDST_state (set_reg 15 (of_int (0x80000 + 32 * PAGESIZE - 2)) (set_reg 16 (of_int (0x80000 + 31 * PAGESIZE))
         (tp\<lparr>s_sr := (s_sr tp)\<lparr>ps_s := 0\<rparr>, s_crp := segtab_at L (Unprivileged_st num)\<rparr>))))))))))"

definition slproghandler :: "unit sprog" where
  "slproghandler =
     STST (\<lambda>slpt.
     let num = unat (s_r slpt 4) in
     if TER \<le> num then STUCK
     else pseq (Terminate (Prog_old num) num) (LDST_area (Prog_old num)))"

definition enter_page :: "nat \<Rightarrow> int \<Rightarrow> nat \<Rightarrow> unit sprog" where
  "enter_page num sg page =
     pbind (getfreeframe (int num) (int page) sg) (\<lambda>page_frame.
     if 32 \<le> page then STUCK
     else
     pbind (getv (page_desc num sg page)) (\<lambda>d.
     pseq (if pd_r d = 0 then pagein num page sg page_frame else Return ()) (
     SYS3 [(LOCK, Sem_mm)] (
     pseq (modv (upd_page_desc num sg page (\<lambda>d. d\<lparr>pd_frame := of_int page_frame\<rparr>))) (
     pseq (modv (upd_page_desc num sg page (\<lambda>d. d\<lparr>pd_p := 1\<rparr>))) (
     SYS3 [(UNLOCK, Sem_mm)] (Return ())))))))"

definition slmmhandler :: "unit sprog" where
  "slmmhandler =
     STST (\<lambda>slmm.
     let num = unat (s_r slmm 4) in
     if TER \<le> num then STUCK
     else
       pbind (geta (Mm_old num)) (\<lambda>st.
       let page = unat (mm_pg (s_tmp st)); sg = unat (mm_seg (s_tmp st)) in
       pbind (getv (\<lambda>g. privileged_seg (mm g num) sg)) (\<lambda>d.
       pseq (if sd_p d = 0 then Terminate (Mm_old num) num
             else if sg = 0 then Terminate (Mm_old num) num
             else if sg = 1 then enter_page num 1 page
             else enter_page num 2 page) (
       LDST_area (Mm_old num)))))"

definition slsyshandler :: "linked \<Rightarrow> unit sprog" where
  "slsyshandler L =
     STST (\<lambda>slsys.
     let num = unat (s_r slsys 4) in
     if TER \<le> num then STUCK
     else
       pbind (geta (Sys_old num)) (\<lambda>st.
       let sys_num = unat (sys_no (s_tmp st)) in
       pseq (if sys_num = 9 then Read_from_Terminal L (Sys_old num) num
             else if sys_num = 10 then Write_to_Terminal L (Sys_old num) num
             else if sys_num = 11 then V_Virtual_Semaphore L (Sys_old num) num
             else if sys_num = 12 then P_Virtual_Semaphore L (Sys_old num) num
             else if sys_num = 13 then Delay (Sys_old num) num
             else if sys_num = 14 then Disk_Put L (Sys_old num) num
             else if sys_num = 15 then Disk_Get L (Sys_old num) num
             else if sys_num = 16 then Get_Time_of_Day (Sys_old num) num
             else if sys_num = 17 then Terminate (Sys_old num) num
             else Return ()) (
       LDST_area (Sys_old num))))"

end
