(* ===== verification/Sup_Samples.thy ===== *)
theory Sup_Samples
  imports Supdata
begin

text \<open>
  Concrete variables of the support level, for the examples that accompany the properties:
  all page frames and sectors free, the semaphores as \<open>pageinit\<close> and \<open>p1\<close> set them, devices
  that complete every operation.
\<close>

definition some_state :: state_t where
  "some_state = \<lparr>s_r = (\<lambda>_. 0), s_sr = \<lparr>ps_t = 0, ps_s = 1, ps_m = 0, ps_int = 0, ps_x = 0, ps_n = 0,
     ps_z = 0, ps_o = 0, ps_c = 0\<rparr>, s_tmp = 0, s_crp = 0\<rparr>"

definition some_pd :: pd_t where
  "some_pd = \<lparr>pd_p = 0, pd_m = 0, pd_r = 1, pd_frame = 0\<rparr>"

definition some_sd :: sd_t where
  "some_sd = \<lparr>sd_p = 1, sd_prot = 7, sd_len = 31, sd_pta = No_pt\<rparr>"

definition some_mm :: mm_table where
  "some_mm = \<lparr>buf = (\<lambda>_. 65), unprivileged_seg = (\<lambda>_. some_sd), privileged_seg = (\<lambda>_. some_sd),
     unprivileged_seg_page_table = (\<lambda>_. some_pd), privileged_seg_page_table = (\<lambda>_. some_pd)\<rparr>"

definition sup0 :: sup where
  "sup0 = \<lparr>mm = (\<lambda>_. some_mm), d_sem = (\<lambda>_. \<lparr>d_time = 0, d_start = 0\<rparr>), p1a_seg_table = (\<lambda>_. some_sd),
     p1a_seg_table_page_table = (\<lambda>_. some_pd), shared_seg_table_page_table = (\<lambda>_. some_pd),
     p_alive = 5, pf_ctr = 0, pf_start = 100, Tsysframe = (\<lambda>_. 0), Tmmframe = (\<lambda>_. 0),
     Scronframe = 0, Spagedframe = 0, Sdiskframe = 0, Tsysstack = (\<lambda>_. 0), Tmmstack = (\<lambda>_. 0),
     Scronstack = 0, Spagedstack = 0, Sdiskstack = 0, disk = (\<lambda>_ _. - 1),
     page_daemon_seg = (\<lambda>_. some_sd), disk_daemon_seg = (\<lambda>_. some_sd),
     page_daemon_page = (\<lambda>_. some_pd), disk_daemon_page = (\<lambda>_. some_pd),
     ds_arr = (\<lambda>_. \<lparr>ds_track = - 1, ds_sector = - 1, ds_op = - 1\<rparr>),
     pfs_arr = (\<lambda>_. \<lparr>pf_pid = - 1, pf_seg = - 1, pf_page = - 1, pf_track = - 1, pf_sector = - 1\<rparr>),
     vs_arr = (\<lambda>_. \<lparr>vs_addr = 0\<rparr>), dev_arr = (\<lambda>_. \<lparr>d_op = 0, d_dadd = 0, d_badd = 0, d_stat = 0\<rparr>),
     vmem = (\<lambda>_ _. 0), shared_int = (\<lambda>_. 0), frames = (\<lambda>_ _. 0),
     floppy = (\<lambda>_ _ _. 0), head = 0\<rparr>"

definition sems0 :: "sem \<Rightarrow> int32" where
  "sems0 = (\<lambda>_. 0)(Sem_mm := 1, Sem_floppy := 1, Sem_pf := 20, Protected_sem := 1)"

definition mem0 :: "(sem, area, sup) umem" where
  "mem0 = \<lparr>sems = sems0, areas = (\<lambda>_. some_state), vars = sup0\<rparr>"

definition world0 :: "(sem, area, sup) world" where
  "world0 = \<lparr>dv = (\<lambda>_ g. Some ((0, 0), g)), now = [1000], cpu = [], room = 10, self = some_state,
     born = [], declared = []\<rparr>"

definition linked0 :: linked where
  "linked0 = \<lparr>etext = 0x4000, edata = 0x6000, end_bss = 0x8000, startt1 = 0x3000, startd1 = 0x5000,
     startb1 = 0x7000, entry = (\<lambda>_. 0x3000), segtab_at = (\<lambda>_. 0x7800), buf_at = (\<lambda>i. 0x7000 + of_nat i * 512),
     SEG1 = 0x80000, SEG2 = 0x100000\<rparr>"

lemmas samples = some_state_def some_pd_def some_sd_def some_mm_def sup0_def sems0_def mem0_def world0_def linked0_def

end
