(* ===== verification/Pager_Properties.thy ===== *)
theory Pager_Properties
  imports Pager Sup_Samples
begin

text \<open>
  Properties of the pager (\<open>src/support/part2/page.c\<close>), as runs that no other process
  interrupts: the functions are critical sections under \<open>sem_mm\<close>. The invariant
  \<open>pf_counted\<close> says that \<open>sem_pf\<close> counts the free frames.
\<close>

unbundle bit_operations_syntax

section \<open>Helpers\<close>

text \<open>Pointwise updates of a table in a loop.\<close>

lemma fold_pointwise:
  assumes "\<And>i g. sel (u i g) = (sel g)(i := f i (sel g i))"
    and "\<And>i x. f i (f i x) = f i x"
  shows "sel (fold u is g) j = (if j \<in> set is then f j (sel g j) else sel g j)"
  by (induction "is" arbitrary: g) (auto simp: assms)

lemma fold_unchanged:
  assumes "\<And>i g. sel (u i g) = sel g"
  shows "sel (fold u is g) = sel g"
  by (induction "is" arbitrary: g) (auto simp: assms)

lemma find_upt:
  "find p [0..<n] = Some i \<longleftrightarrow> i < n \<and> p i \<and> (\<forall>j < i. \<not> p j)"
  by (auto simp: find_Some_iff)

lemma find_upt_None: "find p [0..<n] = None \<longleftrightarrow> (\<forall>j < n. \<not> p j)"
  by (auto simp: find_None_iff)

definition free_frames :: "sup \<Rightarrow> nat set" where
  "free_frames g = {i. i < MAXFRAMES \<and> pf_pid (pfs_arr g i) = - 1}"

definition pf_counted :: "(sem, area, sup) umem \<Rightarrow> bool" where
  "pf_counted m \<longleftrightarrow> sint (sems m Sem_pf) = int (card (free_frames (vars m)))"

lemma finite_free_frames [simp]: "finite (free_frames g)"
  by (simp add: free_frames_def)

lemma free_frame_Some:
  "free_frame g = Some i \<longleftrightarrow> i \<in> free_frames g \<and> (\<forall>j < i. j \<notin> free_frames g)"
  by (auto simp: free_frame_def find_upt free_frames_def)

lemma free_frame_exists:
  assumes "free_frames g \<noteq> {}"
  obtains i where "free_frame g = Some i" "i \<in> free_frames g"
  using assms by (cases "free_frame g") (auto simp: free_frame_def find_upt_None find_upt free_frames_def)

lemma free_frames_upd:
  assumes "i < MAXFRAMES"
  shows "free_frames (upd_frame i f g) =
    (if pf_pid (f (pfs_arr g i)) = - 1 then insert i (free_frames g) else free_frames g - {i})"
  using assms by (auto simp: free_frames_def upd_frame_def)

section \<open>Frames\<close>

lemma pos_dec: "1 \<le> sint (x :: int32) \<Longrightarrow> sint (x - 1) = sint x - 1"
  by (rule sint_dec32) simp

lemma solo_P:
  assumes "1 \<le> sint (sems m v)"
  shows "solo (P v) e m = (Done (), e, m\<lparr>sems := (sems m)(v := sems m v - 1)\<rparr>)"
  using pos_dec [OF assms] assms by (simp add: P_def)

lemma solo_V [simp]:
  "solo (V v) e m = (Done (), e, m\<lparr>sems := (sems m)(v := sems m v + 1)\<rparr>)"
  by (simp add: V_def)

text \<open>What \<open>getfreeframe\<close> does to the semaphores when it does not have to wait.\<close>

definition frame_taken :: "(sem \<Rightarrow> int32) \<Rightarrow> sem \<Rightarrow> int32" where
  "frame_taken s = (let n = s Sem_pf - 1 in
     s(Sem_pf := n, Sem_page := if sint n \<le> sint LOW then s Sem_page + 1 else s Sem_page))"

lemma solo_getfreeframe:
  assumes "1 \<le> sint (sems m Sem_pf)" "1 \<le> sint (sems m Sem_mm)"
    and "sg = 2 \<Longrightarrow> shared_frame page sg (vars m) = None"
    and "free_frame (vars m) = Some i"
  shows "solo (getfreeframe term page sg) e m =
    (Done (pf_start (vars m) + int i), e,
     m\<lparr>sems := frame_taken (sems m),
       vars := upd_frame i (\<lambda>_. \<lparr>pf_pid = term, pf_seg = sg, pf_page = page, pf_track = - 1, pf_sector = - 1\<rparr>) (vars m)\<rparr>)"
proof -
  have u: "upd_frame i (\<lambda>f. f\<lparr>pf_pid := term, pf_page := page, pf_seg := sg, pf_track := - 1, pf_sector := - 1\<rparr>) (vars m)
      = upd_frame i (\<lambda>_. \<lparr>pf_pid = term, pf_seg = sg, pf_page = page, pf_track = - 1, pf_sector = - 1\<rparr>) (vars m)"
    by (cases "pfs_arr (vars m) i") (simp add: upd_frame_def)
  have s: "pf_start (upd_frame i f g) = pf_start g" for f g by (simp add: upd_frame_def)
  have sh: "solo (if sg = 2 then getv (shared_frame page sg) else Return None) e m' = (Done None, e, m')"
    if "vars m' = vars m" for m' using assms(3) that by (cases "sg = 2") simp_all
  show ?thesis
    unfolding getfreeframe_def
    by (simp add: solo_pbind solo_P assms(1,2,4) sh s u)
      (auto simp: frame_taken_def Let_def fun_eq_iff intro: umem.equality)
qed

lemma getfreeframe_shared_solo:
  assumes "1 \<le> sint (sems m Sem_pf)" "1 \<le> sint (sems m Sem_mm)"
    and "shared_frame page 2 (vars m) = Some i"
  shows "solo (getfreeframe term page 2) e m =
    (Done (pf_start (vars m) + int i), e, m\<lparr>sems := frame_taken (sems m)\<rparr>)"
  unfolding getfreeframe_def
  by (simp add: solo_pbind solo_P assms)
    (auto simp: frame_taken_def Let_def fun_eq_iff intro: umem.equality)

text \<open>Without a free frame the caller waits, and the tables are as before.\<close>

lemma getfreeframe_waits:
  assumes "sint (sems m Sem_pf - 1) < 0"
  shows "\<exists>p. solo (getfreeframe term page sg) e m =
    (Blocks p, e, m\<lparr>sems := (sems m)(Sem_pf := sems m Sem_pf - 1)\<rparr>)"
  unfolding getfreeframe_def using assms by (simp add: solo_pbind P_def)

section \<open>Giving frames back\<close>

definition private_frame :: "nat \<Rightarrow> sup \<Rightarrow> nat \<Rightarrow> bool" where
  "private_frame term g i \<longleftrightarrow> pf_pid (pfs_arr g i) = int term \<and> pf_seg (pfs_arr g i) \<noteq> 2"

definition release_frames :: "nat \<Rightarrow> nat set \<Rightarrow> sup \<Rightarrow> sup" where
  "release_frames term is g = g\<lparr>pfs_arr := (\<lambda>i.
     if i \<in> is \<and> private_frame term g i then (pfs_arr g i)\<lparr>pf_pid := - 1\<rparr> else pfs_arr g i)\<rparr>"

lemma solo_release_frames:
  assumes "distinct is"
  shows "solo (pfor is (\<lambda>i.
       pbind (getv (\<lambda>g. pfs_arr g i)) (\<lambda>f.
       if pf_pid f = int term \<and> pf_seg f \<noteq> 2 then
         pseq (modv (upd_frame i (\<lambda>f. f\<lparr>pf_pid := - 1\<rparr>))) (V Sem_pf)
       else Return ()))) e m =
    (Done (), e, m\<lparr>sems := (sems m)(Sem_pf := sems m Sem_pf + of_nat (length (filter (private_frame term (vars m)) is))),
       vars := release_frames term (set is) (vars m)\<rparr>)"
  using assms
proof (induction "is" arbitrary: m)
  case Nil
  then show ?case by (simp add: release_frames_def)
next
  case (Cons i "is")
  show ?case
  proof (cases "private_frame term (vars m) i")
    case True
    define g where "g = upd_frame i (\<lambda>f. f\<lparr>pf_pid := - 1\<rparr>) (vars m)"
    have "filter (private_frame term g) is = filter (private_frame term (vars m)) is"
      using Cons.prems by (intro filter_cong) (auto simp: g_def private_frame_def upd_frame_def)
    moreover have "release_frames term (set is) g = release_frames term (set (i # is)) (vars m)"
      using Cons.prems True by (auto simp: g_def release_frames_def private_frame_def upd_frame_def fun_eq_iff)
    ultimately show ?thesis
      using Cons True [unfolded private_frame_def] True by (simp add: solo_pbind g_def [symmetric] algebra_simps cong: if_cong)
  next
    case False
    then have "release_frames term (set is) (vars m) = release_frames term (set (i # is)) (vars m)"
      by (auto simp: release_frames_def fun_eq_iff)
    with Cons False [unfolded private_frame_def] False show ?thesis by (simp only: de_Morgan_conj) (auto simp: solo_pbind)
  qed
qed

definition swapped :: "nat \<Rightarrow> sup \<Rightarrow> nat \<Rightarrow> bool" where
  "swapped term g i \<longleftrightarrow> (let d = unprivileged_seg_page_table (mm g term) i in pd_r d = 0 \<and> pd_p d = 0)"

text \<open>The sector that a descriptor of a page on the floppy disk names.\<close>

definition place :: "pd_t \<Rightarrow> nat \<times> nat" where
  "place d = (unat (pd_frame d) div 8, unat (pd_frame d) mod 8)"

definition release_place :: "nat \<Rightarrow> nat \<Rightarrow> sup \<Rightarrow> sup" where
  "release_place term i g =
     (if swapped term g i \<and> pf_seg (pfs_arr g i) \<noteq> 2 then
        let (t, s) = place (unprivileged_seg_page_table (mm g term) i) in
        g\<lparr>disk := (disk g)(t := (disk g t)(s := - 1))\<rparr>
      else g)"

lemma place_bits:
  "nat (drop_bit 3 (uint (pd_frame d))) = unat (pd_frame d) div 8"
  "nat (uint (pd_frame d) AND 7) = unat (pd_frame d) mod 8"
  "drop_bit 3 (uint (pd_frame d)) < 100 \<longleftrightarrow> unat (pd_frame d) div 8 < 100"
proof -
  have *: "drop_bit 3 (uint (pd_frame d)) = int (unat (pd_frame d) div 8)"
    by (simp add: drop_bit_eq_div zdiv_int)
  then show "nat (drop_bit 3 (uint (pd_frame d))) = unat (pd_frame d) div 8"
    "drop_bit 3 (uint (pd_frame d)) < 100 \<longleftrightarrow> unat (pd_frame d) div 8 < 100" by simp_all
  have "uint (pd_frame d) AND 7 = take_bit 3 (uint (pd_frame d))" by (simp add: take_bit_eq_mask mask_eq_exp_minus_1)
  also have "\<dots> = int (unat (pd_frame d) mod 8)" by (simp add: take_bit_eq_mod zmod_int)
  finally show "nat (uint (pd_frame d) AND 7) = unat (pd_frame d) mod 8" by simp
qed

lemma solo_release_sector:
  "solo (release_sector term i) e m =
    (if swapped term (vars m) i \<and> (MAXFRAMES \<le> i \<or> pf_seg (pfs_arr (vars m) i) \<noteq> 2 \<and>
         100 \<le> fst (place (unprivileged_seg_page_table (mm (vars m) term) i)))
     then (Stuck, e, m) else (Done (), e, m\<lparr>vars := release_place term i (vars m)\<rparr>))"
  by (simp add: release_sector_def solo_pbind swapped_def release_place_def place_def Let_def place_bits)

lemma release_place_simps [simp]:
  "mm (release_place term i g) = mm g" "pfs_arr (release_place term i g) = pfs_arr g"
  "swapped term (release_place term i g) = swapped term g"
  by (auto simp: release_place_def swapped_def Let_def split: prod.splits)

text \<open>The second loop of \<open>putframe\<close>: it ends when all pages on the floppy disk have frames' numbers.\<close>

definition within_frames :: "nat \<Rightarrow> sup \<Rightarrow> nat \<Rightarrow> bool" where
  "within_frames term g i \<longleftrightarrow> (swapped term g i \<longrightarrow>
     i < MAXFRAMES \<and> fst (place (unprivileged_seg_page_table (mm g term) i)) < 100)"

lemma solo_release_sectors:
  assumes "\<forall>i \<in> set is. within_frames term (vars m) i"
  shows "solo (pfor is (release_sector term)) e m =
    (Done (), e, m\<lparr>vars := fold (release_place term) is (vars m)\<rparr>)"
  using assms
  by (induction "is" arbitrary: m) (auto simp: solo_pbind solo_release_sector within_frames_def)

lemma solo_release_stuck:
  assumes "i \<in> set is" "swapped term (vars m) i" "MAXFRAMES \<le> i"
  shows "fst (solo (pfor is (release_sector term)) e m) = Stuck"
  using assms
  by (induction "is" arbitrary: m) (auto simp: solo_pbind solo_release_sector simp del: sup_consts)

lemma release_place_disk:
  "disk (release_place term i g) t s =
    (if swapped term g i \<and> pf_seg (pfs_arr g i) \<noteq> 2
          \<and> place (unprivileged_seg_page_table (mm g term) i) = (t, s)
     then - 1 else disk g t s)"
  by (simp add: release_place_def split: prod.split)

lemma release_places_disk:
  "disk (fold (release_place term) is g) t s =
    (if \<exists>i \<in> set is. swapped term g i \<and> pf_seg (pfs_arr g i) \<noteq> 2
          \<and> place (unprivileged_seg_page_table (mm g term) i) = (t, s)
     then - 1 else disk g t s)"
proof (induction "is" arbitrary: g)
  case (Cons i "is")
  show ?case by (simp add: Cons.IH release_place_disk) blast
qed simp

lemma release_places_simps [simp]:
  "mm (fold (release_place term) is g) = mm g" "pfs_arr (fold (release_place term) is g) = pfs_arr g"
  by (induction "is" arbitrary: g) auto

lemma frame_taken_counted:
  assumes "pf_counted m" "1 \<le> sint (sems m Sem_pf)" "i \<in> free_frames (vars m)" "0 \<le> pf_pid f"
    and "m' = m\<lparr>sems := frame_taken (sems m), vars := upd_frame i (\<lambda>_. f) (vars m)\<rparr>"
  shows "int (card (free_frames (vars m'))) = sint (sems m Sem_pf - 1)" "pf_counted m'"
proof -
  have free: "free_frames (vars m') = free_frames (vars m) - {i}"
    using assms(3,4) by (auto simp: assms(5) free_frames_def upd_frame_def split: if_splits)
  have "card (free_frames (vars m')) = card (free_frames (vars m)) - 1" using assms(3) by (simp add: free)
  then show card: "int (card (free_frames (vars m'))) = sint (sems m Sem_pf - 1)"
    using assms(1,2) pos_dec [OF assms(2)] by (simp add: pf_counted_def of_nat_diff)
  then show "pf_counted m'" by (simp add: pf_counted_def assms(5) frame_taken_def Let_def)
qed

section \<open>Properties of the frame table\<close>

lemma pf_counted0: "free_frames sup0 = {0..<20}" "pf_counted mem0"
proof -
  show "free_frames sup0 = {0..<20}" by (auto simp: free_frames_def samples)
  then show "pf_counted mem0" by (simp add: pf_counted_def mem0_def sems0_def)
qed

text \<open>C18: A page that has no frame yet gets a free one. While the semaphores \<open>sem_pf\<close> and \<open>sem_mm\<close> are positive,
  \<open>getfreeframe\<close> returns the number of a frame that was free, enters the terminal, the segment and the page for it, leaves
  all other entries, gives \<open>sem_mm\<close> back, wakes the paging daemon exactly when at most two free frames are left, and
  \<open>sem_pf\<close> goes on counting the free frames.
\<close>

theorem frame_allocated:
  assumes "pf_counted m" "1 \<le> sint (sems m Sem_pf)" "1 \<le> sint (sems m Sem_mm)" "0 \<le> term"
    and "sg = 2 \<Longrightarrow> shared_frame page sg (vars m) = None"
  shows "\<exists>i m'. i \<in> free_frames (vars m)
    \<and> solo (getfreeframe term page sg) e m = (Done (pf_start (vars m) + int i), e, m')
    \<and> pfs_arr (vars m') = (pfs_arr (vars m))(i := \<lparr>pf_pid = term, pf_seg = sg, pf_page = page, pf_track = - 1, pf_sector = - 1\<rparr>)
    \<and> sems m' Sem_mm = sems m Sem_mm
    \<and> sems m' Sem_page = (if card (free_frames (vars m')) \<le> 2 then sems m Sem_page + 1 else sems m Sem_page)
    \<and> pf_counted m'"
proof -
  have "free_frames (vars m) \<noteq> {}" using assms(1,2) by (auto simp: pf_counted_def)
  then obtain i where i: "free_frame (vars m) = Some i" "i \<in> free_frames (vars m)" by (rule free_frame_exists)
  define f :: page_frame_scheduler where
    "f = \<lparr>pf_pid = term, pf_seg = sg, pf_page = page, pf_track = - 1, pf_sector = - 1\<rparr>"
  define m' where "m' = m\<lparr>sems := frame_taken (sems m), vars := upd_frame i (\<lambda>_. f) (vars m)\<rparr>"
  have run: "solo (getfreeframe term page sg) e m = (Done (pf_start (vars m) + int i), e, m')"
    using solo_getfreeframe [OF assms(2,3,5) i(1)] by (simp add: m'_def f_def)
  have f0: "0 \<le> pf_pid f" using assms(4) by (simp add: f_def)
  note card = frame_taken_counted(1) [OF assms(1,2) i(2) f0 m'_def]
  have pf: "pf_counted m'" by (rule frame_taken_counted(2) [OF assms(1,2) i(2) f0 m'_def])
  have "sems m' Sem_page = (if card (free_frames (vars m')) \<le> 2 then sems m Sem_page + 1 else sems m Sem_page)"
    using card by (auto simp: m'_def frame_taken_def Let_def simp flip: of_nat_le_iff)
  then show ?thesis using i(2) run pf
    by (intro exI [of _ i] exI [of _ m']) (simp add: m'_def f_def frame_taken_def Let_def upd_frame_def)
qed

theorem frame_allocated_witness:
  "\<exists>i m'. solo (getfreeframe 3 31 1) world0 mem0 = (Done (100 + int i), world0, m') \<and> i < 20 \<and> pf_counted m'"
proof -
  have "1 \<le> sint (sems mem0 Sem_pf)" "1 \<le> sint (sems mem0 Sem_mm)" "pf_start (vars mem0) = 100"
    by (simp_all add: samples)
  then show ?thesis
    using frame_allocated [of mem0 3 1 31 world0, OF pf_counted0(2)] pf_counted0(1)
    by (auto simp: mem0_def)
qed

text \<open>C29: A page of the shared segment that another terminal process has in memory is found again:
  \<open>getfreeframe\<close> returns the frame that holds it and enters nothing. It has passed \<open>sem_pf\<close> all the same,
  so from then on \<open>sem_pf\<close> is less than the number of free frames.
\<close>

theorem shared_frame_found:
  assumes "pf_counted m" "1 \<le> sint (sems m Sem_pf)" "1 \<le> sint (sems m Sem_mm)"
    and "shared_frame page 2 (vars m) = Some i"
  shows "\<exists>m'. solo (getfreeframe term page 2) e m = (Done (pf_start (vars m) + int i), e, m')
    \<and> i < MAXFRAMES \<and> pf_page (pfs_arr (vars m) i) = page \<and> pf_seg (pfs_arr (vars m) i) = 2
    \<and> vars m' = vars m
    \<and> sint (sems m' Sem_pf) = int (card (free_frames (vars m'))) - 1"
proof -
  have "i < MAXFRAMES" "pf_page (pfs_arr (vars m) i) = page" "pf_seg (pfs_arr (vars m) i) = 2"
    using assms(4) by (auto simp: shared_frame_def find_upt)
  with getfreeframe_shared_solo [OF assms(2,3,4)] pos_dec [OF assms(2)] assms(1) show ?thesis
    by (simp add: frame_taken_def Let_def pf_counted_def)
qed

definition shared0 :: "(sem, area, sup) umem" where
  "shared0 = mem0\<lparr>vars := upd_frame 4 (\<lambda>f. f\<lparr>pf_pid := 2, pf_seg := 2, pf_page := 7\<rparr>) sup0,
     sems := sems0(Sem_pf := 19)\<rparr>"

lemma shared0: "pf_counted shared0" "shared_frame 7 2 (vars shared0) = Some 4"
proof -
  have "free_frames (vars shared0) = {0..<20} - {4}"
    by (auto simp: shared0_def free_frames_def upd_frame_def sup0_def)
  then show "pf_counted shared0" by (simp add: pf_counted_def shared0_def)
  show "shared_frame 7 2 (vars shared0) = Some 4"
    by (simp add: shared0_def shared_frame_def upd_frame_def find_upt sup0_def)
qed

theorem shared_frame_found_witness:
  "\<exists>m'. solo (getfreeframe 0 7 2) world0 shared0 = (Done 104, world0, m') \<and> vars m' = vars shared0"
proof -
  have "1 \<le> sint (sems shared0 Sem_pf)" "1 \<le> sint (sems shared0 Sem_mm)" "pf_start (vars shared0) = 100"
    by (simp_all add: shared0_def sems0_def sup0_def upd_frame_def)
  with shared_frame_found [OF shared0(1) _ _ shared0(2), of 0 world0] show ?thesis by auto
qed

lemma card_released:
  "int (card (free_frames (release_frames term {0..<MAXFRAMES} g))) =
    int (card (free_frames g)) + int (length (filter (private_frame term g) [0..<MAXFRAMES]))"
proof -
  let ?P = "{i. i < MAXFRAMES \<and> private_frame term g i}"
  have "free_frames (release_frames term {0..<MAXFRAMES} g) = free_frames g \<union> ?P"
    by (auto simp: free_frames_def release_frames_def private_frame_def)
  moreover have "free_frames g \<inter> ?P = {}" by (auto simp: free_frames_def private_frame_def)
  moreover have "length (filter (private_frame term g) [0..<MAXFRAMES]) = card ?P"
    by (subst distinct_card [symmetric]) (auto intro: arg_cong [where f = card])
  ultimately show ?thesis by (simp add: card_Un_disjoint)
qed

lemma sint_count:
  assumes "sint (x :: int32) = int a" "a + n \<le> 1000"
  shows "sint (x + of_nat n) = int (a + n)"
  using assms(2)
proof (induction n)
  case (Suc n)
  have e: "x + of_nat (Suc n) = (x + of_nat n) + 1" by simp
  show ?case unfolding e using Suc by (subst sint_inc32) auto
qed (simp add: assms(1))

lemma card_free_frames: "card (free_frames g) \<le> 20"
proof -
  have "free_frames g \<subseteq> {..<20}" by (auto simp: free_frames_def)
  from card_mono [OF _ this] show ?thesis by simp
qed

text \<open>What \<open>putframe\<close> leaves behind.\<close>

definition given_back :: "nat \<Rightarrow> (sem, area, sup) umem \<Rightarrow> (sem, area, sup) umem" where
  "given_back term m = m\<lparr>
     sems := (sems m)(Sem_pf := sems m Sem_pf + of_nat (length (filter (private_frame term (vars m)) [0..<MAXFRAMES]))),
     vars := fold (release_place term) [0..<32] (release_frames term {0..<MAXFRAMES} (vars m))\<rparr>"

lemma release_frames_simps:
  "mm (release_frames term is g) = mm g" "disk (release_frames term is g) = disk g"
  "pf_seg (pfs_arr (release_frames term is g) i) = pf_seg (pfs_arr g i)"
  "swapped term (release_frames term is g) = swapped term g"
  by (auto simp: release_frames_def swapped_def)

lemma solo_putframe:
  assumes "1 \<le> sint (sems m Sem_mm)" "\<forall>i < 32. within_frames term (vars m) i"
  shows "solo (putframe term) e m = (Done (), e, given_back term m)"
proof -
  have "\<forall>i \<in> set [0..<32]. within_frames term (release_frames term {0..<MAXFRAMES} (vars m)) i"
    using assms(2) by (simp add: within_frames_def release_frames_simps del: sup_consts)
  then show ?thesis
    unfolding putframe_def given_back_def
    by (simp add: solo_pbind solo_P assms(1) solo_release_frames solo_release_sectors del: upt_Suc sup_consts)
qed

lemma given_back_frames:
  "pfs_arr (vars (given_back term m)) i =
    (if i < MAXFRAMES \<and> private_frame term (vars m) i then (pfs_arr (vars m) i)\<lparr>pf_pid := - 1\<rparr> else pfs_arr (vars m) i)"
  by (simp add: given_back_def release_frames_def)

lemma given_back_counted:
  assumes "pf_counted m"
  shows "pf_counted (given_back term m)"
proof -
  define n where "n = length (filter (private_frame term (vars m)) [0..<MAXFRAMES])"
  have "n \<le> 20" unfolding n_def by (rule order_trans [OF length_filter_le]) simp
  then have "sint (sems m Sem_pf + of_nat n) = int (card (free_frames (vars m)) + n)"
    using assms(1) card_free_frames [of "vars m"] by (intro sint_count) (simp_all add: pf_counted_def)
  moreover have "free_frames (vars (given_back term m)) = free_frames (release_frames term {0..<MAXFRAMES} (vars m))"
    by (simp add: free_frames_def given_back_def)
  ultimately show ?thesis using card_released [of "term" "vars m"]
    by (simp add: pf_counted_def given_back_def n_def)
qed

text \<open>
  Termination gives memory back. \<open>putframe\<close> frees exactly the frames of the terminal process that are not of the
  shared segment, adds their number to \<open>sem_pf\<close>, which goes on counting the free frames, and marks as free the sectors of
  its pages on the floppy disk; no other sector changes.
\<close>

lemma putframe_releases:
  assumes "pf_counted m" "1 \<le> sint (sems m Sem_mm)"
    and "\<forall>i < 32. within_frames term (vars m) i"
  shows "\<exists>m'. solo (putframe term) e m = (Done (), e, m')
    \<and> (\<forall>i < MAXFRAMES. pfs_arr (vars m') i =
         (if private_frame term (vars m) i then (pfs_arr (vars m) i)\<lparr>pf_pid := - 1\<rparr> else pfs_arr (vars m) i))
    \<and> pf_counted m' \<and> sems m' Sem_mm = sems m Sem_mm
    \<and> (\<forall>t s. disk (vars m') t s =
         (if \<exists>i < 32. swapped term (vars m) i \<and> pf_seg (pfs_arr (vars m) i) \<noteq> 2
               \<and> place (unprivileged_seg_page_table (mm (vars m) term) i) = (t, s)
          then - 1 else disk (vars m) t s))"
proof -
  have "disk (vars (given_back term m)) t s =
         (if \<exists>i < 32. swapped term (vars m) i \<and> pf_seg (pfs_arr (vars m) i) \<noteq> 2
               \<and> place (unprivileged_seg_page_table (mm (vars m) term) i) = (t, s)
          then - 1 else disk (vars m) t s)" for t s
    by (simp add: given_back_def release_places_disk release_frames_simps Bex_def atLeast0LessThan) blast
  moreover have "sems (given_back term m) Sem_mm = sems m Sem_mm" by (simp add: given_back_def)
  ultimately show ?thesis
    using solo_putframe [OF assms(2,3)] given_back_counted [OF assms(1)]
    by (intro exI [of _ "given_back term m"]) (simp add: given_back_frames)
qed

definition paged0 :: "(sem, area, sup) umem" where
  "paged0 = mem0\<lparr>vars := upd_upage 1 3 (\<lambda>d. d\<lparr>pd_r := 0, pd_frame := 10\<rparr>)
     (upd_frame 4 (\<lambda>f. f\<lparr>pf_pid := 1, pf_seg := 1, pf_page := 7\<rparr>) sup0),
     sems := sems0(Sem_pf := 19)\<rparr>"

lemma paged0:
  "pf_counted paged0" "within_frames 1 (vars paged0) i" "private_frame 1 (vars paged0) 4"
  "swapped 1 (vars paged0) 3" "place (unprivileged_seg_page_table (mm (vars paged0) 1) 3) = (1, 2)"
proof -
  have "free_frames (vars paged0) = {0..<20} - {4}"
    by (auto simp: paged0_def free_frames_def upd_frame_def upd_upage_def upd_mm_def sup0_def)
  then show "pf_counted paged0" by (simp add: pf_counted_def paged0_def)
  show "within_frames 1 (vars paged0) i" "private_frame 1 (vars paged0) 4"
    "swapped 1 (vars paged0) 3" "place (unprivileged_seg_page_table (mm (vars paged0) 1) 3) = (1, 2)"
    by (simp_all add: paged0_def within_frames_def swapped_def place_def private_frame_def
        upd_frame_def upd_upage_def upd_mm_def samples Let_def)
qed

lemma putframe_releases_example:
  "\<exists>m'. solo (putframe 1) world0 paged0 = (Done (), world0, m') \<and> pf_pid (pfs_arr (vars m') 4) = - 1 \<and> pf_counted m'"
proof -
  have "1 \<le> sint (sems paged0 Sem_mm)" by (simp add: paged0_def sems0_def)
  from putframe_releases [OF paged0(1) this, of 1 world0] paged0(2,3)
  show ?thesis by fastforce
qed

text \<open>
  The second loop of \<open>putframe\<close> runs over the 32 pages of the segment but looks at \<open>pfs_arr[i]\<close>, of which there are only
  twenty: a terminal process with a page numbered 20 or more on the floppy disk makes it read outside the array.
\<close>

lemma putframe_leaves_array:
  assumes "1 \<le> sint (sems m Sem_mm)" "swapped term (vars m) i" "MAXFRAMES \<le> i" "i < 32"
  shows "fst (solo (putframe term) e m) = Stuck"
proof -
  define g where "g = release_frames term {0..<MAXFRAMES} (vars m)"
  have "swapped term g i" using assms(2) by (simp add: g_def release_frames_def swapped_def)
  then have stuck: "fst (solo (pfor [0..<32] (release_sector term)) e' m') = Stuck" if "vars m' = g" for e' m'
    using that assms(3,4) by (intro solo_release_stuck [of i]) auto
  have "\<exists>m'. vars m' = g \<and> solo (putframe term) e m = after_run (solo (pfor [0..<32] (release_sector term)) e m') (\<lambda>_. V Sem_mm)"
    unfolding putframe_def
    by (simp add: solo_pbind solo_P assms(1) solo_release_frames g_def [symmetric] del: upt_Suc sup_consts)
      (metis umem.select_convs(3) umem.surjective umem.update_convs(3))
  with stuck show ?thesis
    by (metis after_run.simps(7) fst_conv prod.collapse)
qed

lemma putframe_leaves_array_example:
  "fst (solo (putframe 1) world0 (mem0\<lparr>vars := upd_upage 1 25 (\<lambda>d. d\<lparr>pd_r := 0\<rparr>) sup0\<rparr>)) = Stuck"
  by (rule putframe_leaves_array [of _ _ 25])
    (simp_all add: samples swapped_def upd_upage_def upd_mm_def Let_def)

end
