(* ===== verification/Daemon_Properties.thy ===== *)
theory Daemon_Properties
  imports Pager_Properties
begin

text \<open>
  Properties of the paging daemon and the floppy disk (\<open>src/support/part2/page.c\<close>): sectors, the
  second-chance policy, and that a page thrown out comes back with its contents.
\<close>

unbundle bit_operations_syntax

section \<open>Sectors\<close>

text \<open>Sector number \<open>k\<close> is sector \<open>k mod 8\<close> of track \<open>k div 8\<close>.\<close>

definition sector_free :: "sup \<Rightarrow> nat \<Rightarrow> bool" where
  "sector_free g k \<longleftrightarrow> disk g (k div 8) (k mod 8) = - 1"

lemma sectors_nth:
  assumes "k < 800"
  shows "List.product [0..<100] [0..<8] ! k = (k div 8, k mod 8)"
  using assms by (subst product_nth) (auto simp del: upt_Suc)

lemma free_sector_None: "free_sector g = None \<longleftrightarrow> (\<forall>k < 800. \<not> sector_free g k)"
proof -
  have "(\<forall>k < 800. \<not> sector_free g k) \<longleftrightarrow> (\<forall>i < 100. \<forall>j < 8. disk g i j \<noteq> - 1)"
  proof (intro iffI allI impI)
    fix i j :: nat assume all: "\<forall>k < 800. \<not> sector_free g k" and "i < 100" "j < 8"
    then have "8 * i + j < 800" by simp
    with all have "\<not> sector_free g (8 * i + j)" by blast
    then show "disk g i j \<noteq> - 1" using \<open>j < 8\<close> by (simp add: sector_free_def)
  qed (auto simp: sector_free_def)
  then show ?thesis by (auto simp: free_sector_def find_None_iff)
qed

lemma free_sector_least:
  assumes "k < 800" "sector_free g k" "\<forall>l < k. \<not> sector_free g l"
  shows "free_sector g = Some (k div 8, k mod 8)"
proof -
  have n: "length (List.product [0..<100] [0..<8]) = 800" by simp
  show ?thesis unfolding free_sector_def
    by (subst find_Some_iff, intro exI [of _ k])
      (use assms n in \<open>auto simp: sectors_nth sector_free_def simp del: length_product upt_Suc\<close>)
qed

lemma sector_number:
  "push_bit 3 (int (k div 8)) OR int (k mod 8) = int k"
  "drop_bit 3 (int k) = int (k div 8)" "int k AND 7 = int (k mod 8)"
proof -
  show d: "drop_bit 3 (int k) = int (k div 8)" by (simp add: drop_bit_eq_div zdiv_int)
  have "int k AND 7 = take_bit 3 (int k)" by (simp add: take_bit_eq_mask mask_eq_exp_minus_1)
  then show a: "int k AND 7 = int (k mod 8)" by (simp add: take_bit_eq_mod zmod_int)
  have "push_bit 3 (drop_bit 3 (int k)) OR take_bit 3 (int k) = int k"
    by (simp add: bit_eq_iff bit_simps) auto
  then show "push_bit 3 (int (k div 8)) OR int (k mod 8) = int k"
    using d a \<open>int k AND 7 = take_bit 3 (int k)\<close> by simp
qed

definition use_sector :: "nat \<Rightarrow> sup \<Rightarrow> sup" where
  "use_sector k g = g\<lparr>disk := (disk g)(k div 8 := (disk g (k div 8))(k mod 8 := 1))\<rparr>"

lemma solo_get_disk_pos:
  assumes "k < 800" "sector_free (vars m) k" "\<forall>l < k. \<not> sector_free (vars m) l"
  shows "solo get_disk_pos e m = (Done (int k), e, m\<lparr>vars := use_sector k (vars m)\<rparr>)"
  using free_sector_least [OF assms]
  by (simp add: get_disk_pos_def solo_pbind use_sector_def sector_number)

section \<open>The floppy disk drive\<close>

text \<open>
  What the drive does with its registers (device 11): a seek moves the head, a read fills the
  frame at the buffer address with a sector of the current track, a write does the reverse.
\<close>

definition floppy_step :: "sup \<Rightarrow> sup" where
  "floppy_step g =
     (let d = dev_arr g 11; f = uint (d_badd d) div PAGESIZE; s = uint (d_dadd d) in
      if d_op d = IOSEEK then g\<lparr>head := s\<rparr>
      else if d_op d = IOREAD then g\<lparr>frames := (frames g)(f := floppy g (head g) s)\<rparr>
      else g\<lparr>floppy := (floppy g)(head g := (floppy g (head g))(s := frames g f))\<rparr>)"

definition floppy_works :: "(sem, area, sup) world \<Rightarrow> bool" where
  "floppy_works e \<longleftrightarrow> (\<forall>g. dv e 11 g = Some ((0, NORMAL), upd_dev 11 (\<lambda>d. d\<lparr>d_stat := NORMAL\<rparr>) (floppy_step g)))"

text \<open>The effect of one transfer between a frame and a sector.\<close>

definition transfer :: "int \<Rightarrow> int \<Rightarrow> int32 \<Rightarrow> int \<Rightarrow> sup \<Rightarrow> sup" where
  "transfer t s op f g = g\<lparr>head := t,
     dev_arr := (dev_arr g)(11 := \<lparr>d_op = op, d_dadd = of_int s, d_badd = of_int (f * PAGESIZE), d_stat = NORMAL\<rparr>),
     frames := (if op = IOREAD then (frames g)(f := floppy g t s) else frames g),
     floppy := (if op = IOREAD then floppy g else (floppy g)(t := (floppy g t)(s := frames g f)))\<rparr>"

lemma uint_of_int32: "0 \<le> a \<Longrightarrow> a < 2 ^ 32 \<Longrightarrow> uint (of_int a :: int32) = a"
  by (simp add: uint_word_of_int_eq take_bit_int_eq_self)

lemma solo_transfer:
  assumes "floppy_works e" "1 \<le> sint (sems m Sem_floppy)" "0 \<le> sint (sems m Sem_mm)"
    and "0 \<le> t" "t < 100" "0 \<le> s" "s < 8" "0 \<le> f" "f < 1000" "op = IOREAD \<or> op = IOWRITE"
  shows "solo (page_in_out_helper t s op f) e m = (Done (), e, m\<lparr>vars := transfer t s op f (vars m)\<rparr>)"
proof -
  have u: "uint (of_int t :: int32) = t" "uint (of_int s :: int32) = s" "uint (of_int (f * 512) :: int32) div 512 = f"
    using assms uint_of_int32 [of t] uint_of_int32 [of s] uint_of_int32 [of "f * 512"] by (simp_all del: of_int_mult)
  have w: "dv e 11 g = Some ((0, NORMAL), upd_dev 11 (\<lambda>d. d\<lparr>d_stat := NORMAL\<rparr>) (floppy_step g))" for g
    using assms(1) by (simp add: floppy_works_def)
  define s1 where "s1 = (sems m)(Sem_mm := sems m Sem_mm + 1, Sem_floppy := sems m Sem_floppy - 1)"
  have o1: "do_ops [(UNLOCK, Sem_mm), (LOCK, Sem_floppy)] (sems m) = (False, s1)"
    using pos_dec [OF assms(2)] assms(2) by (simp add: s1_def)
  have o2: "do_ops [(LOCK, Sem_mm), (UNLOCK, Sem_floppy)] s1 = (False, sems m)"
    using assms(3) by (auto simp: s1_def fun_eq_iff)
  define set2 where "set2 = upd_dev 11 (\<lambda>d. d\<lparr>d_op := op\<rparr>) \<circ> upd_dev 11 (\<lambda>d. d\<lparr>d_dadd := of_int s\<rparr>)
    \<circ> upd_dev 11 (\<lambda>d. d\<lparr>d_badd := of_int (f * PAGESIZE)\<rparr>)"
  define set1 where "set1 = upd_dev 11 (\<lambda>d. d\<lparr>d_op := IOSEEK\<rparr>) \<circ> upd_dev 11 (\<lambda>d. d\<lparr>d_dadd := of_int t\<rparr>)"
  define go where "go = (\<lambda>g. upd_dev 11 (\<lambda>d. d\<lparr>d_stat := NORMAL\<rparr>) (floppy_step g))"
  have "solo (page_in_out_helper t s op f) e m = (Done (), e, m\<lparr>vars := go (set2 (go (set1 (vars m))))\<rparr>)"
    unfolding page_in_out_helper_def
    by (simp add: solo_pbind w o1 o2 go_def set1_def set2_def del: do_ops.simps const_defs sup_consts)
  moreover have g1: "go (set1 g) = g\<lparr>head := t, dev_arr := (dev_arr g)(11 := (dev_arr g 11)\<lparr>d_dadd := of_int t, d_op := IOSEEK, d_stat := NORMAL\<rparr>)\<rparr>" for g
    by (simp add: go_def set1_def floppy_step_def upd_dev_def u Let_def)
  moreover have "go (set2 g) = transfer (head g) s op f g" for g
    using assms(10) by (cases "dev_arr g 11") (auto simp: go_def set2_def floppy_step_def transfer_def upd_dev_def u Let_def simp del: of_int_mult)
  ultimately show ?thesis by (simp add: transfer_def)
qed

section \<open>Throwing a page out\<close>

text \<open>
  The sector a frame's page goes to: the one it came from, or the first free one.
\<close>

definition target :: "sup \<Rightarrow> nat \<Rightarrow> nat \<Rightarrow> bool" where
  "target g i k \<longleftrightarrow> k < 800 \<and>
     (if pf_track (pfs_arr g i) \<noteq> - 1 \<and> pf_sector (pfs_arr g i) \<noteq> - 1
      then pf_track (pfs_arr g i) = int (k div 8) \<and> pf_sector (pfs_arr g i) = int (k mod 8)
      else sector_free g k \<and> (\<forall>l < k. \<not> sector_free g l))"

definition keep_sector :: "nat \<Rightarrow> nat \<Rightarrow> sup \<Rightarrow> sup" where
  "keep_sector i k g = (if pf_track (pfs_arr g i) \<noteq> - 1 \<and> pf_sector (pfs_arr g i) \<noteq> - 1 then g else use_sector k g)"

definition thrown_out :: "nat \<Rightarrow> nat \<Rightarrow> int \<Rightarrow> nat \<Rightarrow> nat \<Rightarrow> sup \<Rightarrow> sup" where
  "thrown_out i num sg page k g =
     upd_frame i (\<lambda>f. f\<lparr>pf_pid := - 1\<rparr>)
       (transfer (int (k div 8)) (int (k mod 8)) IOWRITE (pf_start g + int i)
         (upd_page_desc num sg page (\<lambda>d. d\<lparr>pd_frame := of_nat k\<rparr>)
           (keep_sector i k (upd_page_desc num sg page (\<lambda>d. d\<lparr>pd_p := 0\<rparr>) g))))"

lemma upd_page_desc_simps [simp]:
  "pfs_arr (upd_page_desc num sg page f g) = pfs_arr g" "pf_start (upd_page_desc num sg page f g) = pf_start g"
  "disk (upd_page_desc num sg page f g) = disk g" "sector_free (upd_page_desc num sg page f g) = sector_free g"
  "frames (upd_page_desc num sg page f g) = frames g" "floppy (upd_page_desc num sg page f g) = floppy g"
  by (simp_all add: upd_page_desc_def upd_upage_def upd_spage_def upd_mm_def sector_free_def fun_eq_iff)

lemma keep_sector_simps [simp]:
  "pfs_arr (keep_sector i k g) = pfs_arr g" "pf_start (keep_sector i k g) = pf_start g"
  "frames (keep_sector i k g) = frames g" "floppy (keep_sector i k g) = floppy g"
  "page_desc num sg page (keep_sector i k g) = page_desc num sg page g"
  by (simp_all add: keep_sector_def use_sector_def page_desc_def)

lemma solo_page_out:
  assumes "floppy_works e" "1 \<le> sint (sems m Sem_floppy)" "0 \<le> sint (sems m Sem_mm)"
    and "target (vars m) i k" "0 \<le> pf_start (vars m) + int i" "pf_start (vars m) + int i < 1000"
  shows "solo (page_out i num sg page) e m =
    (Done (), e, m\<lparr>sems := (sems m)(Sem_pf := sems m Sem_pf + 1), vars := thrown_out i num sg page k (vars m)\<rparr>)"
proof -
  have k: "k < 800" using assms(4) by (simp add: target_def)
  define g where "g = upd_page_desc num sg page (\<lambda>d. d\<lparr>pd_p := 0\<rparr>) (vars m)"
  have choose: "solo (out_position (pfs_arr (vars m) i)) e m' = (Done (int (k div 8), int (k mod 8), int k), e, m'\<lparr>vars := keep_sector i k g\<rparr>)"
    if "vars m' = g" for m'
    using assms(4) that
    by (auto simp: out_position_def target_def keep_sector_def g_def solo_pbind solo_get_disk_pos sector_number)
  have t: "solo (page_in_out_helper (int (k div 8)) (int (k mod 8)) IOWRITE (pf_start (vars m) + int i)) e m' =
      (Done (), e, m'\<lparr>vars := transfer (int (k div 8)) (int (k mod 8)) IOWRITE (pf_start (vars m) + int i) (vars m')\<rparr>)"
    if "sems m' = sems m" for m'
    using assms k that by (intro solo_transfer) auto
  show ?thesis
    unfolding page_out_def
    by (simp add: solo_pbind choose [unfolded g_def] t thrown_out_def del: const_defs)
qed

text \<open>Frame \<open>i\<close> holds page \<open>page\<close> of segment \<open>sg\<close> of terminal process \<open>num\<close>, and the page is present.\<close>

definition holds_page :: "sup \<Rightarrow> nat \<Rightarrow> nat \<Rightarrow> int \<Rightarrow> nat \<Rightarrow> bool" where
  "holds_page g i num sg page \<longleftrightarrow> i < MAXFRAMES \<and> (sg = 1 \<or> sg = 2)
     \<and> pf_pid (pfs_arr g i) = int num \<and> pf_seg (pfs_arr g i) = sg \<and> pf_page (pfs_arr g i) = int page
     \<and> pd_p (page_desc num sg page g) = 1"

lemma page_desc_upd [simp]:
  "sg = 1 \<or> sg = 2 \<Longrightarrow> page_desc num sg page (upd_page_desc num sg page f g) = f (page_desc num sg page g)"
  by (auto simp: page_desc_def upd_page_desc_def upd_upage_def upd_mm_def upd_spage_def)

lemma solo_daemon_frame_keep:
  assumes "holds_page (vars m) i num sg page" "pd_r (page_desc num sg page (vars m)) = 1" "1 \<le> sint (sems m Sem_mm)"
  shows "solo (daemon_frame i) e m =
    (Done (), e, m\<lparr>vars := upd_page_desc num sg page (\<lambda>d. d\<lparr>pd_r := 0\<rparr>) (vars m)\<rparr>)"
  using assms by (auto simp: daemon_frame_def solo_pbind solo_P holds_page_def)

lemma solo_daemon_frame_out:
  assumes "holds_page (vars m) i num sg page" "pd_r (page_desc num sg page (vars m)) = 0" "1 \<le> sint (sems m Sem_mm)"
    and "floppy_works e" "1 \<le> sint (sems m Sem_floppy)" "target (vars m) i k"
    and "0 \<le> pf_start (vars m)" "pf_start (vars m) < 900"
  shows "solo (daemon_frame i) e m =
    (Done (), e, m\<lparr>sems := (sems m)(Sem_pf := sems m Sem_pf + 1), vars := thrown_out i num sg page k (vars m)\<rparr>)"
proof -
  have "solo (page_out i num sg page) e (m\<lparr>sems := (sems m)(Sem_mm := sems m Sem_mm - 1)\<rparr>) =
    (Done (), e, m\<lparr>sems := (sems m)(Sem_mm := sems m Sem_mm - 1, Sem_pf := sems m Sem_pf + 1),
      vars := thrown_out i num sg page k (vars m)\<rparr>)"
    using assms pos_dec [OF assms(3)] by (subst solo_page_out) (auto simp: holds_page_def)
  with assms show ?thesis by (auto simp: daemon_frame_def solo_pbind solo_P holds_page_def)
qed

lemma thrown_out_simps [simp]:
  "pfs_arr (thrown_out i num sg page k g) = (pfs_arr g)(i := (pfs_arr g i)\<lparr>pf_pid := - 1\<rparr>)"
  "sg = 1 \<or> sg = 2 \<Longrightarrow> page_desc num sg page (thrown_out i num sg page k g) =
     (page_desc num sg page g)\<lparr>pd_p := 0, pd_frame := of_nat k\<rparr>"
  "floppy (thrown_out i num sg page k g) (int (k div 8)) (int (k mod 8)) = frames g (pf_start g + int i)"
  "pf_start (thrown_out i num sg page k g) = pf_start g"
proof -
  have [simp]: "pfs_arr (transfer t s op f g) = pfs_arr g" "pf_start (transfer t s op f g) = pf_start g"
    "page_desc num sg page (transfer t s op f g) = page_desc num sg page g"
    "page_desc num sg page (upd_frame i h g) = page_desc num sg page g"
    "floppy (upd_frame i h g) = floppy g" "pf_start (upd_frame i h g) = pf_start g"
    "pfs_arr (upd_frame i h g) = (pfs_arr g)(i := h (pfs_arr g i))" for t s op f h g
    by (simp_all add: transfer_def page_desc_def upd_frame_def)
  show "pfs_arr (thrown_out i num sg page k g) = (pfs_arr g)(i := (pfs_arr g i)\<lparr>pf_pid := - 1\<rparr>)"
    "pf_start (thrown_out i num sg page k g) = pf_start g"
    "sg = 1 \<or> sg = 2 \<Longrightarrow> page_desc num sg page (thrown_out i num sg page k g) =
     (page_desc num sg page g)\<lparr>pd_p := 0, pd_frame := of_nat k\<rparr>"
    by (simp_all add: thrown_out_def)
  show "floppy (thrown_out i num sg page k g) (int (k div 8)) (int (k mod 8)) = frames g (pf_start g + int i)"
    by (simp add: thrown_out_def) (simp add: transfer_def)
qed

lemma pf_counted_freed:
  assumes "pf_counted m" "i < MAXFRAMES" "i \<notin> free_frames (vars m)"
    and "pfs_arr (vars m') = (pfs_arr (vars m))(i := (pfs_arr (vars m) i)\<lparr>pf_pid := - 1\<rparr>)"
    and "sems m' Sem_pf = sems m Sem_pf + 1"
  shows "pf_counted m'"
proof -
  have "free_frames (vars m') = insert i (free_frames (vars m))"
    using assms(2,4) by (auto simp: free_frames_def)
  moreover have "sint (sems m Sem_pf + of_nat 1) = int (card (free_frames (vars m)) + 1)"
    using assms(1) card_free_frames [of "vars m"] by (intro sint_count) (simp_all add: pf_counted_def)
  ultimately show ?thesis using assms(3,5) by (simp add: pf_counted_def)
qed

section \<open>Bringing a page back\<close>

definition brought_in :: "nat \<Rightarrow> nat \<Rightarrow> int \<Rightarrow> nat \<Rightarrow> nat \<Rightarrow> sup \<Rightarrow> sup" where
  "brought_in j num sg page k g =
     upd_page_desc num sg page (\<lambda>d. d\<lparr>pd_r := 1\<rparr>)
       (upd_frame j (\<lambda>f. f\<lparr>pf_track := int (k div 8), pf_sector := int (k mod 8)\<rparr>)
         (transfer (int (k div 8)) (int (k mod 8)) IOREAD (pf_start g + int j) g))"

lemma solo_pagein:
  assumes "floppy_works e" "1 \<le> sint (sems m Sem_floppy)" "1 \<le> sint (sems m Sem_mm)"
    and "sg = 1 \<or> sg = 2" "pd_frame (page_desc num sg page (vars m)) = of_nat k" "k < 800"
    and "j < MAXFRAMES" "0 \<le> pf_start (vars m)" "pf_start (vars m) < 900"
  shows "solo (pagein num page sg (pf_start (vars m) + int j)) e m =
    (Done (), e, m\<lparr>vars := brought_in j num sg page k (vars m)\<rparr>)"
proof -
  have u: "uint (of_nat k :: 15 word) = int k"
    using assms(6) by (simp add: uint_nat unat_of_nat take_bit_nat_eq_self)
  have n: "k div 8 < 100" "k mod 8 < 8" using assms(6) by auto
  have t: "solo (page_in_out_helper (int (k div 8)) (int (k mod 8)) IOREAD (pf_start (vars m) + int j)) e m' =
      (Done (), e, m'\<lparr>vars := transfer (int (k div 8)) (int (k mod 8)) IOREAD (pf_start (vars m) + int j) (vars m')\<rparr>)"
    if "sems m' Sem_floppy = sems m Sem_floppy" "sems m' Sem_mm = sems m Sem_mm - 1" for m'
    using assms n that pos_dec [OF assms(3)] by (intro solo_transfer) auto
  have p: "pf_start (transfer x s op f g) = pf_start g" for x s op f g by (simp add: transfer_def)
  have s: "(sg = 1 \<or> sg = 2) = True" using assms(4) by simp
  show ?thesis
    unfolding pagein_def using assms(7)
    by (simp add: solo_pbind solo_P assms(3,5) s u sector_number t p Let_def brought_in_def del: const_defs of_nat_div of_nat_mod)
qed

lemma brought_in_simps [simp]:
  "frames (brought_in j num sg page k g) (pf_start g + int j) = floppy g (int (k div 8)) (int (k mod 8))"
  "sg = 1 \<or> sg = 2 \<Longrightarrow> page_desc num sg page (brought_in j num sg page k g) = (page_desc num sg page g)\<lparr>pd_r := 1\<rparr>"
proof -
  have [simp]: "page_desc num sg page (upd_frame i h g) = page_desc num sg page g"
    "page_desc num sg page (transfer t s op f g) = page_desc num sg page g"
    "frames (upd_frame i h g) = frames g" for i h t s op f g
    by (simp_all add: transfer_def page_desc_def upd_frame_def)
  show "sg = 1 \<or> sg = 2 \<Longrightarrow> page_desc num sg page (brought_in j num sg page k g) = (page_desc num sg page g)\<lparr>pd_r := 1\<rparr>"
    by (simp add: brought_in_def)
  show "frames (brought_in j num sg page k g) (pf_start g + int j) = floppy g (int (k div 8)) (int (k mod 8))"
    by (simp add: brought_in_def) (simp add: transfer_def)
qed

section \<open>Properties of the daemon\<close>

text \<open>
  Sectors of the floppy disk are handed out in order. \<open>get_disk_pos\<close> marks the first free sector as used, no
  other, and returns track and sector in one number, from which \<open>>> 3\<close> and \<open>& 7\<close> give them back; when all 800 sectors are
  used it ends without a value.
\<close>

lemma sector_allocated:
  "(\<exists>k < 800. sector_free (vars m) k \<and> (\<forall>l < k. \<not> sector_free (vars m) l)
      \<and> solo get_disk_pos e m = (Done (int k), e, m\<lparr>vars := use_sector k (vars m)\<rparr>)
      \<and> drop_bit 3 (int k) = int (k div 8) \<and> int k AND 7 = int (k mod 8))
   \<or> (\<forall>k < 800. \<not> sector_free (vars m) k) \<and> fst (solo get_disk_pos e m) = Stuck"
proof (cases "\<exists>k < 800. sector_free (vars m) k")
  case True
  define k where "k = (LEAST k. sector_free (vars m) k)"
  have k: "sector_free (vars m) k" "\<forall>l < k. \<not> sector_free (vars m) l" "k < 800"
    using True LeastI_ex [of "sector_free (vars m)"] not_less_Least [of _ "sector_free (vars m)"]
      Least_le [of "sector_free (vars m)"] unfolding k_def by (blast, blast, meson le_less_trans)
  with solo_get_disk_pos [of k m e] sector_number [of k] show ?thesis by blast
next
  case False
  then have "free_sector (vars m) = None" using free_sector_None by blast
  then have "fst (solo get_disk_pos e m) = Stuck" by (simp add: get_disk_pos_def solo_pbind)
  with False show ?thesis by blast
qed

text \<open>C19: The paging daemon gives every page a second chance. At its first visit a page that has been referenced only
  loses its reference bit; at the next, if nobody has referenced it since, it is written to its sector of the floppy
  disk, its descriptor is no longer present and names that sector, its frame is free, and \<open>sem_pf\<close> has grown by one and still
  counts the free frames.
\<close>

theorem second_chance:
  assumes "holds_page (vars m) i num sg page" "pd_r (page_desc num sg page (vars m)) = 1"
    and "target (vars m) i k" "0 \<le> pf_start (vars m)" "pf_start (vars m) < 900"
    and "1 \<le> sint (sems m Sem_mm)" "1 \<le> sint (sems m Sem_floppy)" "floppy_works e" "pf_counted m"
  shows "\<exists>m1 m2. solo (daemon_frame i) e m = (Done (), e, m1)
    \<and> page_desc num sg page (vars m1) = (page_desc num sg page (vars m))\<lparr>pd_r := 0\<rparr>
    \<and> pfs_arr (vars m1) = pfs_arr (vars m) \<and> sems m1 = sems m
    \<and> solo (daemon_frame i) e m1 = (Done (), e, m2)
    \<and> page_desc num sg page (vars m2) = (page_desc num sg page (vars m))\<lparr>pd_r := 0, pd_p := 0, pd_frame := of_nat k\<rparr>
    \<and> floppy (vars m2) (int (k div 8)) (int (k mod 8)) = frames (vars m) (pf_start (vars m) + int i)
    \<and> pfs_arr (vars m2) = (pfs_arr (vars m))(i := (pfs_arr (vars m) i)\<lparr>pf_pid := - 1\<rparr>)
    \<and> sems m2 = (sems m)(Sem_pf := sems m Sem_pf + 1) \<and> pf_counted m2"
proof -
  have sg: "sg = 1 \<or> sg = 2" using assms(1) by (simp add: holds_page_def)
  define m1 where "m1 = m\<lparr>vars := upd_page_desc num sg page (\<lambda>d. d\<lparr>pd_r := 0\<rparr>) (vars m)\<rparr>"
  define m2 where "m2 = m1\<lparr>sems := (sems m)(Sem_pf := sems m Sem_pf + 1), vars := thrown_out i num sg page k (vars m1)\<rparr>"
  have h1: "holds_page (vars m1) i num sg page" "target (vars m1) i k"
    using assms(1,3) sg by (simp_all add: holds_page_def target_def m1_def)
  have r1: "solo (daemon_frame i) e m = (Done (), e, m1)"
    using solo_daemon_frame_keep [OF assms(1,2,6)] by (simp add: m1_def)
  have s1: "pd_r (page_desc num sg page (vars m1)) = 0" "pf_start (vars m1) = pf_start (vars m)" "sems m1 = sems m"
    using sg by (simp_all add: m1_def)
  have r2: "solo (daemon_frame i) e m1 = (Done (), e, m2)"
    using solo_daemon_frame_out [OF h1(1) s1(1) _ assms(8) _ h1(2)] assms(4-7) by (simp add: s1(2,3) m2_def)
  have i: "i < MAXFRAMES" "i \<notin> free_frames (vars m)"
    using assms(1) by (auto simp: holds_page_def free_frames_def)
  have c: "pf_counted m2"
    by (rule pf_counted_freed [OF assms(9) i]) (simp_all add: m2_def m1_def)
  have f1: "page_desc num sg page (vars m1) = (page_desc num sg page (vars m))\<lparr>pd_r := 0\<rparr>"
    "pfs_arr (vars m1) = pfs_arr (vars m)" "sems m1 = sems m"
    using sg by (simp_all add: m1_def)
  have f2: "page_desc num sg page (vars m2) = (page_desc num sg page (vars m))\<lparr>pd_r := 0, pd_p := 0, pd_frame := of_nat k\<rparr>"
    "pfs_arr (vars m2) = (pfs_arr (vars m))(i := (pfs_arr (vars m) i)\<lparr>pf_pid := - 1\<rparr>)"
    "sems m2 = (sems m)(Sem_pf := sems m Sem_pf + 1)"
    using sg f1 by (simp_all add: m2_def)
  have "vars m2 = thrown_out i num sg page k (vars m1)" by (simp add: m2_def)
  then have "floppy (vars m2) (int (k div 8)) (int (k mod 8)) = frames (vars m) (pf_start (vars m) + int i)"
    by (simp only: thrown_out_simps) (simp add: m1_def)
  note this f1 f2 c r1 r2
  then show ?thesis by (rule_tac exI [of _ m1], rule_tac exI [of _ m2], intro conjI)
qed

definition visited0 :: "(sem, area, sup) umem" where
  "visited0 = mem0\<lparr>vars := upd_upage 1 7 (\<lambda>d. d\<lparr>pd_p := 1, pd_frame := 104\<rparr>)
     (upd_frame 4 (\<lambda>f. f\<lparr>pf_pid := 1, pf_seg := 1, pf_page := 7\<rparr>) sup0),
     sems := sems0(Sem_pf := 19)\<rparr>"

definition floppy0 :: "(sem, area, sup) world" where
  "floppy0 = world0\<lparr>dv := (\<lambda>_ g. Some ((0, NORMAL), upd_dev 11 (\<lambda>d. d\<lparr>d_stat := NORMAL\<rparr>) (floppy_step g)))\<rparr>"

lemma floppy0: "floppy_works floppy0"
  by (simp add: floppy_works_def floppy0_def)

lemma visited0:
  "holds_page (vars visited0) 4 1 1 7" "pd_r (page_desc 1 1 7 (vars visited0)) = 1" "target (vars visited0) 4 0"
  "pf_start (vars visited0) = 100" "1 \<le> sint (sems visited0 Sem_mm)" "1 \<le> sint (sems visited0 Sem_floppy)"
  "pf_counted visited0"
proof -
  have "free_frames (vars visited0) = {0..<20} - {4}"
    by (auto simp: visited0_def free_frames_def upd_frame_def upd_upage_def upd_mm_def sup0_def)
  then show "pf_counted visited0" by (simp add: pf_counted_def visited0_def)
qed (simp_all add: visited0_def holds_page_def page_desc_def target_def sector_free_def
      upd_frame_def upd_upage_def upd_mm_def samples)

theorem second_chance_witness:
  "\<exists>m1 m2. solo (daemon_frame 4) floppy0 visited0 = (Done (), floppy0, m1) \<and> pfs_arr (vars m1) = pfs_arr (vars visited0)
    \<and> solo (daemon_frame 4) floppy0 m1 = (Done (), floppy0, m2) \<and> pf_counted m2"
proof -
  have "0 \<le> pf_start (vars visited0)" "pf_start (vars visited0) < 900" using visited0(4) by simp_all
  from second_chance [OF visited0(1-3) this visited0(5,6) floppy0 visited0(7)] show ?thesis by blast
qed

end
