(* ===== verification/Init_Properties.thy ===== *)
theory Init_Properties
  imports Support Daemon_Properties
begin

text \<open>
  The start of the support level: the frame layout and tables \<open>pageinit\<close> makes
  (\<open>src/support/part2/page.c\<close>), the segment tables \<open>p1\<close> makes and the boot code it loads
  (\<open>src/support/part1/support.c\<close>).
\<close>

unbundle bit_operations_syntax

section \<open>Variables after pageinit\<close>

definition cleared :: "int \<Rightarrow> sup \<Rightarrow> sup" where
  "cleared n g = daemon_segs (clear_disk (fold clear_frame [0..<MAXFRAMES] (fold clear_ds [0..<MAXPROC]
     ((init_frames n g)\<lparr>pf_ctr := 0\<rparr>))))"

definition init_vars :: "linked \<Rightarrow> sup \<Rightarrow> sup" where
  "init_vars L g = fold (daemon_page L) [0..<256] (cleared (end_bss L div PAGESIZE) g)"

definition clear_sems :: "nat set \<Rightarrow> (sem \<Rightarrow> int32) \<Rightarrow> sem \<Rightarrow> int32" where
  "clear_sems is s v = (case v of Ds_sem i \<Rightarrow> if i \<in> is then 0 else s v | Vs_sem i \<Rightarrow> if i \<in> is then 0 else s v | _ \<Rightarrow> s v)"

definition init_sems :: "(sem \<Rightarrow> int32) \<Rightarrow> sem \<Rightarrow> int32" where
  "init_sems s = clear_sems {0..<MAXPROC}
     (s(Sem_pf := of_nat MAXFRAMES, Sem_disk := 0, Sem_page := 0, Sem_floppy := 1, Protected_sem := 1))"

lemma clear_sems_step:
  "clear_sems {} s = s" "clear_sems is (s(Ds_sem i := 0, Vs_sem i := 0)) = clear_sems (insert i is) s"
  by (auto simp: clear_sems_def fun_eq_iff split: sem.split)

lemma solo_clear_ds:
  "solo (pfor is (\<lambda>i. pseq (puts (Ds_sem i) 0) (pseq (puts (Vs_sem i) 0) (modv (clear_ds i))))) e m =
    (Done (), e, m\<lparr>sems := clear_sems (set is) (sems m), vars := fold clear_ds is (vars m)\<rparr>)"
  by (induction "is" arbitrary: m) (simp_all add: solo_pbind clear_sems_step)

definition daemon_states :: "linked \<Rightarrow> sup \<Rightarrow> state_t \<Rightarrow> state_t list" where
  "daemon_states L g st = [sys_state L ''pagedaemon'' (Spagedstack g) Page_daemon_st st,
     sys_state L ''diskdaemon'' (Sdiskstack g) Disk_daemon_st st]"

lemma solo_pageinit:
  assumes "end_bss L div PAGESIZE \<le> 220" "2 \<le> room e"
  shows "solo (pageinit L) e m =
    (Done (), e\<lparr>room := room e - 2, born := born e @ daemon_states L (init_vars L (vars m)) (self e)\<rparr>,
     m\<lparr>sems := init_sems (sems m), vars := init_vars L (vars m)\<rparr>)"
proof -
  have h: "(220 < end_bss L div PAGESIZE) = False" using assms(1) by simp
  show ?thesis
    unfolding pageinit_def Let_def h if_False
    using assms(2)
    by (simp add: solo_pbind solo_pfor_modv solo_clear_ds init_sems_def init_vars_def cleared_def daemon_states_def
        del: upt_Suc const_defs sup_consts)
qed

lemma daemon_page_simps [simp]:
  "Sdiskframe (daemon_page L i g) = Sdiskframe g" "Spagedframe (daemon_page L i g) = Spagedframe g"
  "pfs_arr (daemon_page L i g) = pfs_arr g" "disk (daemon_page L i g) = disk g" "pf_start (daemon_page L i g) = pf_start g"
  "Tsysframe (daemon_page L i g) = Tsysframe g" "Tmmframe (daemon_page L i g) = Tmmframe g"
  "Scronframe (daemon_page L i g) = Scronframe g" "Tsysstack (daemon_page L i g) = Tsysstack g"
  "Tmmstack (daemon_page L i g) = Tmmstack g" "Scronstack (daemon_page L i g) = Scronstack g"
  "Spagedstack (daemon_page L i g) = Spagedstack g" "Sdiskstack (daemon_page L i g) = Sdiskstack g"
  "frames (daemon_page L i g) = frames g"
  by (simp_all add: daemon_page_def set_page_present_def upd_disk_daemon_def upd_page_daemon_def)

text \<open>Which pages a daemon finds in memory: its frame \<open>own\<close>, but not the other daemon's.\<close>

definition common_page :: "linked \<Rightarrow> nat \<Rightarrow> bool" where
  "common_page L i \<longleftrightarrow> i = 2 \<or> in_pages 0x1400 0x1600 (int i) \<or> program_page L (int i)"

definition daemon_entry :: "linked \<Rightarrow> int \<Rightarrow> int \<Rightarrow> nat \<Rightarrow> pd_t \<Rightarrow> pd_t" where
  "daemon_entry L own other i =
     (if common_page L i then present (int i) else if int i = other then id
      else if int i = own then present (int i) else absent (int i))"

lemma daemon_page_tables:
  assumes "Spagedframe g \<noteq> Sdiskframe g"
  shows "page_daemon_page (daemon_page L i g) =
      (page_daemon_page g)(i := daemon_entry L (Spagedframe g) (Sdiskframe g) i (page_daemon_page g i))"
    "disk_daemon_page (daemon_page L i g) =
      (disk_daemon_page g)(i := daemon_entry L (Sdiskframe g) (Spagedframe g) i (disk_daemon_page g i))"
  using assms
  by (auto simp: daemon_page_def set_page_present_def upd_disk_daemon_def upd_page_daemon_def
      daemon_entry_def common_page_def)

lemma daemon_entry_twice [simp]:
  "daemon_entry L own other i (daemon_entry L own other i d) = daemon_entry L own other i d"
  by (simp add: daemon_entry_def present_def absent_def)

lemma daemon_pages:
  assumes "Spagedframe g \<noteq> Sdiskframe g"
  shows "page_daemon_page (fold (daemon_page L) is g) j =
      (if j \<in> set is then daemon_entry L (Spagedframe g) (Sdiskframe g) j (page_daemon_page g j) else page_daemon_page g j)"
    "disk_daemon_page (fold (daemon_page L) is g) j =
      (if j \<in> set is then daemon_entry L (Sdiskframe g) (Spagedframe g) j (disk_daemon_page g j) else disk_daemon_page g j)"
  using assms by (induction "is" arbitrary: g) (auto simp: daemon_page_tables)

lemma cleared_frames:
  "pfs_arr (cleared n g) i = (if i < MAXFRAMES then \<lparr>pf_pid = - 1, pf_seg = - 1, pf_page = - 1, pf_track = - 1, pf_sector = - 1\<rparr>
     else pfs_arr g i)"
proof -
  have d: "pfs_arr (fold clear_ds is g) = pfs_arr g" for "is" g
    by (rule fold_unchanged [where sel = pfs_arr]) (simp add: clear_ds_def upd_vs_def upd_ds_def)
  have "pfs_arr (fold clear_frame is g) i =
      (if i \<in> set is then \<lparr>pf_pid = - 1, pf_seg = - 1, pf_page = - 1, pf_track = - 1, pf_sector = - 1\<rparr> else pfs_arr g i)" for "is" g
    by (rule fold_pointwise [where sel = pfs_arr and f = "\<lambda>_ _. \<lparr>pf_pid = - 1, pf_seg = - 1, pf_page = - 1, pf_track = - 1, pf_sector = - 1\<rparr>"])
      (simp_all add: clear_frame_def upd_frame_def)
  then show ?thesis
    by (simp add: cleared_def daemon_segs_def clear_disk_def d init_frames_def del: upt_Suc)
qed

lemma fold_cleared:
  assumes "\<And>i g. sel (clear_ds i g) = sel g" "\<And>i g. sel (clear_frame i g) = sel g"
    and "\<And>g. sel (daemon_segs g) = sel g" "\<And>g. sel (clear_disk g) = sel g" "\<And>g. sel (g\<lparr>pf_ctr := 0\<rparr>) = sel g"
  shows "sel (cleared n g) = sel (init_frames n g)"
  by (simp add: cleared_def assms fold_unchanged [where sel = sel])

lemma cleared_simps [simp]:
  "Sdiskframe (cleared n g) = Sdiskframe (init_frames n g)" "Spagedframe (cleared n g) = Spagedframe (init_frames n g)"
  "pf_start (cleared n g) = pf_start (init_frames n g)"
  "Tsysframe (cleared n g) = Tsysframe (init_frames n g)" "Tmmframe (cleared n g) = Tmmframe (init_frames n g)"
  "Scronframe (cleared n g) = Scronframe (init_frames n g)" "Tsysstack (cleared n g) = Tsysstack (init_frames n g)"
  "Tmmstack (cleared n g) = Tmmstack (init_frames n g)" "Scronstack (cleared n g) = Scronstack (init_frames n g)"
  "Spagedstack (cleared n g) = Spagedstack (init_frames n g)" "Sdiskstack (cleared n g) = Sdiskstack (init_frames n g)"
  "page_daemon_page (cleared n g) = page_daemon_page g" "disk_daemon_page (cleared n g) = disk_daemon_page g"
  by (subst fold_cleared; simp add: clear_ds_def clear_frame_def upd_frame_def upd_vs_def upd_ds_def daemon_segs_def
      clear_disk_def init_frames_def)+

lemma cleared_disk: "i < 100 \<Longrightarrow> j < 8 \<Longrightarrow> disk (cleared n g) i j = - 1"
  by (simp add: cleared_def daemon_segs_def clear_disk_def)

lemma init_vars_simps [simp]:
  "Sdiskframe (init_vars L g) = Sdiskframe (init_frames (end_bss L div PAGESIZE) g)"
  "Spagedframe (init_vars L g) = Spagedframe (init_frames (end_bss L div PAGESIZE) g)"
  "pf_start (init_vars L g) = pf_start (init_frames (end_bss L div PAGESIZE) g)"
  "Tsysframe (init_vars L g) = Tsysframe (init_frames (end_bss L div PAGESIZE) g)"
  "Tmmframe (init_vars L g) = Tmmframe (init_frames (end_bss L div PAGESIZE) g)"
  "Scronframe (init_vars L g) = Scronframe (init_frames (end_bss L div PAGESIZE) g)"
  "Tsysstack (init_vars L g) = Tsysstack (init_frames (end_bss L div PAGESIZE) g)"
  "Tmmstack (init_vars L g) = Tmmstack (init_frames (end_bss L div PAGESIZE) g)"
  "Scronstack (init_vars L g) = Scronstack (init_frames (end_bss L div PAGESIZE) g)"
  "Spagedstack (init_vars L g) = Spagedstack (init_frames (end_bss L div PAGESIZE) g)"
  "Sdiskstack (init_vars L g) = Sdiskstack (init_frames (end_bss L div PAGESIZE) g)"
  "pfs_arr (init_vars L g) = pfs_arr (cleared (end_bss L div PAGESIZE) g)"
  "disk (init_vars L g) = disk (cleared (end_bss L div PAGESIZE) g)"
  unfolding init_vars_def by (subst fold_unchanged; simp)+

section \<open>Properties of pageinit\<close>





text \<open>
  After \<open>pageinit\<close> all twenty frames and all 800 sectors are free, the semaphores have their first values, \<open>sem_pf\<close>
  counts the free frames, and the two daemons have been created with their own stacks and segment tables, in
  supervisor mode with memory mapping.
\<close>

lemma pageinit_ready:
  assumes "end_bss L div PAGESIZE \<le> 220" "2 \<le> room e"
  shows "\<exists>e' m'. solo (pageinit L) e m = (Done (), e', m')
    \<and> free_frames (vars m') = {0..<MAXFRAMES} \<and> pf_counted m' \<and> (\<forall>k < 800. sector_free (vars m') k)
    \<and> map (sems m') [Sem_pf, Sem_disk, Sem_page, Sem_floppy, Protected_sem] = [20, 0, 0, 1, 1]
    \<and> (\<forall>i < MAXPROC. sems m' (Ds_sem i) = 0 \<and> sems m' (Vs_sem i) = 0)
    \<and> born e' = born e @ daemon_states L (vars m') (self e) \<and> room e' = room e - 2"
proof -
  define m' where "m' = m\<lparr>sems := init_sems (sems m), vars := init_vars L (vars m)\<rparr>"
  define e' where "e' = e\<lparr>room := room e - 2, born := born e @ daemon_states L (init_vars L (vars m)) (self e)\<rparr>"
  have run: "solo (pageinit L) e m = (Done (), e', m')" using solo_pageinit [OF assms] by (simp add: m'_def e'_def)
  have free: "free_frames (vars m') = {0..<MAXFRAMES}" by (auto simp: free_frames_def m'_def cleared_frames)
  have s: "map (sems m') [Sem_pf, Sem_disk, Sem_page, Sem_floppy, Protected_sem] = [20, 0, 0, 1, 1]"
    "\<forall>i < MAXPROC. sems m' (Ds_sem i) = 0 \<and> sems m' (Vs_sem i) = 0"
    by (simp_all add: m'_def init_sems_def clear_sems_def)
  have "pf_counted m'" using s(1) by (simp add: pf_counted_def free)
  moreover have "\<forall>k < 800. sector_free (vars m') k"
    by (auto simp: sector_free_def m'_def cleared_disk)
  ultimately show ?thesis using run free s
    by (intro exI [of _ e'] exI [of _ m'] conjI) (auto simp: e'_def m'_def)
qed

lemma pageinit_ready_example:
  "\<exists>e' m'. solo (pageinit linked0) world0 mem0 = (Done (), e', m') \<and> pf_counted m' \<and> room e' = 8"
  using pageinit_ready [of linked0 world0 mem0] by (fastforce simp: linked0_def world0_def)

text \<open>
  The daemons cannot touch each other's stacks or the page frames. After \<open>pageinit\<close> the page table of the paging
  daemon, and that of the disk daemon, has a page present exactly when it belongs to the trap areas, the device
  registers or the program, or is the daemon's own stack frame; present pages are mapped to themselves.
\<close>

lemma daemon_memory:
  assumes "end_bss L div PAGESIZE \<le> 220" "2 \<le> room e" "i < 256"
    and "pd_p (page_daemon_page (vars m) i) = 0" "pd_p (disk_daemon_page (vars m) i) = 0"
  shows "\<exists>e' m'. solo (pageinit L) e m = (Done (), e', m')
    \<and> (pd_p (page_daemon_page (vars m') i) = 1 \<longleftrightarrow> common_page L i \<or> int i = Spagedframe (vars m'))
    \<and> (pd_p (disk_daemon_page (vars m') i) = 1 \<longleftrightarrow> common_page L i \<or> int i = Sdiskframe (vars m'))
    \<and> (common_page L i \<longrightarrow> pd_frame (page_daemon_page (vars m') i) = of_nat i \<and> pd_frame (disk_daemon_page (vars m') i) = of_nat i)"
proof -
  let ?c = "cleared (end_bss L div PAGESIZE) (vars m)"
  have d: "Spagedframe ?c \<noteq> Sdiskframe ?c" "Spagedframe ?c = Spagedframe (init_vars L (vars m))"
    "Sdiskframe ?c = Sdiskframe (init_vars L (vars m))" by (simp_all add: init_frames_def)
  have "page_daemon_page (init_vars L (vars m)) i = daemon_entry L (Spagedframe ?c) (Sdiskframe ?c) i (page_daemon_page (vars m) i)"
    "disk_daemon_page (init_vars L (vars m)) i = daemon_entry L (Sdiskframe ?c) (Spagedframe ?c) i (disk_daemon_page (vars m) i)"
    using daemon_pages [OF d(1)] assms(3) by (simp_all add: init_vars_def del: upt_Suc)
  then show ?thesis
    using assms(4,5) d(1) unfolding solo_pageinit [OF assms(1,2)] d(2,3)
    by (auto simp: daemon_entry_def present_def absent_def simp del: init_vars_simps)
qed

lemma daemon_memory_example:
  "\<exists>e' m'. solo (pageinit linked0) world0 mem0 = (Done (), e', m') \<and> pd_p (page_daemon_page (vars m') 200) \<noteq> 1"
  using daemon_memory [of linked0 world0 200 mem0]
  by (auto simp: samples common_page_def in_pages_def program_page_def solo_pageinit init_frames_def)

section \<open>The tables of the terminal processes\<close>

abbreviation useg :: "sup \<Rightarrow> nat \<Rightarrow> nat \<Rightarrow> sd_t" where
  "useg g i \<equiv> unprivileged_seg (mm g i)"

abbreviation upage :: "sup \<Rightarrow> nat \<Rightarrow> nat \<Rightarrow> pd_t" where
  "upage g i \<equiv> unprivileged_seg_page_table (mm g i)"

lemma terminal_page_simps [simp]:
  "useg (terminal_page L i j g) k = useg g k" "upage (terminal_page L i j g) k = upage g k"
  "privileged_seg (mm (terminal_page L i j g) k) = privileged_seg (mm g k)"
  "pf_start (terminal_page L i j g) = pf_start g" "pfs_arr (terminal_page L i j g) = pfs_arr g"
  "Scronstack (terminal_page L i j g) = Scronstack g" "Tsysstack (terminal_page L i j g) = Tsysstack g"
  "frames (terminal_page L i j g) = frames g"
  by (simp_all add: terminal_page_def set_privileged_page_present_def upd_ppage_def upd_mm_def)

text \<open>The segment tables of a terminal process in user mode and in supervisor mode.\<close>

definition user_seg :: "nat \<Rightarrow> nat \<Rightarrow> sd_t \<Rightarrow> sd_t" where
  "user_seg i j d = (if j = 1 \<or> j = 2 then \<lparr>sd_p = 1, sd_prot = 7, sd_len = 31, sd_pta = if j = 1 then Unprivileged_pt i else Shared_pt\<rparr>
     else if j < 32 then d\<lparr>sd_p := 0\<rparr> else d)"

definition super_seg :: "nat \<Rightarrow> nat \<Rightarrow> sd_t \<Rightarrow> sd_t" where
  "super_seg i j d = (if j = 0 then \<lparr>sd_p = 1, sd_prot = 7, sd_len = 255, sd_pta = Privileged_pt i\<rparr> else user_seg i j d)"

definition no_high_segs :: "nat \<Rightarrow> nat \<Rightarrow> sup \<Rightarrow> sup" where
  "no_high_segs i j g = upd_pseg i j (\<lambda>d. d\<lparr>sd_p := 0\<rparr>) (upd_useg i j (\<lambda>d. d\<lparr>sd_p := 0\<rparr>) g)"

definition no_pages :: "nat \<Rightarrow> nat \<Rightarrow> sup \<Rightarrow> sup" where
  "no_pages i j g = upd_spage j no_page (upd_upage i j no_page g)"

lemma high_segs:
  "useg (fold (no_high_segs i) js g) i j = (if j \<in> set js then (useg g i j)\<lparr>sd_p := 0\<rparr> else useg g i j)"
  "privileged_seg (mm (fold (no_high_segs i) js g) i) j =
     (if j \<in> set js then (privileged_seg (mm g i) j)\<lparr>sd_p := 0\<rparr> else privileged_seg (mm g i) j)"
  by (rule fold_pointwise [where sel = "\<lambda>g. useg g i" and f = "\<lambda>_ d. d\<lparr>sd_p := 0\<rparr>"];
      simp add: no_high_segs_def upd_pseg_def upd_useg_def upd_mm_def)
    (rule fold_pointwise [where sel = "\<lambda>g. privileged_seg (mm g i)" and f = "\<lambda>_ d. d\<lparr>sd_p := 0\<rparr>"];
      simp add: no_high_segs_def upd_pseg_def upd_useg_def upd_mm_def)

lemma pages_gone:
  "upage (fold (no_pages i) js g) i j = (if j \<in> set js then no_page (upage g i j) else upage g i j)"
  by (rule fold_pointwise [where sel = "\<lambda>g. upage g i" and f = "\<lambda>_. no_page"];
      simp add: no_pages_def upd_upage_def upd_spage_def upd_mm_def no_page_def)

definition first_segs :: "nat \<Rightarrow> sup \<Rightarrow> sup" where
  "first_segs i g = set_privileged_seg_present i 2 (set_privileged_seg_present i 1 (set_privileged_seg_present i 0
     (set_unprivileged_seg_present i 2 (set_unprivileged_seg_present i 1 (upd_useg i 0 (\<lambda>d. d\<lparr>sd_p := 0\<rparr>)
       (g\<lparr>d_sem := (d_sem g)(i := \<lparr>d_time = 0, d_start = 0\<rparr>)\<rparr>))))))"

lemma terminal_tables_alt:
  "terminal_tables L i g = fold (terminal_page L i) [0..<256] (fold (no_pages i) [0..<32] (fold (no_high_segs i) [3..<32] (first_segs i g)))"
  unfolding terminal_tables_def first_segs_def Let_def no_pages_def no_high_segs_def by (rule refl)

lemma terminal_tables_unchanged:
  assumes "\<And>j g. sel (terminal_page L i j g) = sel g" "\<And>j g. sel (no_pages i j g) = sel g"
    and "\<And>j g. sel (no_high_segs i j g) = sel g" "sel (first_segs i g) = sel g"
  shows "sel (terminal_tables L i g) = sel g"
  by (simp only: terminal_tables_alt fold_unchanged [where sel = sel] assms)

lemmas first_segs_defs = first_segs_def set_privileged_seg_present_def set_unprivileged_seg_present_def
  upd_useg_def upd_pseg_def upd_mm_def no_pages_def no_high_segs_def upd_upage_def upd_spage_def

lemma terminal_tables_simps [simp]:
  "pf_start (terminal_tables L i g) = pf_start g" "pfs_arr (terminal_tables L i g) = pfs_arr g"
  "Scronstack (terminal_tables L i g) = Scronstack g" "Tsysstack (terminal_tables L i g) = Tsysstack g"
  "frames (terminal_tables L i g) = frames g"
  "k \<noteq> i \<Longrightarrow> useg (terminal_tables L i g) k = useg g k" "k \<noteq> i \<Longrightarrow> upage (terminal_tables L i g) k = upage g k"
  "k \<noteq> i \<Longrightarrow> privileged_seg (mm (terminal_tables L i g) k) = privileged_seg (mm g k)"
  by (rule terminal_tables_unchanged; simp add: first_segs_defs)+

lemma terminal_tables_own:
  "useg (terminal_tables L i g) i j = user_seg i j (useg g i j)"
  "privileged_seg (mm (terminal_tables L i g) i) j = super_seg i j (privileged_seg (mm g i) j)"
  "upage (terminal_tables L i g) i j = (if j < 32 then no_page (upage g i j) else upage g i j)"
proof -
  have a: "useg (fold (no_pages i) js g) i = useg g i" "useg (fold (terminal_page L i) js g) i = useg g i"
    "privileged_seg (mm (fold (no_pages i) js g) i) = privileged_seg (mm g i)"
    "privileged_seg (mm (fold (terminal_page L i) js g) i) = privileged_seg (mm g i)"
    "upage (fold (terminal_page L i) js g) i = upage g i" "upage (fold (no_high_segs i) js g) i = upage g i" for js g
    by (rule fold_unchanged; simp add: first_segs_defs)+
  show "useg (terminal_tables L i g) i j = user_seg i j (useg g i j)"
    unfolding terminal_tables_alt a high_segs set_upt by (cases "j = 0"; cases "useg g i j"; auto simp: first_segs_defs user_seg_def)
  show "privileged_seg (mm (terminal_tables L i g) i) j = super_seg i j (privileged_seg (mm g i) j)"
    unfolding terminal_tables_alt a high_segs set_upt
    by (cases "j = 0"; cases "privileged_seg (mm g i) j"; auto simp: first_segs_defs user_seg_def super_seg_def)
  have "upage (first_segs i g) i = upage g i" by (simp add: first_segs_defs)
  then show "upage (terminal_tables L i g) i j = (if j < 32 then no_page (upage g i j) else upage g i j)"
    unfolding terminal_tables_alt a pages_gone by (simp del: upt_Suc)
qed

lemma all_tables:
  assumes "distinct is"
  shows "useg (fold (terminal_tables L) is g) i j = (if i \<in> set is then user_seg i j (useg g i j) else useg g i j)"
    "privileged_seg (mm (fold (terminal_tables L) is g) i) j =
       (if i \<in> set is then super_seg i j (privileged_seg (mm g i) j) else privileged_seg (mm g i) j)"
    "upage (fold (terminal_tables L) is g) i j = (if i \<in> set is \<and> j < 32 then no_page (upage g i j) else upage g i j)"
  using assms
proof (induction "is" arbitrary: g)
  case (Cons k "is")
  { case 1 with Cons show ?case by (cases "i = k") (auto simp: terminal_tables_own) }
  { case 2 with Cons show ?case by (cases "i = k") (auto simp: terminal_tables_own) }
  { case 3 with Cons show ?case by (cases "i = k") (auto simp: terminal_tables_own) }
qed auto

section \<open>Loading the boot code\<close>

definition boot_loaded :: "nat \<Rightarrow> sup \<Rightarrow> sup \<Rightarrow> bool" where
  "boot_loaded n g g' \<longleftrightarrow> free_frames g' = {n..<MAXFRAMES} \<and> pf_start g' = pf_start g \<and> Scronstack g' = Scronstack g
     \<and> (\<forall>i. useg g' i = useg g i) \<and> (\<forall>i. privileged_seg (mm g' i) = privileged_seg (mm g i))
     \<and> (\<forall>i j. upage g' i j = (if i < n \<and> j = 31 then (upage g i j)\<lparr>pd_p := 1, pd_frame := of_int (pf_start g + int i)\<rparr> else upage g i j))
     \<and> (\<forall>i < n. \<forall>j < 11. frames g' (pf_start g + int i) j = boot_code ! j)
     \<and> (\<forall>i < n. pfs_arr g' i = \<lparr>pf_pid = int i, pf_seg = 1, pf_page = 31, pf_track = - 1, pf_sector = - 1\<rparr>)"

lemma free_frame_next: "free_frames g = {n..<MAXFRAMES} \<Longrightarrow> n < MAXFRAMES \<Longrightarrow> free_frame g = Some n"
  by (auto simp: free_frame_Some)

definition boot_frame :: "nat \<Rightarrow> sup \<Rightarrow> sup" where
  "boot_frame n g = upd_upage n 31 (\<lambda>d. d\<lparr>pd_p := 1, pd_frame := of_int (pf_start g + int n)\<rparr>)
     ((upd_frame n (\<lambda>_. \<lparr>pf_pid = int n, pf_seg = 1, pf_page = 31, pf_track = - 1, pf_sector = - 1\<rparr>) g)
       \<lparr>frames := (frames g)(pf_start g + int n := (\<lambda>j. if j < 11 then boot_code ! j else frames g (pf_start g + int n) j))\<rparr>)"

lemma solo_load_boot:
  assumes "free_frames (vars m) = {n..<MAXFRAMES}" "n < 5" "sems m Sem_pf = of_nat (20 - n)" "sems m Sem_mm = 1"
  shows "solo (load_boot n) e m =
    (Done (), e, m\<lparr>sems := (sems m)(Sem_pf := of_nat (20 - Suc n)), vars := boot_frame n (vars m)\<rparr>)"
proof -
  have f: "free_frame (vars m) = Some n" using free_frame_next [OF assms(1)] assms(2) by simp
  have "n = 0 \<or> n = 1 \<or> n = 2 \<or> n = 3 \<or> n = 4" using assms(2) by auto
  then have s: "1 \<le> sint (sems m Sem_pf)" "frame_taken (sems m) = (sems m)(Sem_pf := of_nat (20 - Suc n))"
    using assms(3) by (auto simp: frame_taken_def Let_def)
  have "solo (getfreeframe (int n) 31 1) e m = (Done (pf_start (vars m) + int n), e,
     m\<lparr>sems := (sems m)(Sem_pf := of_nat (20 - Suc n)),
       vars := upd_frame n (\<lambda>_. \<lparr>pf_pid = int n, pf_seg = 1, pf_page = 31, pf_track = - 1, pf_sector = - 1\<rparr>) (vars m)\<rparr>)"
    using solo_getfreeframe [OF s(1) _ _ f, of 1 31 "int n" e] assms(4) s(2) by simp
  then show ?thesis
    by (simp add: load_boot_def solo_pbind boot_frame_def upd_upage_def upd_mm_def upd_frame_def cong: if_cong)
qed

lemma solo_load_boots:
  assumes "free_frames (vars m) = {0..<MAXFRAMES}" "n \<le> 5" "sems m Sem_pf = 20" "sems m Sem_mm = 1"
  shows "\<exists>g'. solo (pfor [0..<n] load_boot) e m = (Done (), e, m\<lparr>sems := (sems m)(Sem_pf := of_nat (20 - n)), vars := g'\<rparr>)
    \<and> boot_loaded n (vars m) g'"
  using assms(2)
proof (induction n)
  case 0
  have e: "m\<lparr>sems := (sems m)(Sem_pf := of_nat (20 - 0)), vars := vars m\<rparr> = m"
    by (rule umem.equality) (use assms(3) in auto)
  show ?case
  proof (intro exI conjI)
    show "solo (pfor [0..<0] load_boot) e m =
        (Done (), e, m\<lparr>sems := (sems m)(Sem_pf := of_nat (20 - 0)), vars := vars m\<rparr>)" unfolding e by simp
    show "boot_loaded 0 (vars m) (vars m)" using assms(1) by (simp add: boot_loaded_def)
  qed
next
  case (Suc n)
  from Suc.IH [OF Suc_leD [OF Suc.prems]] obtain g where g: "solo (pfor [0..<n] load_boot) e m =
      (Done (), e, m\<lparr>sems := (sems m)(Sem_pf := of_nat (20 - n)), vars := g\<rparr>)" "boot_loaded n (vars m) g" by blast
  define m1 where "m1 = m\<lparr>sems := (sems m)(Sem_pf := of_nat (20 - n)), vars := g\<rparr>"
  have "solo (load_boot n) e m1 = (Done (), e, m1\<lparr>sems := (sems m1)(Sem_pf := of_nat (20 - Suc n)), vars := boot_frame n (vars m1)\<rparr>)"
    using g(2) Suc.prems assms(4) by (intro solo_load_boot) (simp_all add: m1_def boot_loaded_def del: of_nat_diff)
  also have "m1\<lparr>sems := (sems m1)(Sem_pf := of_nat (20 - Suc n)), vars := boot_frame n (vars m1)\<rparr> =
      m\<lparr>sems := (sems m)(Sem_pf := of_nat (20 - Suc n)), vars := boot_frame n g\<rparr>"
    by (rule umem.equality) (simp_all add: m1_def)
  finally have "solo (pfor [0..<Suc n] load_boot) e m =
      (Done (), e, m\<lparr>sems := (sems m)(Sem_pf := of_nat (20 - Suc n)), vars := boot_frame n g\<rparr>)"
    by (simp only: upt_Suc_append le0 solo_pfor_append g(1) after_run.simps m1_def [symmetric] pfor.simps solo_pbind solo.simps)
  moreover have "boot_loaded (Suc n) (vars m) (boot_frame n g)"
    using g(2) Suc.prems
    by (auto simp: boot_loaded_def boot_frame_def upd_upage_def upd_mm_def upd_frame_def less_Suc_eq free_frames_def
        split: if_splits)
  ultimately show ?case by blast
qed

section \<open>The first process\<close>

definition clear_delays :: "nat set \<Rightarrow> (sem \<Rightarrow> int32) \<Rightarrow> sem \<Rightarrow> int32" where
  "clear_delays is s v = (case v of D_sem i \<Rightarrow> if i \<in> is then 0 else s v | _ \<Rightarrow> s v)"

lemma clear_delays_step:
  "clear_delays {} s = s" "clear_delays is (s(D_sem i := 0)) = clear_delays (insert i is) s"
  by (auto simp: clear_delays_def fun_eq_iff split: sem.split)

lemma solo_terminals:
  "solo (pfor is (\<lambda>i. pseq (puts (D_sem i) 0) (modv (terminal_tables L i)))) e m =
    (Done (), e, m\<lparr>sems := clear_delays (set is) (sems m), vars := fold (terminal_tables L) is (vars m)\<rparr>)"
  by (induction "is" arbitrary: m) (simp_all add: solo_pbind clear_delays_step)

definition p1_tables :: "linked \<Rightarrow> sup \<Rightarrow> sup" where
  "p1_tables L g = fold (terminal_tables L) [0..<TER] (fold (p1a_page L) [0..<256]
     ((init_vars L g)\<lparr>p1a_seg_table := (\<lambda>i. if i = 0 then all_seg0 P1a_pt (p1a_seg_table (init_vars L g) 0)
       else if i < 32 then (p1a_seg_table (init_vars L g) i)\<lparr>sd_p := 0\<rparr> else p1a_seg_table (init_vars L g) i)\<rparr>))"

definition p1_sems :: "(sem \<Rightarrow> int32) \<Rightarrow> sem \<Rightarrow> int32" where
  "p1_sems s = (clear_delays (set [0..<TER]) (init_sems s))(Cron_sem := 0, Sem_mm := 1)"

lemma p1a_page_mm: "mm (p1a_page L i g) = mm g" "pfs_arr (p1a_page L i g) = pfs_arr g" "pf_start (p1a_page L i g) = pf_start g"
  by (simp_all add: p1a_page_def set_page_table_entry_present_def upd_p1a_page_def)

lemma fold_p1a_page: "mm (fold (p1a_page L) is g) = mm g" "pfs_arr (fold (p1a_page L) is g) = pfs_arr g"
  "pf_start (fold (p1a_page L) is g) = pf_start g"
  by (rule fold_unchanged; simp add: p1a_page_mm)+

lemma p1_tables_simps:
  "pfs_arr (p1_tables L g) = pfs_arr (init_vars L g)"
  "pf_start (p1_tables L g) = end_bss L div PAGESIZE + 17"
  "i < TER \<Longrightarrow> useg (p1_tables L g) i j = user_seg i j (useg (init_vars L g) i j)"
  "i < TER \<Longrightarrow> privileged_seg (mm (p1_tables L g) i) j = super_seg i j (privileged_seg (mm (init_vars L g) i) j)"
  "i < TER \<Longrightarrow> j < 32 \<Longrightarrow> upage (p1_tables L g) i j = no_page (upage (init_vars L g) i j)"
proof -
  have "pfs_arr (fold (terminal_tables L) is g) = pfs_arr g" "pf_start (fold (terminal_tables L) is g) = pf_start g" for "is" g
    by (rule fold_unchanged; simp)+
  then show "pfs_arr (p1_tables L g) = pfs_arr (init_vars L g)" "pf_start (p1_tables L g) = end_bss L div PAGESIZE + 17"
    by (simp_all add: p1_tables_def fold_p1a_page init_frames_def del: upt_Suc)
qed (simp_all add: p1_tables_def all_tables fold_p1a_page del: upt_Suc)

lemma solo_p1:
  assumes "end_bss L div PAGESIZE \<le> 220" "2 \<le> room e"
  shows "\<exists>g e'. solo (p1 L) e m = (Loaded (sys_state L ''p1a'' (Scronstack g) P1a_st (self e)), e',
      m\<lparr>sems := (p1_sems (sems m))(Sem_pf := 15), vars := g\<lparr>p_alive := of_nat TER\<rparr>\<rparr>)
    \<and> boot_loaded TER (p1_tables L (vars m)) g
    \<and> born e' = born e @ daemon_states L (init_vars L (vars m)) (self e)"
proof -
  define m1 where "m1 = m\<lparr>sems := p1_sems (sems m), vars := p1_tables L (vars m)\<rparr>"
  define e' where "e' = e\<lparr>room := room e - 2, born := born e @ daemon_states L (init_vars L (vars m)) (self e)\<rparr>"
  have free: "free_frames (vars m1) = {0..<MAXFRAMES}"
    by (auto simp: free_frames_def m1_def p1_tables_simps cleared_frames)
  have "sems m1 Sem_pf = 20" "sems m1 Sem_mm = 1"
    by (simp_all add: m1_def p1_sems_def clear_delays_def init_sems_def clear_sems_def)
  from solo_load_boots [OF free _ this, of 5 e'] obtain g where
    g: "solo (pfor [0..<5] load_boot) e' m1 = (Done (), e', m1\<lparr>sems := (sems m1)(Sem_pf := of_nat (20 - 5)), vars := g\<rparr>)"
      "boot_loaded 5 (vars m1) g" by blast
  have r: "m1\<lparr>sems := (sems m1)(Sem_pf := of_nat (20 - 5)), vars := g\<rparr> = m\<lparr>sems := (p1_sems (sems m))(Sem_pf := 15), vars := g\<rparr>"
    by (rule umem.equality) (simp_all add: m1_def)
  have "solo (p1 L) e m = after_run (solo (pfor [0..<TER] load_boot) e' m1)
     (\<lambda>_. pseq (modv (\<lambda>g. g\<lparr>p_alive := of_nat TER\<rparr>)) (
     pbind (getv Scronstack) (\<lambda>sp.
     STST (\<lambda>st. LDST_state (sys_state L ''p1a'' sp P1a_st st)))))"
    unfolding p1_def
    by (simp add: solo_pbind solo_pageinit [OF assms] solo_pfor_modv solo_terminals del: upt_Suc sup_consts pfor.simps)
      (simp add: m1_def e'_def p1_tables_def p1_sems_def del: upt_Suc sup_consts cong: if_cong)
  then have "solo (p1 L) e m = (Loaded (sys_state L ''p1a'' (Scronstack g) P1a_st (self e)), e',
      m\<lparr>sems := (p1_sems (sems m))(Sem_pf := 15), vars := g\<lparr>p_alive := of_nat TER\<rparr>\<rparr>)"
    using g(1) r by (simp add: e'_def solo_pbind del: upt_Suc)
  then show ?thesis using g(2)
    by (intro exI [of _ g] exI [of _ e'] conjI) (simp_all add: m1_def e'_def)
qed

text \<open>C17: The first process sets the support level up and becomes \<open>p1a\<close>. Each of the five terminal processes gets
  segment tables in which user mode has exactly the private segment 1, with a page table of its own, and the
  shared segment 2, while segment 0, the system, is present in supervisor mode only; its page 31 is present in a page
  frame of its own that holds the boot code, all its other pages are absent, and \<open>sem_pf\<close> counts the fifteen
  frames that are left.
\<close>

theorem p1_starts:
  assumes "end_bss L div PAGESIZE \<le> 220" "2 \<le> room e"
  shows "\<exists>e' m'. solo (p1 L) e m = (Loaded (sys_state L ''p1a'' (Scronstack (vars m')) P1a_st (self e)), e', m')
    \<and> p_alive (vars m') = 5 \<and> sems m' Sem_mm = 1 \<and> sems m' Cron_sem = 0 \<and> pf_counted m'
    \<and> (\<forall>i < TER.
         (\<forall>j < 32. sd_p (unprivileged_seg (mm (vars m') i) j) = 1 \<longleftrightarrow> j = 1 \<or> j = 2)
       \<and> (\<forall>j < 32. sd_p (privileged_seg (mm (vars m') i) j) = 1 \<longleftrightarrow> j = 0 \<or> j = 1 \<or> j = 2)
       \<and> sd_pta (unprivileged_seg (mm (vars m') i) 1) = Unprivileged_pt i
       \<and> sd_pta (unprivileged_seg (mm (vars m') i) 2) = Shared_pt
       \<and> (\<forall>j < 32. pd_p (unprivileged_seg_page_table (mm (vars m') i) j) = 1 \<longleftrightarrow> j = 31)
       \<and> pd_frame (unprivileged_seg_page_table (mm (vars m') i) 31) = of_int (pf_start (vars m') + int i)
       \<and> (\<forall>j < 11. frames (vars m') (pf_start (vars m') + int i) j = boot_code ! j))"
proof -
  from solo_p1 [OF assms] obtain g e' where
    run: "solo (p1 L) e m = (Loaded (sys_state L ''p1a'' (Scronstack g) P1a_st (self e)), e',
      m\<lparr>sems := (p1_sems (sems m))(Sem_pf := 15), vars := g\<lparr>p_alive := of_nat TER\<rparr>\<rparr>)"
    and b: "boot_loaded TER (p1_tables L (vars m)) g" by blast
  define m' where "m' = m\<lparr>sems := (p1_sems (sems m))(Sem_pf := 15), vars := g\<lparr>p_alive := of_nat TER\<rparr>\<rparr>"
  have f: "p_alive (vars m') = 5" "sems m' Sem_mm = 1" "sems m' Cron_sem = 0"
    by (simp_all add: m'_def p1_sems_def)
  have "free_frames (vars m') = {5..<20}" using b by (auto simp: boot_loaded_def m'_def free_frames_def)
  then have c: "pf_counted m'" by (simp add: pf_counted_def m'_def)
  have t: "(\<forall>j < 32. sd_p (useg (vars m') i j) = 1 \<longleftrightarrow> j = 1 \<or> j = 2)"
    "(\<forall>j < 32. sd_p (privileged_seg (mm (vars m') i) j) = 1 \<longleftrightarrow> j = 0 \<or> j = 1 \<or> j = 2)"
    "sd_pta (useg (vars m') i 1) = Unprivileged_pt i" "sd_pta (useg (vars m') i 2) = Shared_pt"
    "(\<forall>j < 32. pd_p (upage (vars m') i j) = 1 \<longleftrightarrow> j = 31)"
    "pd_frame (upage (vars m') i 31) = of_int (pf_start (vars m') + int i)"
    "(\<forall>j < 11. frames (vars m') (pf_start (vars m') + int i) j = boot_code ! j)" if "i < TER" for i
    using b that
    by (auto simp: m'_def boot_loaded_def p1_tables_simps user_seg_def super_seg_def no_page_def)
  have "Scronstack (vars m') = Scronstack g" by (simp add: m'_def)
  with run have run': "solo (p1 L) e m = (Loaded (sys_state L ''p1a'' (Scronstack (vars m')) P1a_st (self e)), e', m')"
    by (simp add: m'_def)
  have all: "\<forall>i < TER.
         (\<forall>j < 32. sd_p (useg (vars m') i j) = 1 \<longleftrightarrow> j = 1 \<or> j = 2)
       \<and> (\<forall>j < 32. sd_p (privileged_seg (mm (vars m') i) j) = 1 \<longleftrightarrow> j = 0 \<or> j = 1 \<or> j = 2)
       \<and> sd_pta (useg (vars m') i 1) = Unprivileged_pt i \<and> sd_pta (useg (vars m') i 2) = Shared_pt
       \<and> (\<forall>j < 32. pd_p (upage (vars m') i j) = 1 \<longleftrightarrow> j = 31)
       \<and> pd_frame (upage (vars m') i 31) = of_int (pf_start (vars m') + int i)
       \<and> (\<forall>j < 11. frames (vars m') (pf_start (vars m') + int i) j = boot_code ! j)"
    using t by blast
  from run' f c all show ?thesis
    by (rule_tac exI [of _ e'], rule_tac exI [of _ m'], intro conjI)
qed

theorem p1_starts_witness:
  "\<exists>e' m'. solo (p1 linked0) world0 mem0 = (Loaded (sys_state linked0 ''p1a'' (Scronstack (vars m')) P1a_st some_state), e', m')
    \<and> sd_p (unprivileged_seg (mm (vars m') 4) 0) \<noteq> 1"
proof -
  have "end_bss linked0 div PAGESIZE \<le> 220" "2 \<le> room world0" "self world0 = some_state" by (simp_all add: linked0_def world0_def)
  with p1_starts [of linked0 world0 mem0] show ?thesis by fastforce
qed

end
