(* ===== verification/Slcalls_Properties.thy ===== *)
theory Slcalls_Properties
  imports Support Daemon_Properties
begin

text \<open>
  Properties of the support level's system calls (\<open>src/support/part1/slsyscall1.c\<close>,
  \<open>src/support/part2/slsyscall2.c\<close>) and of the cron loop that ends delays.
\<close>

unbundle bit_operations_syntax

section \<open>Copying\<close>





lemma set_reg_simps [simp]:
  "s_r (set_reg i v st) = (s_r st)(i := v)" "s_sr (set_reg i v st) = s_sr st"
  "s_tmp (set_reg i v st) = s_tmp st" "s_crp (set_reg i v st) = s_crp st"
  by (simp_all add: set_reg_def)

lemma solo_set_r2 [simp]:
  "solo (set_r2 old v) e m = (Done (), e, m\<lparr>areas := (areas m)(old := set_reg 2 v (areas m old))\<rparr>)"
  by (simp add: set_r2_def)

section \<open>Terminals\<close>







section \<open>Delay\<close>

text \<open>C26: A delay lasts at least as long as asked. \<open>Delay\<close> notes the time asked for and the clock, and the caller blocks
  on its semaphore after the cron process has been woken; cron ends the delay at the first round in which more
  than the time asked for has passed since, and leaves it alone before.
\<close>

theorem delay_served:
  assumes "s_r (areas m old) 4 = t" "now e = [t0, t1]" "sems m (D_sem num) = 0"
  shows "\<exists>e1 m1 m2. solo (Delay old num) e m = (Blocks (Return ()), e1, m1)
    \<and> sems m1 = (sems m)(D_sem num := - 1, Cron_sem := sems m Cron_sem + 1)
    \<and> solo (cron_wake num) e1 m1 = (Done (), e1\<lparr>now := []\<rparr>, m2) \<and> vars m2 = vars m1
    \<and> sems m2 (D_sem num) = (if sint t < sint (t1 - t0) then 0 else - 1)"
  using assms by (simp add: Delay_def cron_wake_def solo_pbind)

theorem delay_served_witness:
  "\<exists>e1 m1 m2. solo (Delay (Sys_old 1) 1) (world0\<lparr>now := [100, 700]\<rparr>) (mem0\<lparr>areas := (\<lambda>_. set_reg 4 500 some_state)\<rparr>) =
      (Blocks (Return ()), e1, m1) \<and> solo (cron_wake 1) e1 m1 = (Done (), e1\<lparr>now := []\<rparr>, m2) \<and> sems m2 (D_sem 1) = 0"
  using delay_served [of "mem0\<lparr>areas := (\<lambda>_. set_reg 4 500 some_state)\<rparr>" "Sys_old 1" 500 "world0\<lparr>now := [100, 700]\<rparr>" 100 700 1]
  by (auto simp: samples)

section \<open>Termination\<close>



section \<open>Virtual semaphores\<close>

text \<open>C21: P and V on a virtual semaphore undo each other. A P on an integer of the shared segment that is not positive
  subtracts one, takes the first unused entry of \<open>vs_arr\<close> for the address and blocks the caller on that entry's
  semaphore; the next V on the same address adds one, wakes exactly that caller and frees the entry, so that the
  integer, the table and all semaphores are as before.
\<close>

theorem virtual_semaphore:
  assumes "s_r (areas m old) 4 = a" "s_r (areas m old') 4 = a" "SEG2 L \<le> a" "a \<noteq> 0"
    and "sint (shared_int (vars m) a) \<le> 0" "- (2 ^ 31) < sint (shared_int (vars m) a)"
    and "vs_find 0 (vars m) = Some i" "vs_find a (vars m) = None" "sems m (Vs_sem i) = 0" "sems m Protected_sem = 1"
  shows "\<exists>m1. solo (P_Virtual_Semaphore L old num) e m = (Blocks (Return ()), e, m1)
    \<and> sems m1 = (sems m)(Vs_sem i := - 1) \<and> shared_int (vars m1) a = shared_int (vars m) a - 1
    \<and> solo (V_Virtual_Semaphore L old' num') e m1 = (Done (), e, m)"
proof -
  let ?v = "shared_int (vars m) a"
  define g1 where "g1 = add_shared a (- 1) (upd_vs i a (vars m))"
  define m1 where "m1 = m\<lparr>sems := (sems m)(Vs_sem i := - 1), vars := g1\<rparr>"
  have i: "i < MAXPROC" "vs_addr (vs_arr (vars m) i) = 0" using assms(7) by (auto simp: vs_find_def find_upt)
  have dec: "sint (?v - 1) = sint ?v - 1" using assms(6) by (rule sint_dec32)
  have r1: "solo (P_Virtual_Semaphore L old num) e m = (Blocks (Return ()), e, m1)"
    using assms
    by (simp add: P_Virtual_Semaphore_def solo_pbind P_def m1_def g1_def Let_def)
       (auto simp: fun_eq_iff intro!: umem.equality)
  have vf: "vs_find a g1 = Some i"
    using assms(8) i by (auto simp: vs_find_def find_upt find_upt_None g1_def add_shared_def upd_vs_def)
  have restored: "add_shared a 1 (upd_vs i 0 g1) = vars m"
    using i(2) by (simp add: g1_def add_shared_def upd_vs_def fun_upd_idem)
  have "solo (V_Virtual_Semaphore L old' num') e m1 = (Done (), e, m)"
    using assms(2,3,5,9,10) dec vf restored
    by (simp add: V_Virtual_Semaphore_def solo_pbind P_def m1_def Let_def)
       (auto simp: fun_eq_iff g1_def add_shared_def upd_vs_def intro!: umem.equality)
  with r1 show ?thesis by (intro exI [of _ m1]) (simp add: m1_def g1_def add_shared_def upd_vs_def)
qed

theorem virtual_semaphore_witness:
  "\<exists>m1. solo (P_Virtual_Semaphore linked0 (Sys_old 2) 2) world0 (mem0\<lparr>areas := (\<lambda>_. set_reg 4 0x100010 some_state)\<rparr>) = (Blocks (Return ()), world0, m1)
    \<and> solo (V_Virtual_Semaphore linked0 (Sys_old 3) 3) world0 m1 = (Done (), world0, mem0\<lparr>areas := (\<lambda>_. set_reg 4 0x100010 some_state)\<rparr>)"
  using virtual_semaphore [of "mem0\<lparr>areas := (\<lambda>_. set_reg 4 0x100010 some_state)\<rparr>" "Sys_old 2" "0x100010" "Sys_old 3" linked0 0 2 world0 3]
  by (auto simp: samples vs_find_def find_upt find_upt_None)

text \<open>
  With all twenty entries in use, P returns to its caller without waiting and without giving
  \<open>protected_sem\<close> back, so that the next P or V on any virtual semaphore blocks.
\<close>

lemma virtual_semaphores_full:
  assumes "s_r (areas m old) 4 = a" "SEG2 L \<le> a" "sint (shared_int (vars m) a) \<le> 0"
    and "vs_find 0 (vars m) = None" "sems m Protected_sem = 1"
  shows "\<exists>m1 p m2. solo (P_Virtual_Semaphore L old num) e m = (Done (), e, m1) \<and> vars m1 = vars m
    \<and> sems m1 Protected_sem = 0 \<and> solo (V_Virtual_Semaphore L old' num') e m1 = (Blocks p, e, m2)"
  using assms
  by (simp add: P_Virtual_Semaphore_def V_Virtual_Semaphore_def solo_pbind P_def Let_def)

section \<open>The disk\<close>

definition candidates :: "nat list \<Rightarrow> (nat \<Rightarrow> bool) \<Rightarrow> (nat \<Rightarrow> int32) \<Rightarrow> int \<Rightarrow> nat set" where
  "candidates is w d n = {i \<in> set is. w i \<and> 0 \<le> sint (d i) \<and> sint (d i) < n}"

lemma candidates_Cons:
  "candidates (k # ks) w d n = (if w k \<and> 0 \<le> sint (d k) \<and> sint (d k) < n then insert k (candidates ks w d n) else candidates ks w d n)"
  by (auto simp: candidates_def)

lemma nearest_none: "candidates is w d (sint least) = {} \<Longrightarrow> nearest is w d least rv = rv"
  by (induction "is" arbitrary: least rv) (auto simp: candidates_Cons split: if_splits)

lemma nearest_some:
  assumes "sorted_wrt (<) is" "candidates is w d (sint least) \<noteq> {}"
  shows "\<exists>i \<in> candidates is w d (sint least). nearest is w d least rv = int i
    \<and> (\<forall>j \<in> candidates is w d (sint least). sint (d i) < sint (d j) \<or> sint (d i) = sint (d j) \<and> i \<le> j)"
  using assms
proof (induction "is" arbitrary: least rv)
  case (Cons k ks)
  show ?case
  proof (cases "w k \<and> 0 \<le> sint (d k) \<and> sint (d k) < sint least")
    case True
    have sub: "j \<in> candidates ks w d (sint (d k)) \<longleftrightarrow> j \<in> candidates ks w d (sint least) \<and> sint (d j) < sint (d k)" for j
      using True by (auto simp: candidates_def)
    have after: "k < j" if "j \<in> candidates ks w d n" for j n
      using that Cons.prems(1) by (auto simp: candidates_def)
    show ?thesis
    proof (cases "candidates ks w d (sint (d k)) = {}")
      case empty: True
      have "sint (d k) < sint (d j) \<or> sint (d k) = sint (d j) \<and> k \<le> j" if "j \<in> candidates ks w d (sint least)" for j
        using that empty sub [of j] after [OF that] by force
      with True nearest_none [OF empty, of "int k"] show ?thesis
        by (intro bexI [of _ k]) (auto simp: candidates_Cons)
    next
      case False
      with Cons obtain i where i: "i \<in> candidates ks w d (sint (d k))" "nearest ks w d (d k) (int k) = int i"
        "\<forall>j \<in> candidates ks w d (sint (d k)). sint (d i) < sint (d j) \<or> sint (d i) = sint (d j) \<and> i \<le> j"
        by fastforce
      have "sint (d i) < sint (d j) \<or> sint (d i) = sint (d j) \<and> i \<le> j" if "j \<in> candidates ks w d (sint least)" for j
        using that i(1,3) sub [of j] sub [of i] by fastforce
      with True i sub [of i] show ?thesis by (intro bexI [of _ i]) (auto simp: candidates_Cons)
    qed
  next
    case False
    then have "candidates (k # ks) w d (sint least) = candidates ks w d (sint least)"
      "nearest (k # ks) w d least rv = nearest ks w d least rv"
      by (auto simp: candidates_Cons)
    with Cons show ?thesis by simp
  qed
qed (simp add: candidates_def)

text \<open>The requests the daemon can serve without turning back: waiting, ahead, less than 10000 sectors away.\<close>

definition ahead :: "(sem, area, sup) umem \<Rightarrow> int32 \<Rightarrow> int32 \<Rightarrow> nat \<Rightarrow> nat set" where
  "ahead m track sector dir = candidates [0..<MAXPROC] (\<lambda>i. sems m (Ds_sem i) = - 1)
     (\<lambda>i. distance track sector dir (ds_arr (vars m) i)) 10000"

lemma solo_tasker_helper:
  "\<exists>r. solo (tasker_helper track sector dir) e m = (Done r, e, m)
    \<and> (if ahead m track sector dir = {} then r = - 1
       else \<exists>i \<in> ahead m track sector dir. r = int i
         \<and> (\<forall>j \<in> ahead m track sector dir.
              sint (distance track sector dir (ds_arr (vars m) i)) < sint (distance track sector dir (ds_arr (vars m) j))
            \<or> sint (distance track sector dir (ds_arr (vars m) i)) = sint (distance track sector dir (ds_arr (vars m) j)) \<and> i \<le> j))"
proof -
  let ?w = "\<lambda>i. sems m (Ds_sem i) = - 1" and ?d = "\<lambda>i. distance track sector dir (ds_arr (vars m) i)"
  have a: "ahead m track sector dir = candidates [0..<MAXPROC] ?w ?d (sint (10000 :: int32))" by (simp add: ahead_def)
  have "solo (tasker_helper track sector dir) e m = (Done (nearest [0..<MAXPROC] ?w ?d 10000 (- 1)), e, m)"
    by (simp add: tasker_helper_def del: upt_Suc const_defs)
  then show ?thesis unfolding a
    using nearest_none [of "[0..<MAXPROC]" ?w ?d 10000 "- 1"]
      nearest_some [of "[0..<MAXPROC]" ?w ?d 10000 "- 1", OF sorted_wrt_upt]
    by (cases "candidates [0..<MAXPROC] ?w ?d (sint (10000 :: int32)) = {}") (auto simp del: upt_Suc const_defs)
qed

text \<open>C22: The disk daemon's elevator serves the nearest request ahead of the head. \<open>tasker_helper\<close> returns, among the
  processes that wait for the disk and whose sector is not behind the head in the direction of travel and less than 10000
  sectors away, the one with the smallest distance, the first of them when several are equally near, and -1 when there is none.
\<close>

theorem nearest_request:
  "\<exists>r. solo (tasker_helper track sector dir) e m = (Done r, e, m)
    \<and> (if ahead m track sector dir = {} then r = - 1
       else \<exists>i \<in> ahead m track sector dir. r = int i
         \<and> (\<forall>j \<in> ahead m track sector dir.
              sint (distance track sector dir (ds_arr (vars m) i)) < sint (distance track sector dir (ds_arr (vars m) j))
            \<or> sint (distance track sector dir (ds_arr (vars m) i)) = sint (distance track sector dir (ds_arr (vars m) j)) \<and> i \<le> j))"
  by (rule solo_tasker_helper)

theorem nearest_request_witness:
  "\<exists>r. solo (tasker_helper 0 0 0) world0 mem0 = (Done r, world0, mem0) \<and> r = - 1"
proof -
  have "ahead mem0 0 0 0 = {}" by (auto simp: ahead_def candidates_def samples)
  with nearest_request [of 0 0 0 world0 mem0] show ?thesis by auto
qed











end
