(* ===== verification/Handler_Properties.thy ===== *)
theory Handler_Properties
  imports Slcalls_Properties
begin

text \<open>
  Properties of the terminal processes and their trap handlers (\<open>src/support/part1/support.c\<close>):
  how a terminal process enters user mode, what a page fault does, and that a page the
  daemon has thrown out comes back with its contents.
\<close>

unbundle bit_operations_syntax

section \<open>Page faults\<close>

definition entered :: "nat \<Rightarrow> int \<Rightarrow> nat \<Rightarrow> int \<Rightarrow> sup \<Rightarrow> sup" where
  "entered num sg page f g =
     upd_page_desc num sg page (\<lambda>d. d\<lparr>pd_p := 1\<rparr>) (upd_page_desc num sg page (\<lambda>d. d\<lparr>pd_frame := of_int f\<rparr>) g)"

text \<open>The part of \<open>slmmhandler\<close> after \<open>getfreeframe\<close>, for a page that was on the floppy disk.\<close>

lemma solo_enter_page:
  assumes "page < 32" "1 \<le> sint (sems m Sem_mm)"
    and "solo (getfreeframe (int num) (int page) sg) e m = (Done (pf_start (vars m1) + int j), e, m1)"
    and "sems m1 Sem_mm = sems m Sem_mm"
    and "pd_r (page_desc num sg page (vars m1)) = 0 \<Longrightarrow>
      solo (pagein num page sg (pf_start (vars m1) + int j)) e m1 = (Done (), e, m2)"
    and "pd_r (page_desc num sg page (vars m1)) \<noteq> 0 \<Longrightarrow> m2 = m1" "sems m2 = sems m1"
  shows "solo (enter_page num sg page) e m =
    (Done (), e, m2\<lparr>vars := entered num sg page (pf_start (vars m1) + int j) (vars m2)\<rparr>)"
proof -
  let ?f = "pf_start (vars m1) + int j"
  have in_: "solo (if pd_r (page_desc num sg page (vars m1)) = 0 then pagein num page sg ?f else Return ()) e m1 = (Done (), e, m2)"
    using assms(5,6) by simp
  have s: "sint (sems m2 Sem_mm - 1) = sint (sems m2 Sem_mm) - 1" "1 \<le> sint (sems m2 Sem_mm)"
    using pos_dec [OF assms(2)] assms(2,4,7) by simp_all
  have "solo (enter_page num sg page) e m = after_run (solo (if pd_r (page_desc num sg page (vars m1)) = 0 then pagein num page sg ?f else Return ()) e m1)
     (\<lambda>_. SYS3 [(LOCK, Sem_mm)] (
     pseq (modv (upd_page_desc num sg page (\<lambda>d. d\<lparr>pd_frame := of_int ?f\<rparr>))) (
     pseq (modv (upd_page_desc num sg page (\<lambda>d. d\<lparr>pd_p := 1\<rparr>))) (
     SYS3 [(UNLOCK, Sem_mm)] (Return ())))))"
    unfolding enter_page_def using assms(1,3) by (simp add: solo_pbind)
  also have "\<dots> = (Done (), e, m2\<lparr>vars := entered num sg page ?f (vars m2)\<rparr>)"
    unfolding in_ using s by (simp add: solo_pbind entered_def)
  finally show ?thesis .
qed

text \<open>The memory trap handler on a missing page of the private or the shared segment.\<close>

lemma solo_slmmhandler:
  assumes "num < TER" "s_r (self e) 4 = of_nat num" "st = areas m (Mm_old num)"
    and "unat (mm_pg (s_tmp st)) = page" "int (unat (mm_seg (s_tmp st))) = sg" "sg = 1 \<or> sg = 2"
    and "sd_p (privileged_seg (mm (vars m) num) (nat sg)) = 1"
    and "solo (enter_page num sg page) e m = (Done (), e, m')" "areas m' = areas m"
  shows "solo slmmhandler e m = (Loaded st, e, m')"
proof -
  have n: "unat (of_nat num :: int32) = num" using assms(1) by (simp add: unat_of_nat take_bit_nat_eq_self)
  have g: "unat (mm_seg (s_tmp st)) = nat sg" using assms(5) by auto
  from assms(6) show ?thesis
  proof
    assume "sg = 1"
    then show ?thesis using assms g n by (simp add: slmmhandler_def solo_pbind Let_def)
  next
    assume "sg = 2"
    then show ?thesis using assms g n by (simp add: slmmhandler_def solo_pbind Let_def)
  qed
qed

lemma entered_simps:
  "sg = 1 \<or> sg = 2 \<Longrightarrow> page_desc num sg page (entered num sg page f g) = (page_desc num sg page g)\<lparr>pd_p := 1, pd_frame := of_int f\<rparr>"
  "frames (entered num sg page f g) = frames g" "pfs_arr (entered num sg page f g) = pfs_arr g"
  by (auto simp: entered_def)

lemma thrown_out_privileged:
  "privileged_seg (mm (thrown_out i num sg page k g) n) = privileged_seg (mm g n)"
  by (simp add: thrown_out_def upd_frame_def transfer_def upd_page_desc_def upd_upage_def upd_mm_def upd_spage_def
      keep_sector_def use_sector_def)

lemma brought_in_frames:
  "pfs_arr (brought_in j num sg page k g) = (pfs_arr g)(j := (pfs_arr g j)\<lparr>pf_track := int (k div 8), pf_sector := int (k mod 8)\<rparr>)"
  by (simp add: brought_in_def) (simp add: upd_frame_def transfer_def)

text \<open>A page brought back for terminal process \<open>num\<close>, from the sector it was thrown out to.\<close>

lemma page_comes_back:
  assumes "pf_counted m" "1 \<le> sint (sems m Sem_pf)" "1 \<le> sint (sems m Sem_mm)" "1 \<le> sint (sems m Sem_floppy)"
    and "floppy_works e" "sg = 1 \<or> sg = 2" "page < 32" "k < 800"
    and "sg = 2 \<Longrightarrow> shared_frame (int page) sg (vars m) = None"
    and "pd_r (page_desc num sg page (vars m)) = 0" "pd_frame (page_desc num sg page (vars m)) = of_nat k"
    and "0 \<le> pf_start (vars m)" "pf_start (vars m) < 900"
  shows "\<exists>j m'. solo (enter_page num sg page) e m = (Done (), e, m') \<and> areas m' = areas m
    \<and> pd_p (page_desc num sg page (vars m')) = 1 \<and> pd_frame (page_desc num sg page (vars m')) = of_int (pf_start (vars m) + int j)
    \<and> frames (vars m') (pf_start (vars m) + int j) = floppy (vars m) (int (k div 8)) (int (k mod 8))
    \<and> j \<in> free_frames (vars m) \<and> pf_counted m'"
proof -
  have "free_frames (vars m) \<noteq> {}" using assms(1,2) by (auto simp: pf_counted_def)
  then obtain j where j: "free_frame (vars m) = Some j" "j \<in> free_frames (vars m)" by (rule free_frame_exists)
  define f :: page_frame_scheduler where "f = \<lparr>pf_pid = int num, pf_seg = sg, pf_page = int page, pf_track = - 1, pf_sector = - 1\<rparr>"
  define m1 where "m1 = m\<lparr>sems := frame_taken (sems m), vars := upd_frame j (\<lambda>_. f) (vars m)\<rparr>"
  have f0: "0 \<le> pf_pid f" by (simp add: f_def)
  have c1: "pf_counted m1" by (rule frame_taken_counted(2) [OF assms(1,2) j(2) f0 m1_def])
  have v: "pf_start (vars m1) = pf_start (vars m)" "page_desc num sg page (vars m1) = page_desc num sg page (vars m)"
    "floppy (vars m1) = floppy (vars m)" "sems m1 Sem_mm = sems m Sem_mm" "sems m1 Sem_floppy = sems m Sem_floppy"
    by (simp_all add: m1_def upd_frame_def page_desc_def frame_taken_def Let_def)
  have get: "solo (getfreeframe (int num) (int page) sg) e m = (Done (pf_start (vars m1) + int j), e, m1)"
    using solo_getfreeframe [OF assms(2,3,9) j(1), of "int num" e] by (simp add: m1_def f_def v(1) upd_frame_def)
  have j20: "j < MAXFRAMES" using j(2) by (simp add: free_frames_def)
  define m2 where "m2 = m1\<lparr>vars := brought_in j num sg page k (vars m1)\<rparr>"
  have bring: "solo (pagein num page sg (pf_start (vars m1) + int j)) e m1 = (Done (), e, m2)"
    unfolding m2_def using assms v j20 by (intro solo_pagein) simp_all
  define m' where "m' = m2\<lparr>vars := entered num sg page (pf_start (vars m1) + int j) (vars m2)\<rparr>"
  have run: "solo (enter_page num sg page) e m = (Done (), e, m')"
    unfolding m'_def by (rule solo_enter_page [OF assms(7,3) get v(4) bring]) (use assms(10) v in \<open>simp_all add: m2_def\<close>)
  have fr: "frames (vars m') (pf_start (vars m) + int j) = floppy (vars m) (int (k div 8)) (int (k mod 8))"
    using brought_in_simps(1) [of j num sg page k "vars m1"] by (simp add: m'_def m2_def entered_simps v)
  have "free_frames (vars m') = free_frames (vars m1)"
    by (auto simp: free_frames_def m'_def m2_def entered_simps brought_in_frames split: if_splits)
  then have c: "pf_counted m'" using c1 by (simp add: pf_counted_def m'_def m2_def)
  have "areas m' = areas m" "pd_p (page_desc num sg page (vars m')) = 1"
    "pd_frame (page_desc num sg page (vars m')) = of_int (pf_start (vars m) + int j)"
    using assms(6) v(1) by (simp_all add: m'_def m2_def m1_def entered_simps)
  then show ?thesis using run fr c j(2) by blast
qed

text \<open>C16: A page that has been thrown out comes back. When the paging daemon throws a page out and its process touches it
  again, the memory trap handler allots a free frame, reads the page from the sector it was written to, and resumes the
  process with the page present: the frame holds exactly what the old frame held, and \<open>sem_pf\<close> still counts the free
  frames.
\<close>

theorem page_returns:
  assumes "holds_page (vars m) i num sg page" "pd_r (page_desc num sg page (vars m)) = 0" "page < 32" "num < TER"
    and "sg = 2 \<Longrightarrow> \<forall>j < MAXFRAMES. j \<noteq> i \<longrightarrow> pf_pid (pfs_arr (vars m) j) = - 1 \<or> pf_page (pfs_arr (vars m) j) \<noteq> int page \<or> pf_seg (pfs_arr (vars m) j) \<noteq> 2"
    and "target (vars m) i k" "0 \<le> pf_start (vars m)" "pf_start (vars m) < 900" "pf_counted m"
    and "1 \<le> sint (sems m Sem_mm)" "1 \<le> sint (sems m Sem_floppy)" "floppy_works e"
    and "s_r (self e) 4 = of_nat num" "st = areas m (Mm_old num)" "sd_p (privileged_seg (mm (vars m) num) (nat sg)) = 1"
    and "unat (mm_pg (s_tmp st)) = page" "int (unat (mm_seg (s_tmp st))) = sg"
  shows "\<exists>m1 m2 j. solo (daemon_frame i) e m = (Done (), e, m1) \<and> pd_p (page_desc num sg page (vars m1)) = 0
    \<and> solo slmmhandler e m1 = (Loaded st, e, m2) \<and> pd_p (page_desc num sg page (vars m2)) = 1
    \<and> pd_frame (page_desc num sg page (vars m2)) = of_int (pf_start (vars m) + int j) \<and> j < MAXFRAMES
    \<and> frames (vars m2) (pf_start (vars m) + int j) = frames (vars m) (pf_start (vars m) + int i) \<and> pf_counted m2"
proof -
  have sg: "sg = 1 \<or> sg = 2" and i: "i < MAXFRAMES" "i \<notin> free_frames (vars m)"
    using assms(1) by (auto simp: holds_page_def free_frames_def)
  define m1 where "m1 = m\<lparr>sems := (sems m)(Sem_pf := sems m Sem_pf + 1), vars := thrown_out i num sg page k (vars m)\<rparr>"
  have v1: "vars m1 = thrown_out i num sg page k (vars m)" "areas m1 = areas m" "sems m1 Sem_mm = sems m Sem_mm"
    "sems m1 Sem_floppy = sems m Sem_floppy" by (simp_all add: m1_def)
  have out: "solo (daemon_frame i) e m = (Done (), e, m1)"
    using solo_daemon_frame_out [OF assms(1,2,10,12,11,6,7,8)] by (simp add: m1_def)
  have d1: "page_desc num sg page (vars m1) = (page_desc num sg page (vars m))\<lparr>pd_p := 0, pd_frame := of_nat k\<rparr>"
    unfolding v1 by (rule thrown_out_simps(2) [OF sg])
  have c1: "pf_counted m1" by (rule pf_counted_freed [OF assms(9) i]) (simp_all add: m1_def)
  have "i \<in> free_frames (vars m1)" using i(1) by (simp add: free_frames_def v1)
  then have "0 < card (free_frames (vars m1))" by (metis card_gt_0_iff empty_iff finite_free_frames)
  then have pf: "1 \<le> sint (sems m1 Sem_pf)" using c1 by (simp add: pf_counted_def)
  have sh: "shared_frame (int page) sg (vars m1) = None" if "sg = 2"
    using assms(5) [OF that] that by (auto simp: shared_frame_def find_upt_None v1)
  have k: "k < 800" using assms(6) by (simp add: target_def)
  have m: "1 \<le> sint (sems m1 Sem_mm)" "1 \<le> sint (sems m1 Sem_floppy)" using assms(10,11) v1 by simp_all
  have r0: "pd_r (page_desc num sg page (vars m1)) = 0" "pd_frame (page_desc num sg page (vars m1)) = of_nat k"
    using assms(2) d1 by simp_all
  have ps: "pf_start (vars m1) = pf_start (vars m)" by (simp add: v1)
  from page_comes_back [OF c1 pf m assms(12) sg assms(3) k sh r0] assms(7,8) ps obtain j m2 where
    j: "solo (enter_page num sg page) e m1 = (Done (), e, m2)" "areas m2 = areas m1" "pd_p (page_desc num sg page (vars m2)) = 1"
      "pd_frame (page_desc num sg page (vars m2)) = of_int (pf_start (vars m) + int j)"
      "frames (vars m2) (pf_start (vars m) + int j) = floppy (vars m1) (int (k div 8)) (int (k mod 8))"
      "j \<in> free_frames (vars m1)" "pf_counted m2" by auto
  have seg: "sd_p (privileged_seg (mm (vars m1) num) (nat sg)) = 1" using assms(15) by (simp add: v1 thrown_out_privileged)
  have st: "st = areas m1 (Mm_old num)" using assms(14) v1 by simp
  have run: "solo slmmhandler e m1 = (Loaded st, e, m2)"
    by (rule solo_slmmhandler [OF assms(4,13) st assms(16,17) sg seg j(1,2)])
  have "frames (vars m2) (pf_start (vars m) + int j) = frames (vars m) (pf_start (vars m) + int i)"
    unfolding j(5) v1 by (rule thrown_out_simps(3))
  moreover have "j < MAXFRAMES" using j(6) by (simp add: free_frames_def)
  moreover have "pd_p (page_desc num sg page (vars m1)) = 0" by (simp add: d1)
  ultimately show ?thesis using out run j(3,4,7) by blast
qed

definition fault_state :: state_t where
  "fault_state = some_state\<lparr>s_tmp := 1031\<rparr>"

definition out0 :: "(sem, area, sup) umem" where
  "out0 = mem0\<lparr>sems := sems0(Sem_pf := 19), areas := (\<lambda>_. fault_state),
     vars := upd_upage 2 7 (\<lambda>d. d\<lparr>pd_p := 1, pd_r := 0, pd_frame := 104\<rparr>)
       (upd_frame 4 (\<lambda>f. f\<lparr>pf_pid := 2, pf_seg := 1, pf_page := 7\<rparr>) sup0)\<rparr>"

lemma out0:
  "holds_page (vars out0) 4 2 1 7" "pd_r (page_desc 2 1 7 (vars out0)) = 0" "target (vars out0) 4 0"
  "pf_start (vars out0) = 100" "1 \<le> sint (sems out0 Sem_mm)" "1 \<le> sint (sems out0 Sem_floppy)"
  "sd_p (privileged_seg (mm (vars out0) 2) (nat 1)) = 1" "areas out0 (Mm_old 2) = fault_state"
  "pf_counted out0"
proof -
  have "free_frames (vars out0) = {0..<20} - {4}"
    by (auto simp: out0_def free_frames_def upd_frame_def upd_upage_def upd_mm_def sup0_def)
  then show "pf_counted out0" by (simp add: pf_counted_def out0_def)
qed (simp_all add: out0_def holds_page_def page_desc_def target_def sector_free_def
      upd_frame_def upd_upage_def upd_mm_def samples)

theorem page_returns_witness:
  "\<exists>m1 m2 j. solo (daemon_frame 4) (floppy0\<lparr>self := set_reg 4 2 some_state\<rparr>) out0 = (Done (), floppy0\<lparr>self := set_reg 4 2 some_state\<rparr>, m1)
    \<and> solo slmmhandler (floppy0\<lparr>self := set_reg 4 2 some_state\<rparr>) m1 = (Loaded fault_state, floppy0\<lparr>self := set_reg 4 2 some_state\<rparr>, m2)
    \<and> frames (vars m2) (100 + int j) = frames (vars out0) 104"
proof -
  let ?e = "floppy0\<lparr>self := set_reg 4 2 some_state\<rparr>"
  have "floppy_works ?e" "s_r (self ?e) 4 = of_nat 2"
    using floppy0 by (simp_all add: floppy_works_def)
  moreover have "unat (mm_pg (s_tmp fault_state)) = 7" "int (unat (mm_seg (s_tmp fault_state))) = 1"
    by (simp_all add: fault_state_def mm_pg_def mm_seg_def)
  ultimately show ?thesis
    using page_returns [OF out0(1,2) _ _ _ out0(3) _ _ out0(9,5,6) _ _ out0(8) [symmetric] out0(7), of ?e] out0(4)
    by auto
qed

section \<open>Terminal processes\<close>

text \<open>C28: A terminal process declares its three trap handlers, each with a new state that runs the handler on the terminal's
  own stack with the terminal's supervisor segment table and number, and then enters the boot code in user mode at
  page 31 of its private segment with its user segment table.
\<close>

theorem terminal_process_starts:
  assumes "num < TER" "s_r (self e) 4 = of_nat num"
  shows "\<exists>st e' m'. solo (tprocess L) e m = (Loaded st, e', m')
    \<and> declared e' = declared e @ [(0, Prog_old num, Prog_new num), (1, Mm_old num, Mm_new num), (2, Sys_old num, Sys_new num)]
    \<and> ps_s (s_sr st) = 0 \<and> s_r st 16 = 0x80000 + 31 * 512 \<and> s_r st 15 = 0x80000 + 32 * 512 - 2 \<and> s_crp st = segtab_at L (Unprivileged_st num)
    \<and> map (\<lambda>w. s_r (areas m' w) 16) [Prog_new num, Mm_new num, Sys_new num] = map (entry L) [''slproghandler'', ''slmmhandler'', ''slsyshandler'']
    \<and> map (\<lambda>w. s_r (areas m' w) 15) [Prog_new num, Mm_new num, Sys_new num] = map of_int [Tsysstack (vars m) num, Tmmstack (vars m) num, Tsysstack (vars m) num]
    \<and> (\<forall>w \<in> {Prog_new num, Mm_new num, Sys_new num}. s_r (areas m' w) 4 = of_nat num \<and> s_crp (areas m' w) = segtab_at L (Privileged_st num))"
proof -
  have "unat (of_nat num :: int32) = num" using assms(1) by (simp add: unat_of_nat take_bit_nat_eq_self)
  then show ?thesis using assms by (simp add: tprocess_def new_area_def solo_pbind Let_def)
qed

theorem terminal_process_starts_witness:
  "\<exists>st e' m'. solo (tprocess linked0) (world0\<lparr>self := set_reg 4 3 some_state\<rparr>) mem0 = (Loaded st, e', m') \<and> ps_s (s_sr st) = 0"
  using terminal_process_starts [of 3 "world0\<lparr>self := set_reg 4 3 some_state\<rparr>" linked0 mem0] by auto

text \<open>A call with a number that has no service changes nothing: the caller goes on after it.\<close>

lemma unknown_call_ignored:
  assumes "num < TER" "s_r (self e) 4 = of_nat num" "unat (sys_no (s_tmp (areas m (Sys_old num)))) \<notin> {9..17}"
  shows "solo (slsyshandler L) e m = (Loaded (areas m (Sys_old num)), e, m)"
proof -
  have "unat (of_nat num :: int32) = num" using assms(1) by (simp add: unat_of_nat take_bit_nat_eq_self)
  then show ?thesis using assms by (auto simp: slsyshandler_def solo_pbind Let_def)
qed

text \<open>A page number outside the tables, which the type of the trap would tell, is not checked.\<close>

lemma invalid_page_leaves_table:
  assumes "32 \<le> page" "solo (getfreeframe (int num) (int page) sg) e m = (Done f, e, m1)"
  shows "fst (solo (enter_page num sg page) e m) = Stuck"
  using assms by (simp add: enter_page_def solo_pbind)

end
