(* ===== verification/Queuetest.thy ===== *)
theory Queuetest
  imports Entries
begin

text \<open>
  The test programs of the queue modules, \<open>src/queues/p1test.c\<close> and \<open>src/queues/p1test2.c\<close>. A test is
  a tree of calls of the queue operations. It is run twice: on the linked structures of the
  modules, and on the abstract queues they represent, where a run is easy to evaluate; the two
  runs give the same messages.
\<close>

section \<open>Tests of the queue modules\<close>

datatype qprog =
    Finish
  | Init_Proc qprog
  | Init_Semd qprog
  | New_Queue qprog
  | Alloc "procptr \<Rightarrow> qprog"
  | Free procptr qprog
  | Insert procptr qprog
  | Head "procptr \<Rightarrow> qprog"
  | Out procptr "procptr \<Rightarrow> qprog"
  | Remove "procptr \<Rightarrow> qprog"
  | Insert_Blocked addr procptr "bool \<Rightarrow> qprog"
  | Remove_Blocked addr "procptr \<Rightarrow> qprog"
  | Head_Blocked addr "procptr \<Rightarrow> qprog"
  | Out_Blocked procptr "procptr \<Rightarrow> qprog"
  | Say string qprog
  | Complain string

text \<open>
  \<open>New_Queue\<close> makes the queue \<open>ql\<close> of the test empty; \<open>ql\<close> takes the place of the ready queue, which a
  test program does not have. \<open>Say\<close> is \<open>addokbuf\<close>, which appends to the 512 bytes of \<open>okbuf\<close>, and
  \<open>Complain\<close> is \<open>adderrbuf\<close>, which fills \<open>errbuf\<close> and stops the test.
\<close>

definition okbuf_size :: nat where "okbuf_size = 512"
definition errbuf_size :: nat where "errbuf_size = 128"

text \<open>A test ends with the error message or with the progress messages.\<close>

definition addokbuf :: "string \<Rightarrow> string \<Rightarrow> string kres" where
  "addokbuf sp ok = (if length (ok @ sp) + 1 > okbuf_size then Exit FAULT else Ok (ok @ sp))"

definition adderrbuf :: "string \<Rightarrow> (string + string) kres" where
  "adderrbuf sp = (if length sp + 1 > errbuf_size then Exit FAULT else Ok (Inl sp))"

primrec crun :: "qprog \<Rightarrow> string \<Rightarrow> kstate \<Rightarrow> (string + string) kres" where
  "crun Finish ok s = Ok (Inr ok)"
| "crun (Init_Proc k) ok s = crun k ok (initProc s)"
| "crun (Init_Semd k) ok s = crun k ok (initSemd s)"
| "crun (New_Queue k) ok s = crun k ok (s\<lparr>running_queue := null_link\<rparr>)"
| "crun (Alloc h) ok s = rbind (allocProc s) (\<lambda>(p, s). crun (h p) ok s)"
| "crun (Free p k) ok s = rbind (freeProc p s) (\<lambda>s. crun k ok s)"
| "crun (Insert p k) ok s = rbind (insertProc (running_queue s) p s) (\<lambda>(tp, s). crun k ok (s\<lparr>running_queue := tp\<rparr>))"
| "crun (Head h) ok s = rbind (headQueue (running_queue s) s) (\<lambda>p. crun (h p) ok s)"
| "crun (Out p h) ok s = rbind (outProc (running_queue s) p s) (\<lambda>(q, tp, s). crun (h q) ok (s\<lparr>running_queue := tp\<rparr>))"
| "crun (Remove h) ok s = rbind (removeProc (running_queue s) s) (\<lambda>(q, tp, s). crun (h q) ok (s\<lparr>running_queue := tp\<rparr>))"
| "crun (Insert_Blocked a p h) ok s = rbind (insertBlocked a p s) (\<lambda>(b, s). crun (h b) ok s)"
| "crun (Remove_Blocked a h) ok s = rbind (removeBlocked a s) (\<lambda>(p, s). crun (h p) ok s)"
| "crun (Head_Blocked a h) ok s = rbind (headBlocked a s) (\<lambda>p. crun (h p) ok s)"
| "crun (Out_Blocked p h) ok s = rbind (outBlocked p s) (\<lambda>(q, s). crun (h q) ok s)"
| "crun (Say sp k) ok s = rbind (addokbuf sp ok) (\<lambda>ok. crun k ok s)"
| "crun (Complain sp) ok s = adderrbuf sp"

section \<open>Runs on abstract queues\<close>

text \<open>
  The parts of the state become meaningful one after the other: nothing (0), the process entries
  after \<open>initProc\<close> (1), the queue \<open>ql\<close> (2), the semaphore list after \<open>initSemd\<close> (3). An operation that
  needs more than is there, or is used outside its contract, has no abstract run.
\<close>

definition on_queue :: "nat \<Rightarrow> bool" where "on_queue ph = (ph = 2 \<or> ph = 3)"

definition waits :: "aqueues \<Rightarrow> nat \<Rightarrow> bool" where
  "waits Q p = list_ex (\<lambda>(a, q). p \<in> set q) (blocked Q)"

primrec arun :: "qprog \<Rightarrow> string \<Rightarrow> nat \<Rightarrow> aqueues \<Rightarrow> (string + string) option" where
  "arun Finish ok ph Q = Some (Inr ok)"
| "arun (Init_Proc k) ok ph Q = (if ph = 0 then arun k ok 1 empty_queues else None)"
| "arun (Init_Semd k) ok ph Q = (if ph = 2 then arun k ok 3 Q else None)"
| "arun (New_Queue k) ok ph Q = (if ph = 1 then arun k ok 2 Q else None)"
| "arun (Alloc h) ok ph Q = (if ph = 0 then None else case unused Q of
     [] \<Rightarrow> arun (h None) ok ph Q | p # ps \<Rightarrow> arun (h (Some p)) ok ph (Q\<lparr>unused := ps\<rparr>))"
| "arun (Free p k) ok ph Q = (case p of None \<Rightarrow> None | Some p \<Rightarrow>
     if ph \<noteq> 0 \<and> p < 20 \<and> p \<notin> set (unused Q) \<and> occupied Q p = 0
     then arun k ok ph (Q\<lparr>unused := unused Q @ [p]\<rparr>) else None)"
| "arun (Insert p k) ok ph Q = (case p of None \<Rightarrow> None | Some p \<Rightarrow>
     if on_queue ph \<and> can_ready Q p
     then arun k ok ph (Q\<lparr>ready := ready Q @ [p]\<rparr>) else None)"
| "arun (Head h) ok ph Q = (if on_queue ph then arun (h (first_of (ready Q))) ok ph Q else None)"
| "arun (Out p h) ok ph Q = (case p of None \<Rightarrow> None | Some p \<Rightarrow>
     if \<not> on_queue ph then None
     else if p \<in> set (ready Q) then arun (h (Some p)) ok ph (Q\<lparr>ready := filter (\<lambda>r. r \<noteq> p) (ready Q)\<rparr>)
     else arun (h None) ok ph Q)"
| "arun (Remove h) ok ph Q = (if \<not> on_queue ph then None else case ready Q of
     [] \<Rightarrow> arun (h None) ok ph Q | p # ps \<Rightarrow> arun (h (Some p)) ok ph (Q\<lparr>ready := ps\<rparr>))"
| "arun (Insert_Blocked a p h) ok ph Q = (case p of None \<Rightarrow> None | Some p \<Rightarrow>
     if ph \<noteq> 3 then None
     else if asl_full Q a then arun (h True) ok ph Q
     else if can_block Q a p then arun (h False) ok ph (Q\<lparr>blocked := block a p (blocked Q)\<rparr>) else None)"
| "arun (Remove_Blocked a h) ok ph Q = (if ph \<noteq> 3 then None else case wait_of (blocked Q) a of
     [] \<Rightarrow> arun (h None) ok ph Q
   | p # ps \<Rightarrow> arun (h (Some p)) ok ph (Q\<lparr>blocked := leave (\<lambda>b r. b = a \<and> r = p) (blocked Q)\<rparr>))"
| "arun (Head_Blocked a h) ok ph Q = (if ph = 3 then arun (h (first_of (wait_of (blocked Q) a))) ok ph Q else None)"
| "arun (Out_Blocked p h) ok ph Q = (case p of None \<Rightarrow> None | Some p \<Rightarrow>
     if ph = 3 \<and> p < 20
     then arun (h (if waits Q p then Some p else None)) ok ph (Q\<lparr>blocked := leave (\<lambda>a r. r = p) (blocked Q)\<rparr>) else None)"
| "arun (Say sp k) ok ph Q = (case addokbuf sp ok of Ok ok \<Rightarrow> arun k ok ph Q | Exit e \<Rightarrow> None)"
| "arun (Complain sp) ok ph Q = (case adderrbuf sp of Ok r \<Rightarrow> Some r | Exit e \<Rightarrow> None)"

section \<open>Fields the process queues do not look at\<close>

text \<open>
  The operations on process entries and process queues depend only on the process table
  and the head of the free list, so they commute with any change of the other fields.
\<close>

locale other_fields =
  fixes g :: "kstate \<Rightarrow> kstate"
  assumes proc_table_g: "proc_table (g s) = proc_table s" and free_head_g: "free_head (g s) = free_head s"
    and g_proc_table: "g (s\<lparr>proc_table := t\<rparr>) = (g s)\<lparr>proc_table := t\<rparr>"
    and g_free_head: "g (s\<lparr>free_head := h\<rparr>) = (g s)\<lparr>free_head := h\<rparr>"
begin

lemma rd_g [simp]: "rd_proc (g s) p = rd_proc s p" "rd_link (g s) p i = rd_link s p i"
  by (simp_all add: rd_proc_def rd_link_def proc_table_g split: option.split)

lemma wr_g [simp]:
  "wr_proc (g s) p f = rbind (wr_proc s p f) (\<lambda>s. Ok (g s))"
  "wr_link (g s) p i l = rbind (wr_link s p i l) (\<lambda>s. Ok (g s))"
  by (simp_all add: wr_proc_def wr_link_def proc_table_g g_proc_table split: option.split)

lemma headQueue_g [simp]: "headQueue tp (g s) = headQueue tp s"
  by (simp add: headQueue_def)

lemma walk_g [simp]: "free_walk n (g s) w = free_walk n s w" "out_walk n tp p prev cur (g s) = out_walk n tp p prev cur s"
  by (induction n arbitrary: w prev cur) (simp_all cong: if_cong)

lemma allocProc_g: "allocProc (g s) = rbind (allocProc s) (\<lambda>(p, s). Ok (p, g s))"
  by (simp add: allocProc_def Let_def free_head_g rbind_assoc rbind_if g_free_head [symmetric] cong: if_cong)

lemma freeProc_g: "freeProc p (g s) = rbind (freeProc p s) (\<lambda>s. Ok (g s))"
  by (simp add: freeProc_def free_head_g rbind_assoc rbind_if g_free_head cong: if_cong)

lemma insertProc_g: "insertProc tp p (g s) = rbind (insertProc tp p s) (\<lambda>(tp, s). Ok (tp, g s))"
  by (simp add: insertProc_def Let_def rbind_assoc rbind_if panic_def split_def cong: if_cong)

lemma removeProc_g: "removeProc tp (g s) = rbind (removeProc tp s) (\<lambda>(q, tp, s). Ok (q, tp, g s))"
  by (simp add: removeProc_def rbind_assoc rbind_if split_def cong: if_cong)

lemma outProc_g: "outProc tp p (g s) = rbind (outProc tp p s) (\<lambda>(q, tp, s). Ok (q, tp, g s))"
  by (simp add: outProc_def out_unlink_def rbind_assoc rbind_if split_def cong: if_cong)

end

section \<open>The two runs agree\<close>

text \<open>What the state will be once the missing parts are set up.\<close>

definition ahead :: "nat \<Rightarrow> kstate \<Rightarrow> kstate" where
  "ahead ph s = (if ph = 3 then s else initSemd (if ph = 2 then s else s\<lparr>running_queue := null_link\<rparr>))"

definition stands_for :: "nat \<Rightarrow> kstate \<Rightarrow> aqueues \<Rightarrow> bool" where
  "stands_for ph s Q \<longleftrightarrow> ph = 0 \<or> repr (ahead ph s) Q"

lemma initSemd_fields:
  "proc_table (initSemd s) = proc_table s" "free_head (initSemd s) = free_head s" "running_queue (initSemd s) = running_queue s"
  "initSemd (s\<lparr>proc_table := t\<rparr>) = (initSemd s)\<lparr>proc_table := t\<rparr>"
  "initSemd (s\<lparr>free_head := h\<rparr>) = (initSemd s)\<lparr>free_head := h\<rparr>"
  "initSemd (s\<lparr>running_queue := l\<rparr>) = (initSemd s)\<lparr>running_queue := l\<rparr>"
  by (simp_all add: initSemd_def Let_def)

interpretation ahead: other_fields "ahead ph" for ph
  by unfold_locales (simp_all add: ahead_def initSemd_fields)

lemma ahead_queue: "on_queue ph \<Longrightarrow> running_queue (ahead ph s) = running_queue s"
  "on_queue ph \<Longrightarrow> ahead ph (s\<lparr>running_queue := l\<rparr>) = (ahead ph s)\<lparr>running_queue := l\<rparr>"
  by (auto simp: on_queue_def ahead_def initSemd_fields)

text \<open>From a result on the state ahead to one on the state itself.\<close>

lemma back_Ok:
  "rbind m (\<lambda>s. Ok (g s)) = Ok t \<Longrightarrow> \<exists>s'. m = Ok s' \<and> t = g s'"
  "rbind m2 (\<lambda>(x, s). Ok (x, g s)) = Ok (y, t) \<Longrightarrow> \<exists>s'. m2 = Ok (y, s') \<and> t = g s'"
  "rbind m3 (\<lambda>(x, l, s). Ok (x, l, g s)) = Ok (z, l', t) \<Longrightarrow> \<exists>s'. m3 = Ok (z, l', s') \<and> t = g s'"
  by (cases m, auto, cases m2, auto, cases m3, auto)

lemma queues_same: "unused Q = xs \<Longrightarrow> Q\<lparr>unused := xs\<rparr> = Q" "ready Q = xs \<Longrightarrow> Q\<lparr>ready := xs\<rparr> = Q" for Q :: aqueues
  by auto

lemma alloc_stands:
  assumes "stands_for ph s Q" "ph \<noteq> 0"
  shows "\<exists>s'. allocProc s = Ok (first_of (unused Q), s') \<and> stands_for ph s' (Q\<lparr>unused := tl (unused Q)\<rparr>)"
proof -
  have r: "repr (ahead ph s) Q" using assms by (simp add: stands_for_def)
  show ?thesis
  proof (cases "unused Q")
    case Nil
    from back_Ok(2) [OF allocProc_none [OF r Nil, unfolded ahead.allocProc_g]] obtain s' where
      "allocProc s = Ok (None, s')" "ahead ph s = ahead ph s'" by blast
    with r Nil show ?thesis by (simp add: stands_for_def queues_same)
  next
    case (Cons p ps)
    from allocProc_refines [OF r Cons] obtain t where t: "allocProc (ahead ph s) = Ok (Some p, t)" "repr t (Q\<lparr>unused := ps\<rparr>)"
      by blast
    from back_Ok(2) [OF t(1) [unfolded ahead.allocProc_g]] t(2) Cons show ?thesis by (auto simp: stands_for_def)
  qed
qed

lemma free_stands:
  assumes "stands_for ph s Q" "ph \<noteq> 0" "p < 20" "p \<notin> set (unused Q)" "occupied Q p = 0"
  shows "\<exists>s'. freeProc (Some p) s = Ok s' \<and> stands_for ph s' (Q\<lparr>unused := unused Q @ [p]\<rparr>)"
proof -
  have r: "repr (ahead ph s) Q" using assms by (simp add: stands_for_def)
  from freeProc_refines [OF r assms(3-5)] obtain t where
    t: "freeProc (Some p) (ahead ph s) = Ok t" "repr t (Q\<lparr>unused := unused Q @ [p]\<rparr>)" by blast
  from back_Ok(1) [OF t(1) [unfolded ahead.freeProc_g]] t(2) show ?thesis by (auto simp: stands_for_def)
qed

lemma insert_stands:
  assumes "stands_for ph s Q" "on_queue ph" "can_ready Q p"
  shows "\<exists>tp s'. insertProc (running_queue s) (Some p) s = Ok (tp, s')
    \<and> stands_for ph (s'\<lparr>running_queue := tp\<rparr>) (Q\<lparr>ready := ready Q @ [p]\<rparr>)"
proof -
  have r: "repr (ahead ph s) Q" using assms by (auto simp: stands_for_def on_queue_def)
  from insertProc_ready [OF r assms(3)] obtain tp t where
    t: "insertProc (running_queue s) (Some p) (ahead ph s) = Ok (tp, t)"
    "repr (t\<lparr>running_queue := tp\<rparr>) (Q\<lparr>ready := ready Q @ [p]\<rparr>)"
    by (auto simp: ahead_queue(1) [OF assms(2)])
  from back_Ok(2) [OF t(1) [unfolded ahead.insertProc_g]] obtain s' where
    "insertProc (running_queue s) (Some p) s = Ok (tp, s')" "t = ahead ph s'" by blast
  with t(2) show ?thesis by (auto simp: stands_for_def ahead_queue(2) [OF assms(2)])
qed

lemma head_stands:
  assumes "stands_for ph s Q" "on_queue ph"
  shows "headQueue (running_queue s) s = Ok (first_of (ready Q))"
proof -
  have "repr (ahead ph s) Q" using assms by (auto simp: stands_for_def on_queue_def)
  from headQueue_ready [OF this] show ?thesis by (simp add: ahead_queue(1) [OF assms(2)])
qed

lemma ready_pring: "repr s Q \<Longrightarrow> \<exists>xs. pring s (running_queue s) xs \<and> map fst xs = ready Q"
  by (auto simp: repr_def wf_def wf0_def)

lemma out_stands:
  assumes "stands_for ph s Q" "on_queue ph"
  shows "\<exists>tp s'. outProc (running_queue s) (Some p) s = Ok (if p \<in> set (ready Q) then Some p else None, tp, s')
    \<and> stands_for ph (s'\<lparr>running_queue := tp\<rparr>) (Q\<lparr>ready := filter (\<lambda>r. r \<noteq> p) (ready Q)\<rparr>)"
proof -
  have r: "repr (ahead ph s) Q" using assms by (auto simp: stands_for_def on_queue_def)
  have q: "\<exists>tp t. outProc (running_queue (ahead ph s)) (Some p) (ahead ph s) = Ok (if p \<in> set (ready Q) then Some p else None, tp, t)
    \<and> repr (t\<lparr>running_queue := tp\<rparr>) (Q\<lparr>ready := filter (\<lambda>r. r \<noteq> p) (ready Q)\<rparr>)"
  proof (cases "p \<in> set (ready Q)")
    case True
    with outProc_ready [OF r True] show ?thesis by auto
  next
    case False
    from ready_pring [OF r] obtain xs where xs: "pring (ahead ph s) (running_queue (ahead ph s)) xs" "map fst xs = ready Q" by blast
    have "p \<notin> fst ` set xs" using False xs(2) by (metis set_map)
    moreover have "filter (\<lambda>r. r \<noteq> p) (ready Q) = ready Q" using False by (auto intro: filter_True)
    ultimately show ?thesis using outProc_not_found [OF xs(1)] r False by auto
  qed
  then obtain tp t where t: "outProc (running_queue s) (Some p) (ahead ph s) = Ok (if p \<in> set (ready Q) then Some p else None, tp, t)"
    "repr (t\<lparr>running_queue := tp\<rparr>) (Q\<lparr>ready := filter (\<lambda>r. r \<noteq> p) (ready Q)\<rparr>)"
    by (auto simp: ahead_queue(1) [OF assms(2)])
  from back_Ok(3) [OF t(1) [unfolded ahead.outProc_g]] obtain s' where
    "outProc (running_queue s) (Some p) s = Ok (if p \<in> set (ready Q) then Some p else None, tp, s')" "t = ahead ph s'" by blast
  with t(2) show ?thesis by (auto simp: stands_for_def ahead_queue(2) [OF assms(2)])
qed

lemma remove_stands:
  assumes "stands_for ph s Q" "on_queue ph"
  shows "\<exists>tp s'. removeProc (running_queue s) s = Ok (first_of (ready Q), tp, s')
    \<and> stands_for ph (s'\<lparr>running_queue := tp\<rparr>) (Q\<lparr>ready := tl (ready Q)\<rparr>)"
proof -
  have r: "repr (ahead ph s) Q" using assms by (auto simp: stands_for_def on_queue_def)
  have q: "\<exists>tp t. removeProc (running_queue (ahead ph s)) (ahead ph s) = Ok (first_of (ready Q), tp, t)
    \<and> repr (t\<lparr>running_queue := tp\<rparr>) (Q\<lparr>ready := tl (ready Q)\<rparr>)"
  proof (cases "ready Q")
    case Nil
    from ready_pring [OF r] Nil have "pring (ahead ph s) (running_queue (ahead ph s)) []" by auto
    then have "nxt (running_queue (ahead ph s)) = None" by (simp add: pring_def ring_def tail_link_def null_link_def)
    with r Nil show ?thesis by (simp add: removeProc_def queues_same)
  next
    case (Cons p ps)
    with removeProc_ready [OF r Cons] show ?thesis by auto
  qed
  then obtain tp t where t: "removeProc (running_queue s) (ahead ph s) = Ok (first_of (ready Q), tp, t)"
    "repr (t\<lparr>running_queue := tp\<rparr>) (Q\<lparr>ready := tl (ready Q)\<rparr>)"
    by (auto simp: ahead_queue(1) [OF assms(2)])
  from back_Ok(3) [OF t(1) [unfolded ahead.removeProc_g]] obtain s' where
    "removeProc (running_queue s) s = Ok (first_of (ready Q), tp, s')" "t = ahead ph s'" by blast
  with t(2) show ?thesis by (auto simp: stands_for_def ahead_queue(2) [OF assms(2)])
qed

lemma waits_sems:
  assumes "aq_ok Q"
  shows "waits Q p \<longleftrightarrow> sems_of Q p \<noteq> {}"
proof -
  have "(\<exists>e \<in> set B. p \<in> set (snd e)) \<longleftrightarrow> (\<exists>a. p \<in> set (wait_of B a))" if "distinct (map fst B)" for B
    using that
  proof (induction B)
    case (Cons e B)
    obtain a q where e: "e = (a, q)" by fastforce
    have a: "wait_of B a = []" using Cons.prems e by (auto intro: wait_of_miss)
    have "(\<exists>b. p \<in> set (wait_of (e # B) b)) \<longleftrightarrow> p \<in> set q \<or> (\<exists>b. p \<in> set (wait_of B b))"
      unfolding e wait_of.simps using a by (metis empty_iff list.set(1))
    with Cons show ?case by (simp add: e)
  qed simp
  with assms show ?thesis by (auto simp: waits_def list_ex_iff sems_of_def aq_ok_def split_beta)
qed

lemma addokbuf_Ok: "addokbuf sp ok = Ok ok' \<Longrightarrow> rbind (addokbuf sp ok) f = f ok'"
  by simp

text \<open>Every run on abstract queues is a run on the linked structures, with the same outcome.\<close>

lemma arun_sound:
  "arun pr ok ph Q = Some r \<Longrightarrow> stands_for ph s Q \<Longrightarrow> crun pr ok s = Ok r"
proof (induction pr arbitrary: ok ph Q s)
  case (Init_Proc k)
  have "initProc (s\<lparr>running_queue := null_link\<rparr>) = (initProc s)\<lparr>running_queue := null_link\<rparr>"
    by (simp add: initProc_def Let_def)
  with init_repr [of "s\<lparr>running_queue := null_link\<rparr>"] have "stands_for 1 (initProc s) empty_queues"
    by (simp add: stands_for_def ahead_def)
  with Init_Proc show ?case by (auto split: if_splits)
next
  case (Init_Semd k)
  then have "arun k ok 3 Q = Some r" "stands_for 3 (initSemd s) Q"
    by (auto simp: stands_for_def ahead_def split: if_splits)
  with Init_Semd.IH show ?case by simp
next
  case (New_Queue k)
  then have "arun k ok 2 Q = Some r" "stands_for 2 (s\<lparr>running_queue := null_link\<rparr>) Q"
    by (auto simp: stands_for_def ahead_def split: if_splits)
  with New_Queue.IH show ?case by simp
next
  case (Alloc h)
  then have ph: "ph \<noteq> 0" by (auto split: if_splits)
  from alloc_stands [OF Alloc.prems(2) ph] obtain s' where s': "allocProc s = Ok (first_of (unused Q), s')"
    "stands_for ph s' (Q\<lparr>unused := tl (unused Q)\<rparr>)" by blast
  moreover have "arun (h (first_of (unused Q))) ok ph (Q\<lparr>unused := tl (unused Q)\<rparr>) = Some r"
    using Alloc.prems(1) ph by (cases "unused Q") (simp_all add: queues_same)
  ultimately show ?case using Alloc.IH [OF rangeI] by simp
next
  case (Free p k)
  then obtain i where i: "p = Some i" "ph \<noteq> 0" "i < 20" "i \<notin> set (unused Q)" "occupied Q i = 0"
    "arun k ok ph (Q\<lparr>unused := unused Q @ [i]\<rparr>) = Some r"
    by (auto split: option.splits if_splits)
  with free_stands [OF Free.prems(2) i(2-5)] Free.IH show ?case by auto
next
  case (Insert p k)
  then obtain i where i: "p = Some i" "on_queue ph" "can_ready Q i" "arun k ok ph (Q\<lparr>ready := ready Q @ [i]\<rparr>) = Some r"
    by (auto split: option.splits if_splits)
  with insert_stands [OF Insert.prems(2) i(2,3)] Insert.IH show ?case by auto
next
  case (Head h)
  then have "on_queue ph" "arun (h (first_of (ready Q))) ok ph Q = Some r" by (auto split: if_splits)
  with head_stands [OF Head.prems(2)] Head.IH [OF rangeI] Head.prems(2) show ?case by simp
next
  case (Out p h)
  then obtain i where i: "p = Some i" "on_queue ph" by (auto split: option.splits if_splits)
  let ?q = "if i \<in> set (ready Q) then Some i else None"
  have "arun (h ?q) ok ph (Q\<lparr>ready := filter (\<lambda>r. r \<noteq> i) (ready Q)\<rparr>) = Some r"
  proof (cases "i \<in> set (ready Q)")
    case False
    then have "filter (\<lambda>r. r \<noteq> i) (ready Q) = ready Q" by (auto intro: filter_True)
    with Out.prems(1) i False show ?thesis by simp
  qed (use Out.prems(1) i in simp)
  moreover from out_stands [OF Out.prems(2) i(2), of i] obtain tp s' where
    "outProc (running_queue s) (Some i) s = Ok (?q, tp, s')"
    "stands_for ph (s'\<lparr>running_queue := tp\<rparr>) (Q\<lparr>ready := filter (\<lambda>r. r \<noteq> i) (ready Q)\<rparr>)" by blast
  ultimately show ?case using Out.IH [OF rangeI] i(1) by simp
next
  case (Remove h)
  then have ph: "on_queue ph" by (auto split: if_splits)
  have "arun (h (first_of (ready Q))) ok ph (Q\<lparr>ready := tl (ready Q)\<rparr>) = Some r"
    using Remove.prems(1) ph by (cases "ready Q") (simp_all add: queues_same)
  with remove_stands [OF Remove.prems(2) ph] Remove.IH [OF rangeI] show ?case by auto
next
  case (Insert_Blocked a p h)
  then obtain i where i: "p = Some i" "ph = 3" by (auto split: option.splits if_splits)
  then have r: "repr s Q" using Insert_Blocked.prems(2) by (simp add: stands_for_def ahead_def)
  show ?case
  proof (cases "asl_full Q a")
    case True
    with Insert_Blocked i insertBlocked_refuses [OF r True] show ?thesis by auto
  next
    case False
    with Insert_Blocked.prems(1) i have c: "can_block Q a i"
      "arun (h False) ok 3 (Q\<lparr>blocked := block a i (blocked Q)\<rparr>) = Some r" by (auto split: if_splits)
    from insertBlocked_refines [OF r c(1) False] Insert_Blocked.IH [OF rangeI c(2)] i show ?thesis
      by (auto simp: stands_for_def ahead_def)
  qed
next
  case (Remove_Blocked a h)
  then have ph: "ph = 3" by (auto split: if_splits)
  then have r: "repr s Q" using Remove_Blocked.prems(2) by (simp add: stands_for_def ahead_def)
  show ?case
  proof (cases "wait_of (blocked Q) a")
    case Nil
    with Remove_Blocked ph removeBlocked_none [OF r Nil] show ?thesis by auto
  next
    case (Cons p ps)
    from removeBlocked_refines [OF r Cons] Remove_Blocked.IH [OF rangeI] Remove_Blocked.prems(1) ph Cons show ?thesis
      by (auto simp: stands_for_def ahead_def)
  qed
next
  case (Head_Blocked a h)
  then have ph: "ph = 3" by (auto split: if_splits)
  then have "repr s Q" using Head_Blocked.prems(2) by (simp add: stands_for_def ahead_def)
  from headBlocked_repr [OF this] Head_Blocked ph show ?case by auto
next
  case (Out_Blocked p h)
  then obtain i where i: "p = Some i" "ph = 3" "i < 20" by (auto split: option.splits if_splits)
  then have r: "repr s Q" using Out_Blocked.prems(2) by (simp add: stands_for_def ahead_def)
  have "(if sems_of Q i = {} then None else Some i) = (if waits Q i then Some i else None)"
    using waits_sems [OF repr_aq_ok [OF r], of i] by simp
  with outBlocked_refines [OF r i(3)] obtain s' where
    "outBlocked (Some i) s = Ok (if waits Q i then Some i else None, s')"
    "repr s' (Q\<lparr>blocked := leave (\<lambda>a r. r = i) (blocked Q)\<rparr>)" by auto
  with Out_Blocked.IH [OF rangeI] Out_Blocked.prems(1) i show ?case
    by (auto simp: stands_for_def ahead_def)
next
  case (Say sp k)
  then show ?case by (auto split: res.splits)
qed (auto split: res.splits)

end
