(* ===== verification/Queuetests.thy ===== *)
theory Queuetests
  imports Queuetest
begin

text \<open>
  The two test programs of the queue modules and their runs: on any memory they report
  success.
\<close>

section \<open>Variables and loops\<close>

text \<open>The linker chooses the addresses of \<open>sem[i]\<close> and \<open>onesem\<close>; the tests use only that they differ.\<close>

definition sem_at :: "nat \<Rightarrow> addr" where "sem_at i = 0x6000 + 4 * of_nat i"
definition onesem :: addr where "onesem = 0x6100"

record qvars =
  procp :: "nat \<Rightarrow> procptr"
  pv :: procptr
  qv :: procptr
  firstproc :: procptr
  midproc :: procptr
  lastproc :: procptr

definition set_procp :: "nat \<Rightarrow> procptr \<Rightarrow> qvars \<Rightarrow> qvars" where
  "set_procp i r v = v\<lparr>procp := (procp v)(i := r)\<rparr>"

fun qfor :: "nat list \<Rightarrow> (nat \<Rightarrow> qvars \<Rightarrow> (qvars \<Rightarrow> qprog) \<Rightarrow> qprog) \<Rightarrow> qvars \<Rightarrow> (qvars \<Rightarrow> qprog) \<Rightarrow> qprog" where
  "qfor [] body v k = k v"
| "qfor (i # is) body v k = body i v (\<lambda>v. qfor is body v k)"

definition check :: "bool \<Rightarrow> string \<Rightarrow> qprog \<Rightarrow> qprog" where
  "check b sp k = (if b then Complain sp else k)"

section \<open>\<open>p1test.c\<close>\<close>

definition t_alloc :: "qvars \<Rightarrow> (qvars \<Rightarrow> qprog) \<Rightarrow> qprog" where
  "t_alloc v k =
    Init_Proc (Say ''Initialized process queues   ''
    (qfor [0..<20] (\<lambda>i v k. Alloc (\<lambda>r.
       check (r = None) ''allocProc: unexpected ENULL   '' (k (set_procp i r v)))) v (\<lambda>v.
    Alloc (\<lambda>r. check (r \<noteq> None) ''allocProc: allocated more than MAXPROC entries   ''
    (Say ''allocProc ok   ''
    (qfor [10..<20] (\<lambda>i v k. Free (procp v i) (k v)) v (\<lambda>v.
    Say ''freed 10 entries   '' (k v))))))))"

definition t_insert_one :: "nat \<Rightarrow> qvars \<Rightarrow> (qvars \<Rightarrow> qprog) \<Rightarrow> qprog" where
  "t_insert_one i v k = Alloc (\<lambda>r.
     let v = v\<lparr>qv := r\<rparr> in
     check (r = None) ''allocProc: unexpected ENULL while insert   ''
       (let v = (if i = 0 then v\<lparr>firstproc := r\<rparr> else if i = 5 then v\<lparr>midproc := r\<rparr> else if i = 9 then v\<lparr>lastproc := r\<rparr> else v)
        in Insert (qv v) (k v)))"

definition t_insert :: "qvars \<Rightarrow> (qvars \<Rightarrow> qprog) \<Rightarrow> qprog" where
  "t_insert v k =
    New_Queue (Say ''Inserting...   ''
    (qfor [0..<10] t_insert_one v (\<lambda>v.
    Say ''inserted 10 elements   '' (k v))))"

definition t_out :: "qvars \<Rightarrow> (qvars \<Rightarrow> qprog) \<Rightarrow> qprog" where
  "t_out v k =
    Head (\<lambda>q. check (q \<noteq> firstproc v) ''headQueue failed   ''
    (Out (firstproc v) (\<lambda>q. check (q = None \<or> q \<noteq> firstproc v) ''outProc failed on first entry   ''
    (Free q
    (Out (midproc v) (\<lambda>q. check (q = None \<or> q \<noteq> midproc v) ''outProc failed on middle entry   ''
    (Free q
    (Out (procp v 0) (\<lambda>r. check (r \<noteq> None) ''outProc failed on nonexistent entry   ''
    (Say ''outProc ok   '' (k (v\<lparr>qv := q\<rparr>))))))))))))"

definition t_remove :: "qvars \<Rightarrow> (qvars \<Rightarrow> qprog) \<Rightarrow> qprog" where
  "t_remove v k =
    Say ''Removing...   ''
    (qfor [0..<8] (\<lambda>i v k. Remove (\<lambda>q. check (q = None) ''removeProc: unexpected ENULL   '' (Free q (k (v\<lparr>qv := q\<rparr>))))) v (\<lambda>v.
    check (qv v \<noteq> lastproc v) ''removeProc: failed on last entry   ''
    (Remove (\<lambda>r. check (r \<noteq> None) ''removeProc: removes too many entries   ''
    (qfor [0..<10] (\<lambda>i v k. Free (procp v i) (k v)) v (\<lambda>v.
    Say ''insertProc and removeProc ok   '' (Say ''process queue module ok      '' (k v))))))))"

definition t_block :: "string \<Rightarrow> nat \<Rightarrow> qvars \<Rightarrow> (qvars \<Rightarrow> qprog) \<Rightarrow> qprog" where
  "t_block sp i v k = Alloc (\<lambda>r. Insert_Blocked (sem_at i) r (\<lambda>b. check b sp (k (set_procp i r v))))"

definition t_reblock :: "nat \<Rightarrow> qvars \<Rightarrow> (qvars \<Rightarrow> qprog) \<Rightarrow> qprog" where
  "t_reblock i v k = Remove_Blocked (sem_at i) (\<lambda>q.
     check (q = None) ''removeBlocked: wouldn't remove   ''
     (check (q \<noteq> procp v i) ''removeBlocked: removed wrong element   ''
     (Insert_Blocked (sem_at (i - 10)) q (\<lambda>b. check b ''insertBlocked(3): unexpected TRUE   '' (k (v\<lparr>qv := q\<rparr>))))))"

definition t_asl :: "qvars \<Rightarrow> (qvars \<Rightarrow> qprog) \<Rightarrow> qprog" where
  "t_asl v k =
    Init_Semd (Say ''Initialized semaphore list   ''
    (qfor [10..<20] (t_block ''insertBlocked(1): unexpected TRUE   '') v (\<lambda>v.
    qfor [0..<10] (t_block ''insertBlocked(2): unexpected TRUE   '') v (\<lambda>v.
    Remove_Blocked (sem_at 11) (\<lambda>p. Insert_Blocked (sem_at 11) p (\<lambda>b.
    check b ''removeBlocked: fails to return to free list   ''
    (Insert_Blocked onesem (procp v 9) (\<lambda>b.
    check (\<not> b) ''insertBlocked: inserted more than MAXPROC   ''
    (qfor [10..<20] t_reblock (v\<lparr>pv := p\<rparr>) (\<lambda>v.
    Remove_Blocked (sem_at 11) (\<lambda>r.
    check (r \<noteq> None) ''removeBlocked: removed nonexistent blocked proc   ''
    (Say ''insertBlocked and removeBlocked ok   '' (k v)))))))))))))"

definition t_out_blocked :: "qvars \<Rightarrow> qprog \<Rightarrow> qprog" where
  "t_out_blocked v k =
    Head_Blocked (sem_at 11) (\<lambda>r. check (r \<noteq> None) ''headBlocked: nonENULL for a nonexistent queue   ''
    (Head_Blocked (sem_at 9) (\<lambda>q. check (q = None) ''headBlocked(1): ENULL for an existent queue   ''
    (check (q \<noteq> procp v 9) ''headBlocked(1): wrong process returned   ''
    (Out_Blocked q (\<lambda>p. check (p \<noteq> q) ''outBlocked(1): couldn't remove from valid queue   ''
    (Head_Blocked (sem_at 9) (\<lambda>q. check (q = None) ''headBlocked(2): ENULL for an existent queue   ''
    (check (q \<noteq> procp v 19) ''headBlocked(2): wrong process returned   ''
    (Out_Blocked q (\<lambda>p. check (p \<noteq> q) ''outBlocked(2): couldn't remove from valid queue   ''
    (Out_Blocked q (\<lambda>p. check (p \<noteq> None) ''outBlocked: removed same process twice.''
    (Head_Blocked (sem_at 9) (\<lambda>r. check (r \<noteq> None) ''out/headBlocked: unexpected nonempty queue   ''
    (Say ''headBlocked and outBlocked ok   '' (Say ''ASL module ok   ''
    (Say ''Successful mission Captain Kirk'' k))))))))))))))))))"

definition no_vars :: qvars where
  "no_vars = \<lparr>procp = (\<lambda>_. None), pv = None, qv = None, firstproc = None, midproc = None, lastproc = None\<rparr>"

definition p1test :: qprog where
  "p1test = t_alloc no_vars (\<lambda>v. t_insert v (\<lambda>v. t_out v (\<lambda>v. t_remove v (\<lambda>v. t_asl v (\<lambda>v. t_out_blocked v Finish)))))"

section \<open>\<open>p1test2.c\<close>\<close>

definition t2_block :: "string \<Rightarrow> string \<Rightarrow> string \<Rightarrow> nat \<Rightarrow> qvars \<Rightarrow> (qvars \<Rightarrow> qprog) \<Rightarrow> qprog" where
  "t2_block sp0 sp1 sp2 i v k = Alloc (\<lambda>r.
     Insert_Blocked (sem_at i) r (\<lambda>b. check b sp0
     (Insert_Blocked (sem_at (i + 1)) r (\<lambda>b. check b sp1
     (Insert_Blocked (sem_at (i + 2)) r (\<lambda>b. check b sp2
     (k (set_procp i r v))))))))"

definition t2_remove :: "nat \<Rightarrow> qvars \<Rightarrow> (qvars \<Rightarrow> qprog) \<Rightarrow> qprog" where
  "t2_remove i v k = Remove_Blocked (sem_at i) (\<lambda>q1. Remove_Blocked (sem_at (i + 1)) (\<lambda>q2. Remove_Blocked (sem_at (i + 2)) (\<lambda>q3.
     check (q1 \<noteq> q2 \<or> q1 \<noteq> q3) ''removeBlocked: removed procs are not the same''
     (check (q1 = None) ''removeBlocked: wouldn't remove   ''
     (check (q1 \<noteq> procp v i) ''removeBlocked: removed wrong element   '' (k v))))))"

definition t2_gone :: "(nat \<Rightarrow> qvars \<Rightarrow> procptr) \<Rightarrow> string \<Rightarrow> nat \<Rightarrow> qvars \<Rightarrow> (qvars \<Rightarrow> qprog) \<Rightarrow> qprog" where
  "t2_gone f sp i v k = Remove_Blocked (sem_at i) (\<lambda>q1. check (q1 \<noteq> f i v) sp (k v))"

definition t2_first :: "qvars \<Rightarrow> (qvars \<Rightarrow> qprog) \<Rightarrow> qprog" where
  "t2_first v k =
    qfor [0..<3] (t2_block ''insertBlocked(0): unexpected TRUE   '' ''insertBlocked(1): unexpected TRUE   ''
      ''insertBlocked(2): unexpected TRUE   '') v (\<lambda>v.
    Say ''ASL inserted ok   ''
    (qfor [0..<3] t2_remove v (\<lambda>v. Say ''ASL removed ok   '' (k v))))"

definition t2_second :: "qvars \<Rightarrow> (qvars \<Rightarrow> qprog) \<Rightarrow> qprog" where
  "t2_second v k =
    qfor [0..<3] (\<lambda>i v k. t2_block ''insertBlocked(3): unexpected TRUE   '' ''insertBlocked(4): unexpected TRUE   ''
      ''insertBlocked(5): unexpected TRUE   '' i v (\<lambda>v.
      Head_Blocked (sem_at (i + 2)) (\<lambda>r.
        check (r \<noteq> procp v i) ''headBlocked(5): wrong process at the head of the queue   '' (k v)))) v (\<lambda>v.
    let q = procp v 1 in
    Out_Blocked q (\<lambda>p. check (p \<noteq> q) ''outBlocked(1): couldn't remove from valid queue   ''
    (Out_Blocked q (\<lambda>p. check (p \<noteq> None) ''outBlocked: removed nonexistent process.  ''
    (Say ''ASL outBlocked ok   '' (k v))))))"

definition t2_third :: "qvars \<Rightarrow> qprog" where
  "t2_third v =
    qfor [0..<3] (t2_gone (\<lambda>_ v. procp v 0) ''removeBlocked: did not remove procp[0]'') v (\<lambda>v.
    qfor [2..<5] (t2_gone (\<lambda>_ v. procp v 2) ''removeBlocked: did not remove procp[2]'') v (\<lambda>v.
    qfor [0..<5] (t2_gone (\<lambda>_ _. None) ''removeBlocked: removed nonexistent proc '') v (\<lambda>v.
    Say ''ASL module ok   '' Finish)))"

definition t2_asl :: qprog where
  "t2_asl = t2_first no_vars (\<lambda>v. t2_second v t2_third)"

definition p1test2 :: qprog where
  "p1test2 = Init_Proc (Say ''Initialized process queues   '' (Init_Semd (Say ''Initialized semaphore list   '' t2_asl)))"

section \<open>Evaluation\<close>

lemma qprog_weak:
  "Alloc h = Alloc h" "Free p k = Free p k" "Insert p k = Insert p k" "Head h = Head h" "Out p h = Out p h" "Remove h = Remove h"
  "Insert_Blocked a p i = Insert_Blocked a p i" "Remove_Blocked a h = Remove_Blocked a h" "Head_Blocked a h = Head_Blocked a h"
  "Out_Blocked p h = Out_Blocked p h" "Say sp k = Say sp k" "Init_Proc k = Init_Proc k" "Init_Semd k = Init_Semd k"
  "New_Queue k = New_Queue k" "Complain sp = Complain sp"
  by (rule refl)+

text \<open>The rest of a loop, to be evaluated when its variables are known.\<close>

definition rest :: "nat list \<Rightarrow> (nat \<Rightarrow> qvars \<Rightarrow> (qvars \<Rightarrow> qprog) \<Rightarrow> qprog) \<Rightarrow> (qvars \<Rightarrow> qprog) \<Rightarrow> qvars \<Rightarrow> qprog" where
  "rest is body k v = qfor is body v k"

lemma qfor_rest: "qfor (i # is) body v k = body i v (rest is body k)"
proof -
  have "rest is body k = (\<lambda>v. qfor is body v k)" by (simp add: fun_eq_iff rest_def)
  then show ?thesis by simp
qed

lemma rest_weak: "v = v' \<Longrightarrow> rest is body k v = rest is body k v'" by simp
lemma qfor_weak: "xs = xs' \<Longrightarrow> v = v' \<Longrightarrow> qfor xs body v k = qfor xs' body v' k" by simp
lemma check_weak: "b = b' \<Longrightarrow> check b sp k = check b' sp k" by simp

lemma check_rules: "check False sp k = k" "check True sp k = Complain sp"
  by (simp_all add: check_def)

lemma addokbuf_fits: "int (length ok) + int (length sp) + 1 \<le> 512 \<Longrightarrow> addokbuf sp ok = Ok (ok @ sp)"
  by (simp add: addokbuf_def okbuf_size_def)

lemma ranges:
  "[0..<20] = [0, 1, 2, 3, 4, 5, 6, 7, 8, 9, 10, 11, 12, 13, 14, 15, 16, 17, 18, 19]"
  "[10..<20] = [10, 11, 12, 13, 14, 15, 16, 17, 18, 19]" "[0..<10] = [0, 1, 2, 3, 4, 5, 6, 7, 8, 9]"
  "[0..<8] = [0, 1, 2, 3, 4, 5, 6, 7]" "[0..<3] = [0, 1, 2]" "[2..<5] = [2, 3, 4]" "[0..<5] = [0, 1, 2, 3, 4]"
  by (simp_all add: upt_rec)

lemma set_procp_reads:
  "procp (set_procp i r v) j = (if j = i then r else procp v j)" "pv (set_procp i r v) = pv v" "qv (set_procp i r v) = qv v"
  "firstproc (set_procp i r v) = firstproc v" "midproc (set_procp i r v) = midproc v" "lastproc (set_procp i r v) = lastproc v"
  by (simp_all add: set_procp_def)

lemmas qtest_congs = qprog_weak qfor_weak check_weak rest_weak

lemmas qtest_defs = qfor_rest rest_def empty_queues_def on_queue_def occupied_def can_ready_def asl_full_def can_block_def waits_def leave_def
  check_rules set_procp_reads addokbuf_fits ranges sem_at_def onesem_def no_vars_def
  p1test_def t_alloc_def t_insert_one_def [unfolded Let_def] t_insert_def t_out_def t_remove_def t_block_def t_reblock_def t_asl_def t_out_blocked_def
  t2_block_def t2_remove_def t2_gone_def t2_first_def t2_second_def [unfolded Let_def] t2_third_def t2_asl_def

text \<open>C34: The test of the queue modules succeeds: from any contents of the memory, \<open>main\<close> of
  \<open>src/queues/p1test.c\<close> runs on the linked structures of \<open>procq.c\<close> and \<open>asl.c\<close> to its end, all its
  checks of \<open>allocProc\<close>, \<open>freeProc\<close>, the queue operations and the operations on blocked processes
  hold, and its progress messages fit into the 512 bytes of \<open>okbuf\<close>.\<close>

theorem queue_test_succeeds:
  "crun p1test [] s = Ok (Inr (concat [''Initialized process queues   '', ''allocProc ok   '', ''freed 10 entries   '',
     ''Inserting...   '', ''inserted 10 elements   '', ''outProc ok   '', ''Removing...   '', ''insertProc and removeProc ok   '',
     ''process queue module ok      '', ''Initialized semaphore list   '', ''insertBlocked and removeBlocked ok   '',
     ''headBlocked and outBlocked ok   '', ''ASL module ok   '', ''Successful mission Captain Kirk'']))"
proof (rule arun_sound)
  show "stands_for 0 s empty_queues" by (simp add: stands_for_def)
qed (simp add: qtest_defs cong: qtest_congs del: upt_rec_numeral qfor.simps(2))

text \<open>C35: The test of processes on several semaphores succeeds: from any contents of the memory, \<open>main\<close> of
  \<open>src/queues/p1test2.c\<close> blocks three processes on three semaphores each, twice, takes them off by
  \<open>removeBlocked\<close> and one of them by \<open>outBlocked\<close>, and all its checks hold.\<close>

theorem queue_test2_succeeds:
  "crun p1test2 [] (s\<lparr>running_queue := null_link\<rparr>) = Ok (Inr (concat [''Initialized process queues   '',
     ''Initialized semaphore list   '', ''ASL inserted ok   '', ''ASL removed ok   '', ''ASL outBlocked ok   '', ''ASL module ok   '']))"
proof -
  let ?s = "initSemd (initProc (s\<lparr>running_queue := null_link\<rparr>))"
  let ?ok = "''Initialized process queues   Initialized semaphore list   ''"
  have "crun p1test2 [] (s\<lparr>running_queue := null_link\<rparr>) = crun t2_asl ?ok ?s"
    by (simp add: p1test2_def addokbuf_fits cong: qtest_congs)
  also have "\<dots> = Ok (Inr (?ok @ concat [''ASL inserted ok   '', ''ASL removed ok   '', ''ASL outBlocked ok   '', ''ASL module ok   '']))"
  proof (rule arun_sound)
    show "stands_for 3 ?s empty_queues" by (simp add: stands_for_def ahead_def init_repr)
  qed (simp add: qtest_defs cong: qtest_congs del: upt_rec_numeral qfor.simps(2))
  finally show ?thesis by simp
qed

end
