(* ===== verification/System.thy ===== *)
theory System
  imports Semops Programs
begin

text \<open>
  Processes on the nucleus. A \<open>system\<close> holds the shared memory, the abstract queues and the family
  tree that the nucleus refines (theories \<open>Blocking\<close>, \<open>Family\<close>, \<open>Semops\<close>), and for each process the
  rest of its program, its processor state and the trap areas it has declared. One step
  executes the next node of the process at the head of the ready queue: a system call acts by
  the abstract operation its handler is proved to refine.
\<close>

section \<open>Systems\<close>

type_synonym ('w, 'g) uprog = "(addr, 'w, 'g, unit) prog"

record ('w, 'g) uproc =
  cont :: "('w, 'g) uprog"
  pst :: state_t
  vecs :: "int32 \<Rightarrow> ('w \<times> 'w) option"

text \<open>
  \<open>saved\<close> keeps, for a trap area, the program that was interrupted when the area was filled; the
  pc stored there is \<open>RESUME\<close> and stands for the place in it. \<open>time\<close> and \<open>cputime\<close> are the
  coming readings of the clock and of SYS6.
\<close>

record ('w, 'g) system =
  smem :: "(addr, 'w, 'g) umem"
  squeues :: aqueues
  stree :: "ptree option"
  sproc :: "nat \<Rightarrow> ('w, 'g) uproc"
  saved :: "'w \<Rightarrow> ('w, 'g) uprog"
  time :: "int32 list"
  cputime :: "int32 list"

definition RESUME :: int32 where "RESUME = 0"

datatype ('w, 'g) outcome =
    Runs "('w, 'g) system"
  | Nothing_ready "('w, 'g) system"
  | Stops "('w, 'g) system"
  | Astray

text \<open>
  \<open>Nothing_ready\<close>: the ready queue is empty; \<open>Stops\<close>: the program halts the machine; \<open>Astray\<close>: it runs
  off the end of a function, leaves an array, or waits for a device that is already waited for or has
  answered before.
\<close>

section \<open>Steps\<close>

definition set_cont :: "nat \<Rightarrow> ('w, 'g) uprog \<Rightarrow> ('w, 'g) system \<Rightarrow> ('w, 'g) system" where
  "set_cont p c s = s\<lparr>sproc := (sproc s)(p := (sproc s p)\<lparr>cont := c\<rparr>)\<rparr>"

definition load :: "(int32 \<Rightarrow> ('w, 'g) uprog) \<Rightarrow> nat \<Rightarrow> state_t \<Rightarrow> ('w, 'g) system \<Rightarrow> ('w, 'g) system" where
  "load code p st s = s\<lparr>sproc := (sproc s)(p := (sproc s p)\<lparr>cont := code (s_r st 16), pst := st\<rparr>)\<rparr>"

text \<open>Termination of a process and all its progeny.\<close>

definition kill :: "nat \<Rightarrow> ('w, 'g) system \<Rightarrow> ('w, 'g) system" where
  "kill p s = (case stree s of
       None \<Rightarrow> s
     | Some t \<Rightarrow>
         let xs = below p t; Q = squeues s; m = smem s in
         s\<lparr>smem := m\<lparr>sems := kill_heap xs Q (sems m)\<rparr>, squeues := kill_q xs Q,
           stree := (if root t = p then None else Some (pruned p t))\<rparr>)"

definition create :: "(int32 \<Rightarrow> ('w, 'g) uprog) \<Rightarrow> nat \<Rightarrow> state_t \<Rightarrow> (int32 \<Rightarrow> ('w, 'g) uprog)
    \<Rightarrow> ('w, 'g) system \<Rightarrow> ('w, 'g) system" where
  "create code p st h s = (let Q = squeues s in case unused Q of
       [] \<Rightarrow> set_cont p (h (- 1)) s
     | c # cs \<Rightarrow> set_cont p (h 0) (load code c st
         (s\<lparr>squeues := Q\<lparr>unused := cs, ready := ready Q @ [c]\<rparr>, stree := map_option (adopted p c) (stree s)\<rparr>)))"

definition semops :: "nat \<Rightarrow> addr semop list \<Rightarrow> ('w, 'g) system \<Rightarrow> ('w, 'g) system" where
  "semops p ops s =
     (let vs = map (\<lambda>(opr, a). \<lparr>vp_op = opr, vp_sem = a\<rparr>) ops; m = smem s;
          (h, Q) = fold (sem_step p) vs (sems m, squeues s)
      in s\<lparr>smem := m\<lparr>sems := h\<rparr>,
           squeues := (if some_blocks vs (sems m) then Q\<lparr>ready := tl (ready Q)\<rparr> else Q)\<rparr>)"

text \<open>A trap of class \<open>t\<close> in state \<open>st\<close>; \<open>k\<close> is what the process would do next.\<close>

definition passed_up :: "(int32 \<Rightarrow> ('w, 'g) uprog) \<Rightarrow> nat \<Rightarrow> int32 \<Rightarrow> state_t \<Rightarrow> ('w, 'g) uprog
    \<Rightarrow> ('w, 'g) system \<Rightarrow> ('w, 'g) system" where
  "passed_up code p t st k s = (case vecs (sproc s p) t of
       None \<Rightarrow> kill p s
     | Some (old, new) \<Rightarrow>
         load code p (areas (smem s) new)
           (s\<lparr>smem := (smem s)\<lparr>areas := (areas (smem s))(old := set_reg 16 RESUME st)\<rparr>, saved := (saved s)(old := k)\<rparr>))"

definition prog_trap :: "(int32 \<Rightarrow> ('w, 'g) uprog) \<Rightarrow> nat \<Rightarrow> tmp_t \<Rightarrow> ('w, 'g) uprog \<Rightarrow> ('w, 'g) system \<Rightarrow> ('w, 'g) system" where
  "prog_trap code p typ k s = passed_up code p 0 ((pst (sproc s p))\<lparr>s_tmp := typ\<rparr>) k s"

definition ZERODIVIDE :: tmp_t where "ZERODIVIDE = 5"

text \<open>A call to the nucleus from user mode is a privileged instruction.\<close>

definition guarded :: "(int32 \<Rightarrow> ('w, 'g) uprog) \<Rightarrow> nat \<Rightarrow> ('w, 'g) system \<Rightarrow> ('w, 'g) system \<Rightarrow> ('w, 'g) outcome" where
  "guarded code p s s' = Runs (if ps_s (s_sr (pst (sproc s p))) = 1 then s'
     else prog_trap code p PRIVILEGE (cont (sproc s p)) s)"

definition declare_vec :: "nat \<Rightarrow> int32 \<Rightarrow> 'w \<Rightarrow> 'w \<Rightarrow> ('w, 'g) uprog \<Rightarrow> ('w, 'g) system \<Rightarrow> ('w, 'g) system" where
  "declare_vec p t old new k s =
     (if vecs (sproc s p) t \<noteq> None then kill p s
      else s\<lparr>sproc := (sproc s)(p := (sproc s p)\<lparr>cont := k, vecs := (vecs (sproc s p))(t := Some (old, new))\<rparr>)\<rparr>)"

definition reload :: "(int32 \<Rightarrow> ('w, 'g) uprog) \<Rightarrow> nat \<Rightarrow> 'w \<Rightarrow> ('w, 'g) system \<Rightarrow> ('w, 'g) system" where
  "reload code p w s =
     (let st = areas (smem s) w; s = load code p st s in
      if s_r st 16 = RESUME then set_cont p (saved s w) s else s)"

text \<open>Loading a state with translation on but no segment table is a memory management trap.\<close>

definition load_state :: "(int32 \<Rightarrow> ('w, 'g) uprog) \<Rightarrow> nat \<Rightarrow> state_t \<Rightarrow> ('w, 'g) system \<Rightarrow> ('w, 'g) system" where
  "load_state code p st s =
     (if ps_m (s_sr st) = 1 \<and> s_crp st = 0 then passed_up code p 1 st STUCK s else load code p st s)"

text \<open>
  The semaphores of the nucleus for the pseudo clock and the devices, at addresses of the
  linker's choice. A process that waits for a device keeps its \<open>SYS8\<close> node until the device
  answers.
\<close>

definition clocksem :: addr where "clocksem = 0x4000"
definition devsem :: "nat \<Rightarrow> addr" where "devsem d = 0x4010 + 4 * of_nat d"

text \<open>What process \<open>p\<close> does at a node.\<close>

fun act :: "(int32 \<Rightarrow> ('w, 'g) uprog) \<Rightarrow> nat \<Rightarrow> ('w, 'g) system \<Rightarrow> ('w, 'g) uprog \<Rightarrow> ('w, 'g) outcome" where
  "act code p s (Return x) = Astray"
| "act code p s (Read h) = Runs (set_cont p (h (smem s)) s)"
| "act code p s (Write u k) = Runs (set_cont p k (s\<lparr>smem := u (smem s)\<rparr>))"
| "act code p s (SYS1 st h) = guarded code p s (create code p st h s)"
| "act code p s SYS2 = guarded code p s (kill p s)"
| "act code p s (SYS3 ops k) = guarded code p s (semops p ops (set_cont p k s))"
| "act code p s (SYS5 t old new k) = guarded code p s (declare_vec p t old new k s)"
| "act code p s (SYS6 h) = guarded code p s (set_cont p (h (hd (cputime s @ [0]))) (s\<lparr>cputime := tl (cputime s)\<rparr>))"
| "act code p s (SYS7 k) = guarded code p s (semops p [(LOCK, clocksem)] (set_cont p k s))"
| "act code p s (SYS8 d h) = (if sems (smem s) (devsem d) = 0 then guarded code p s (semops p [(LOCK, devsem d)] s) else Astray)"
| "act code p s (SYS9 k) = Runs (passed_up code p 2 ((pst (sproc s p))\<lparr>s_tmp := 9\<rparr>) k s)"
| "act code p s (prog.STCK h) = Runs (set_cont p (h (hd (time s @ [0]))) (s\<lparr>time := tl (time s)\<rparr>))"
| "act code p s (STST h) = Runs (set_cont p (h (pst (sproc s p))) s)"
| "act code p s (DIVU d k) = Runs (if d = 0 then prog_trap code p ZERODIVIDE k s else set_cont p k s)"
| "act code p s (LDST_area w) = Runs (reload code p w s)"
| "act code p s (LDST_state st) = Runs (load_state code p st s)"
| "act code p s prog.HALT = Stops s"
| "act code p s STUCK = Astray"

text \<open>The process at the head of the ready queue runs.\<close>

definition ustep :: "(int32 \<Rightarrow> ('w, 'g) uprog) \<Rightarrow> ('w, 'g) system \<Rightarrow> ('w, 'g) outcome" where
  "ustep code s = (case ready (squeues s) of [] \<Rightarrow> Nothing_ready s | p # ps \<Rightarrow> act code p s (cont (sproc s p)))"

text \<open>The end of a time slice.\<close>

definition preempt :: "('w, 'g) system \<Rightarrow> ('w, 'g) system" where
  "preempt s = (let Q = squeues s in s\<lparr>squeues := Q\<lparr>ready := rotate1 (ready Q)\<rparr>\<rparr>)"

text \<open>Runs of at most \<open>n\<close> steps, with the processor handed over after every \<open>quant\<close> steps.\<close>

fun runs :: "(int32 \<Rightarrow> ('w, 'g) uprog) \<Rightarrow> nat \<Rightarrow> nat \<Rightarrow> nat \<Rightarrow> ('w, 'g) system \<Rightarrow> ('w, 'g) outcome" where
  "runs code quant 0 k s = Runs s"
| "runs code quant (Suc n) k s =
     (if k = 0 then runs code quant n quant (preempt s)
      else (case ustep code s of Runs s' \<Rightarrow> runs code quant n (k - 1) s' | r \<Rightarrow> r))"

section \<open>Interrupts\<close>

text \<open>
  Runs in which devices and the clock interrupt only when no process is ready: first the device
  \<open>d\<close> answers, as \<open>iodev\<close> says, the process that waits for it; when nobody does, the pseudo
  clock ticks.
\<close>

definition V_sem :: "addr \<Rightarrow> ('w, 'g) system \<Rightarrow> ('w, 'g) system" where
  "V_sem a s = (let (h, Q) = sem_step 0 \<lparr>vp_op = UNLOCK, vp_sem = a\<rparr> (sems (smem s), squeues s)
     in s\<lparr>smem := (smem s)\<lparr>sems := h\<rparr>, squeues := Q\<rparr>)"

definition answers :: "nat \<Rightarrow> int32 \<times> int32 \<Rightarrow> nat \<Rightarrow> ('w, 'g) uprog \<Rightarrow> ('w, 'g) system \<Rightarrow> ('w, 'g) system option" where
  "answers d r p c s = (case c of SYS8 e h \<Rightarrow> if e = d then Some (V_sem (devsem d) (set_cont p (h r) s)) else None | _ \<Rightarrow> None)"

definition complete :: "(nat \<Rightarrow> 'g \<Rightarrow> ((int32 \<times> int32) \<times> 'g) option) \<Rightarrow> nat \<Rightarrow> ('w, 'g) system \<Rightarrow> ('w, 'g) system option" where
  "complete iodev d s = (case wait_of (blocked (squeues s)) (devsem d) of
       [] \<Rightarrow> None
     | p # ps \<Rightarrow> (case iodev d (vars (smem s)) of
         None \<Rightarrow> None
       | Some (r, g) \<Rightarrow> answers d r p (cont (sproc s p)) (s\<lparr>smem := (smem s)\<lparr>vars := g\<rparr>\<rparr>)))"

definition tick :: "('w, 'g) system \<Rightarrow> ('w, 'g) system option" where
  "tick s = (if wait_of (blocked (squeues s)) clocksem = [] then None else Some (V_sem clocksem s))"

fun runs_io :: "(nat \<Rightarrow> 'g \<Rightarrow> ((int32 \<times> int32) \<times> 'g) option) \<Rightarrow> nat \<Rightarrow> (int32 \<Rightarrow> ('w, 'g) uprog) \<Rightarrow> nat
    \<Rightarrow> ('w, 'g) system \<Rightarrow> ('w, 'g) outcome" where
  "runs_io iodev d code 0 s = Runs s"
| "runs_io iodev d code (Suc n) s = (case ustep code s of
       Runs s' \<Rightarrow> runs_io iodev d code n s'
     | Nothing_ready s' \<Rightarrow> (case complete iodev d s' of
         Some t \<Rightarrow> runs_io iodev d code n t
       | None \<Rightarrow> (case tick s' of Some t \<Rightarrow> runs_io iodev d code n t | None \<Rightarrow> Nothing_ready s'))
     | r \<Rightarrow> r)"

section \<open>Evaluation of runs\<close>

text \<open>
  A run is evaluated by rewriting. The congruences keep the simplifier out of the programs
  that are not yet run and out of the values of finite functions. \<open>put\<close> is an update still to be
  evaluated, \<open>kept\<close> one that is done.
\<close>

definition always :: "'b \<Rightarrow> 'a \<Rightarrow> 'b" where "always c = (\<lambda>_. c)"
definition kept :: "('a \<Rightarrow> 'b) \<Rightarrow> 'a \<Rightarrow> 'b \<Rightarrow> 'a \<Rightarrow> 'b" where "kept f x y = f(x := y)"
definition put :: "('a \<Rightarrow> 'b) \<Rightarrow> 'a \<Rightarrow> 'b \<Rightarrow> 'a \<Rightarrow> 'b" where "put f x y = f(x := y)"

text \<open>The key last written stands first: \<open>above\<close> puts another key below it.\<close>

definition above :: "('a \<Rightarrow> 'b) \<Rightarrow> 'a \<Rightarrow> 'a \<Rightarrow> 'b \<Rightarrow> 'a \<Rightarrow> 'b" where
  "above f x a b = (if x = a then f else f(a := b))"

lemma put_rules:
  "put (always c) x y = kept (always c) x y"
  "put (kept f a b) x y = (if x = a then kept f x y else above (put f x y) x a b)"
  "above (kept f x y) x a b = kept (kept f a b) x y"
  "(always c) x = c" "(kept f a b) x = (if x = a then b else f x)"
  by (auto simp: put_def kept_def always_def above_def)

lemma prog_weak:
  "Read h = Read h" "Write u p = Write u p" "SYS1 st i = SYS1 st i" "SYS3 ops p = SYS3 ops p" "SYS5 a b c p = SYS5 a b c p"
  "SYS6 i = SYS6 i" "SYS7 p = SYS7 p" "SYS8 n e = SYS8 n e" "SYS9 p = SYS9 p" "prog.STCK i = prog.STCK i" "STST j = STST j"
  "DIVU z p = DIVU z p"
  by (rule refl)+

lemma pbind_weak: "p = p' \<Longrightarrow> pbind p f = pbind p' f" by simp
lemma pfor_weak: "xs = xs' \<Longrightarrow> pfor xs f = pfor xs' f" by simp
lemma kept_weak: "kept f x y = kept f x y" by simp
lemma above_weak: "f = f' \<Longrightarrow> above f x a b = above f' x a b" by simp
lemma Char_weak: "Char a b c d e f g h = Char a b c d e f g h" by simp
lemma string_weak: "(c :: char) # cs = c # cs" by simp

lemma part_weak:
  "smem s = smem s" "squeues s = squeues s" "stree s = stree s" "sproc s = sproc s" "saved s = saved s" "time s = time s"
  "cputime s = cputime s"
  by (rule refl)+

lemmas run_congs = part_weak prog_weak pbind_weak pfor_weak kept_weak above_weak Char_weak string_weak

lemma runs_numeral:
  "runs code q (numeral v) (numeral w) s = (case ustep code s of
     Runs s' \<Rightarrow> runs code q (pred_numeral v) (pred_numeral w) s' | r \<Rightarrow> r)"
  by (simp add: numeral_eq_Suc split: outcome.split)

lemma runs_io_numeral:
  "runs_io iodev d code (numeral v) s = (case ustep code s of
       Runs s' \<Rightarrow> runs_io iodev d code (pred_numeral v) s'
     | Nothing_ready s' \<Rightarrow> (case complete iodev d s' of
         Some t \<Rightarrow> runs_io iodev d code (pred_numeral v) t
       | None \<Rightarrow> (case tick s' of Some t \<Rightarrow> runs_io iodev d code (pred_numeral v) t | None \<Rightarrow> Nothing_ready s'))
     | r \<Rightarrow> r)"
  by (simp add: numeral_eq_Suc)

text \<open>Termination gives every semaphore one unit for each process that waited on it.\<close>

lemma kill_heap_fold:
  assumes "distinct (map fst B)"
  shows "kill_heap xs \<lparr>ready = R, blocked = B, unused = U\<rparr> h =
    fold (\<lambda>(a, q) h. put h a (h a + of_nat (length (filter (\<lambda>p. p \<in> set xs) q)))) B h"
  using assms
proof (induction B arbitrary: h)
  case (Cons e B)
  obtain a q where e: "e = (a, q)" by fastforce
  have w: "wait_of B a = []"
    using Cons.prems by (induction B) (auto simp: e)
  let ?h = "put h a (h a + of_nat (length (filter (\<lambda>p. p \<in> set xs) q)))"
  have "kill_heap xs \<lparr>ready = R, blocked = e # B, unused = U\<rparr> h = kill_heap xs \<lparr>ready = R, blocked = B, unused = U\<rparr> ?h"
    by (rule ext) (simp add: kill_heap_def put_def e w)
  then show ?case using Cons by (simp add: e)
qed (simp add: kill_heap_def fun_eq_iff)

text \<open>
  Rules for single steps, in which every part of the state occurs as seldom as possible.
\<close>

definition woken :: "nat \<Rightarrow> aqueues \<Rightarrow> aqueues" where
  "woken p Q = (if occupied Q p = 0 then Q\<lparr>ready := ready Q @ [p]\<rparr> else Q)"

lemma wake_woken:
  "wake a Q = (case wait_of (blocked Q) a of [] \<Rightarrow> Q
     | p # ps \<Rightarrow> woken p (Q\<lparr>blocked := leave (\<lambda>b r. b = a \<and> r = p) (blocked Q)\<rparr>))"
  by (simp add: wake_def woken_def Let_def split: list.split)

lemma reload_load:
  "reload code p w s = (if s_r (areas (smem s) w) 16 = RESUME
     then set_cont p (saved s w) (load code p (areas (smem s) w) s) else load code p (areas (smem s) w) s)"
  by (simp add: reload_def Let_def load_def)

lemma semops_single:
  "semops p [(LOCK, a)] \<lparr>smem = \<lparr>sems = h, areas = A, vars = g\<rparr>, squeues = Q, stree = t, sproc = F, saved = S,
       time = ts, cputime = cs\<rparr> =
     \<lparr>smem = \<lparr>sems = put h a (h a - 1), areas = A, vars = g\<rparr>,
      squeues = if sint (h a - 1) < 0 then Q\<lparr>ready := tl (ready Q), blocked := block a p (blocked Q)\<rparr> else Q,
      stree = t, sproc = F, saved = S, time = ts, cputime = cs\<rparr>"
  "semops p [(UNLOCK, a)] \<lparr>smem = \<lparr>sems = h, areas = A, vars = g\<rparr>, squeues = Q, stree = t, sproc = F, saved = S,
       time = ts, cputime = cs\<rparr> =
     \<lparr>smem = \<lparr>sems = put h a (h a + 1), areas = A, vars = g\<rparr>, squeues = if sint (h a) < 0 then wake a Q else Q,
      stree = t, sproc = F, saved = S, time = ts, cputime = cs\<rparr>"
  "V_sem a \<lparr>smem = \<lparr>sems = h, areas = A, vars = g\<rparr>, squeues = Q, stree = t, sproc = F, saved = S, time = ts,
       cputime = cs\<rparr> =
     \<lparr>smem = \<lparr>sems = put h a (h a + 1), areas = A, vars = g\<rparr>, squeues = if sint (h a) < 0 then wake a Q else Q,
      stree = t, sproc = F, saved = S, time = ts, cputime = cs\<rparr>"
  by (auto simp: semops_def V_sem_def put_def Let_def)

lemmas run_defs = runs_numeral runs_io_numeral answers_def complete_def tick_def ustep_def set_cont_def [folded put_def]
  load_def [folded put_def] create_def [unfolded Let_def] semops_def [unfolded Let_def] semops_single
  kill_def [unfolded Let_def] guarded_def passed_up_def [folded put_def] prog_trap_def declare_vec_def [folded put_def]
  reload_load load_state_def sem_step.simps [unfolded Let_def, folded put_def] some_blocks.simps [folded put_def]
  kill_heap_fold kill_q_def wake_woken woken_def leave_def occupied_def
  moda_def [folded put_def] modv_def puts_def [folded put_def] gets_def geta_def getv_def skip_def passeren_def verhogen_def
  append.simps [where ?'a = nat] append.simps [where ?'a = ptree] append.simps [where ?'a = int32] put_rules

end
