(* ===== verification/Testdata.thy ===== *)
theory Testdata
  imports System
begin

text \<open>
  What the test programs of the nucleus share (\<open>src/nucleus/traps/p1.2.c\<close>, \<open>src/nucleus/traps/p1.c\<close>; \<open>p3state\<close>
  and the statements also \<open>src/nucleus/interrupts/intp1.c\<close>): their global variables and the procedure \<open>print\<close>,
  which collects the messages of the processes in a buffer. The linker chooses the addresses of the semaphores and of the functions; the programs
  use only that they differ, so the numbers below are one possible choice.
\<close>

section \<open>Global variables\<close>

text \<open>The semaphores: \<open>s_sem i\<close> is the address of \<open>s[i]\<close>.\<close>

definition s_sem :: "nat \<Rightarrow> addr" where "s_sem i = 0x8000 + 4 * of_nat i"
definition testsem :: addr where "testsem = 0x9000"
definition startp2 :: addr where "startp2 = 0x9004"
definition endp2 :: addr where "endp2 = 0x9008"
definition blkp4 :: addr where "blkp4 = 0x900c"
definition synp4 :: addr where "synp4 = 0x9010"
definition endp4 :: addr where "endp4 = 0x9014"
definition endp5 :: addr where "endp5 = 0x9018"
definition endp8 :: addr where "endp8 = 0x901c"
definition endcreate :: addr where "endcreate = 0x9020"
definition blkp8 :: addr where "blkp8 = 0x9024"
definition gchild1sem :: addr where "gchild1sem = 0x9028"
definition gchild2sem :: addr where "gchild2sem = 0x902c"
definition gchild3sem :: addr where "gchild3sem = 0x9030"
definition gchild4sem :: addr where "gchild4sem = 0x9034"

lemmas semaphores = s_sem_def testsem_def startp2_def endp2_def blkp4_def synp4_def endp4_def endp5_def
  endp8_def endcreate_def blkp8_def gchild1sem_def gchild2sem_def gchild3sem_def gchild4sem_def

text \<open>The evaluation of runs knows of them only that they differ.\<close>

lemma sems_distinct:
  "distinct [testsem, startp2, endp2, blkp4, synp4, endp4, endp5, endp8, endcreate, blkp8, gchild1sem, gchild2sem, gchild3sem, gchild4sem]"
  "distinct [gchild4sem, gchild3sem, gchild2sem, gchild1sem, blkp8, endcreate, endp8, endp5, endp4, synp4, blkp4, endp2, startp2, testsem]"
  by (simp_all add: semaphores)

lemma unat_s_sem: "unat (s_sem i) = 0x8000 + 4 * i" if "i < 21"
proof -
  have "s_sem i = of_nat (0x8000 + 4 * i)" by (simp add: s_sem_def)
  then show ?thesis using that by (simp only: unat_of_nat) simp
qed

lemma s_sem_distinct: "s_sem i = s_sem j \<longleftrightarrow> i = j" if "i < 21" "j < 21"
  using unat_s_sem that by (metis add_left_cancel mult_cancel1 zero_neq_numeral)

lemma s_sem_other:
  assumes "i < 21"
  shows "0x9000 \<le> a \<Longrightarrow> s_sem i \<noteq> a" "0x9000 \<le> a \<Longrightarrow> a \<noteq> s_sem i"
    "a < 0x8000 \<Longrightarrow> s_sem i \<noteq> a" "a < 0x8000 \<Longrightarrow> a \<noteq> s_sem i"
  using unat_s_sem [OF assms] assms by (auto simp: word_le_nat_alt word_less_nat_alt)

lemma sems_above:
  "0x9000 \<le> testsem" "0x9000 \<le> startp2" "0x9000 \<le> endp2" "0x9000 \<le> blkp4" "0x9000 \<le> synp4" "0x9000 \<le> endp4" "0x9000 \<le> endp5"
  "0x9000 \<le> endp8" "0x9000 \<le> endcreate" "0x9000 \<le> blkp8" "0x9000 \<le> gchild1sem" "0x9000 \<le> gchild2sem" "0x9000 \<le> gchild3sem"
  "0x9000 \<le> gchild4sem"
  by (simp_all add: semaphores)

lemmas sems_differ = sems_distinct [unfolded distinct.simps list.set insert_iff empty_iff de_Morgan_disj simp_thms]
  s_sem_distinct sems_above [THEN s_sem_other(1) [rotated]] sems_above [THEN s_sem_other(2) [rotated]]

text \<open>The initial states of the processes and the trap areas of \<open>p5\<close>.\<close>

datatype area = p2state | p3state | p4state | p5state | p6state | p7state | p8rootstate | child1state | child2state
  | gchild1state | gchild2state | gchild3state | gchild4state
  | pstat_n | mstat_n | sstat_n | pstat_o | mstat_o | sstat_o

text \<open>\<open>mp\<close> is the offset of the pointer \<open>mp\<close> in \<open>okbuf\<close>; \<open>okbuf\<close> holds the characters before it.\<close>

record tvars =
  okbuf :: string
  mp :: int
  p1p2synch :: int32
  p8inc :: int32
  p4inc :: int32

type_synonym tprog = "(area, tvars) uprog"

definition MAXOKBUF :: int where "MAXOKBUF = 1000"

definition okbufov :: string where "okbufov = ''okbufoverflow''"

text \<open>The copied characters and their 0 byte, which becomes a dash, must stay within the buffer.\<close>

definition print :: "string \<Rightarrow> tprog" where
  "print msg = pbind (getv mp) (\<lambda>b.
     let msg = (if b + 10 > MAXOKBUF - 1 then okbufov else msg) in
     if b + int (length msg) + 1 > MAXOKBUF then STUCK
     else modv (\<lambda>g. g\<lparr>okbuf := okbuf g @ msg @ ''-'', mp := mp g + int (length msg) + 1\<rparr>))"

section \<open>Recurring statements\<close>

fun stmts :: "('w, 'g) uprog list \<Rightarrow> ('w, 'g) uprog" where
  "stmts [] = skip"
| "stmts [p] = p"
| "stmts (p # ps) = pseq p (stmts ps)"

definition PAGE :: int32 where "PAGE = 512"

text \<open>\<open>STST(&w); w.s_sp = u.s_sp - gap; w.s_pc = pc\<close>\<close>

definition new_state :: "area \<Rightarrow> area \<Rightarrow> int32 \<Rightarrow> int32 \<Rightarrow> (area, 'g) uprog" where
  "new_state w u gap pc = STST (\<lambda>st.
     pseq (moda w (\<lambda>_. st)) (pbind (geta u) (\<lambda>a. moda w (\<lambda>st. set_reg 16 pc (set_reg 15 (s_sp a - gap) st)))))"

text \<open>\<open>r4 = (int)&w; DO_CREATEPROC()\<close>, which returns \<open>r2\<close>.\<close>

definition DO_CREATEPROC :: "area \<Rightarrow> (addr, area, 'g, int32) prog" where
  "DO_CREATEPROC w = pbind (geta w) (\<lambda>st. SYS1 st Return)"

definition CREATENOGOOD :: int32 where "CREATENOGOOD = - 1"

text \<open>The start of the programs: \<open>main\<close> of the nucleus has made \<open>p1\<close> the only process.\<close>

definition kernel_state :: "int32 \<Rightarrow> state_t" where
  "kernel_state pc = \<lparr>s_r = (\<lambda>_. 0)(15 := 0x20000, 16 := pc),
     s_sr = \<lparr>ps_t = 0, ps_s = 1, ps_m = 0, ps_int = 0, ps_x = 0, ps_n = 0, ps_z = 0, ps_o = 0, ps_c = 0\<rparr>,
     s_tmp = 0, s_crp = 0\<rparr>"

definition started :: "(int32 \<Rightarrow> tprog) \<Rightarrow> int32 \<Rightarrow> int32 list \<Rightarrow> int32 list \<Rightarrow> (area, tvars) system" where
  "started code pc ts cs =
     \<lparr>smem = \<lparr>sems = (\<lambda>_. 0)(blkp4 := 1), areas = (\<lambda>_. kernel_state 0),
        vars = \<lparr>okbuf = [], mp = 0, p1p2synch = 0, p8inc = 0, p4inc = 1\<rparr>\<rparr>,
      squeues = \<lparr>ready = [0], blocked = [], unused = [1, 2, 3, 4, 5, 6, 7, 8, 9, 10, 11, 12, 13, 14, 15, 16, 17, 18, 19]\<rparr>,
      stree = Some (PNode 0 []),
      sproc = (\<lambda>_. \<lparr>cont = STUCK, pst = kernel_state 0, vecs = (\<lambda>_. None)\<rparr>)
        (0 := \<lparr>cont = code pc, pst = kernel_state pc, vecs = (\<lambda>_. None)\<rparr>),
      saved = (\<lambda>_. STUCK), time = ts, cputime = cs\<rparr>"

lemma set_reg_reads:
  "s_r (set_reg i v st) j = (if j = i then v else s_r st j)" "s_sr (set_reg i v st) = s_sr st"
  "s_tmp (set_reg i v st) = s_tmp st" "s_crp (set_reg i v st) = s_crp st"
  by (simp_all add: set_reg_def)

lemma kernel_state_reads:
  "s_r (kernel_state pc) i = (if i = 16 then pc else if i = 15 then 0x20000 else 0)"
  "ps_s (s_sr (kernel_state pc)) = 1" "ps_m (s_sr (kernel_state pc)) = 0" "s_crp (kernel_state pc) = 0"
  by (simp_all add: kernel_state_def)

lemma started_put:
  "started code pc ts cs =
     \<lparr>smem = \<lparr>sems = put (always 0) blkp4 1, areas = always (kernel_state 0),
        vars = \<lparr>okbuf = [], mp = 0, p1p2synch = 0, p8inc = 0, p4inc = 1\<rparr>\<rparr>,
      squeues = \<lparr>ready = [0], blocked = [], unused = [1, 2, 3, 4, 5, 6, 7, 8, 9, 10, 11, 12, 13, 14, 15, 16, 17, 18, 19]\<rparr>,
      stree = Some (PNode 0 []),
      sproc = put (always \<lparr>cont = STUCK, pst = kernel_state 0, vecs = always None\<rparr>)
        0 \<lparr>cont = code pc, pst = kernel_state pc, vecs = always None\<rparr>,
      saved = always STUCK, time = ts, cputime = cs\<rparr>"
  by (simp add: started_def put_def always_def)

text \<open>A message still to be evaluated, and one that is.\<close>

definition told :: "string \<Rightarrow> string \<Rightarrow> string" where "told x m = x @ m @ ''-''"
definition tell :: "string \<Rightarrow> string \<Rightarrow> string" where "tell x m = x @ m @ ''-''"

lemma tell_told: "tell [] m = told [] m" "tell (told x k) m = told (told x k) m"
  by (simp_all add: tell_def told_def)

lemma told_weak: "told x m = told x m" by simp
lemma stmts_weak: "stmts ps = stmts ps" by simp

lemmas test_congs = run_congs stmts_weak told_weak

lemmas test_dels = sem_step.simps some_blocks.simps(2) append.simps append_Cons append_Nil append_assoc

lemmas test_defs = run_defs set_reg_reads kernel_state_reads started_put new_state_def DO_CREATEPROC_def CREATENOGOOD_def sems_differ
  print_def [folded tell_def] tell_told okbufov_def MAXOKBUF_def PAGE_def s_sp_def

text \<open>What is left of a run: the messages, the living processes, the values of the semaphores.\<close>

fun ends_with :: "('w, tvars) outcome \<Rightarrow> (string \<times> nat \<times> wait_list) option" where
  "ends_with (Nothing_ready s) = Some (okbuf (vars (smem s)), length (unused (squeues s)), blocked (squeues s))"
| "ends_with _ = None"

end
