(* ===== verification/Treetest.thy ===== *)
theory Treetest
  imports Testdata
begin


















end
