(* ===== verification/Nuctest.thy ===== *)
theory Nuctest
  imports Testdata
begin

text \<open>
  The test program \<open>src/nucleus/traps/p1.c\<close>: \<open>p2\<close> tries the semaphore operations and the CPU time,
  \<open>p4\<close> the termination of a child blocked on a semaphore, \<open>p5\<close> the passing up of all three
  classes of traps, \<open>p6\<close> and \<open>p7\<close> traps without a trap area, and the processes of \<open>p8root\<close>
  the termination of a tree.
\<close>

section \<open>The processes\<close>

definition p2_at :: int32 where "p2_at = 2"
definition p4_at :: int32 where "p4_at = 3"
definition p5_at :: int32 where "p5_at = 4"
definition p5prog_at :: int32 where "p5prog_at = 6"
definition p5mm_at :: int32 where "p5mm_at = 7"
definition p5sys_at :: int32 where "p5sys_at = 8"
definition p6_at :: int32 where "p6_at = 9"
definition p7_at :: int32 where "p7_at = 10"
definition p8root_at :: int32 where "p8root_at = 11"
definition child1_at :: int32 where "child1_at = 12"
definition child2_at :: int32 where "child2_at = 13"
definition p8leaf_at :: int32 where "p8leaf_at = 14"


text \<open>\<open>DO_CREATEPROC\<close> where the result is not looked at.\<close>

definition create_proc :: "area \<Rightarrow> tprog" where
  "create_proc w = pbind (DO_CREATEPROC w) (\<lambda>_. skip)"

definition p1_states :: tprog where
  "p1_states = stmts
    [new_state p2state p2state (PAGE * 2) p2_at,
     new_state p4state p2state (PAGE div 2) p4_at,
     new_state p5state p4state (PAGE div 2 + PAGE div 2) p5_at,
     new_state p6state p5state PAGE p6_at,
     new_state p7state p6state (PAGE div 2) p7_at,
     new_state p8rootstate p7state (PAGE div 2) p8root_at,
     new_state child1state p8rootstate (PAGE div 2) child1_at,
     new_state child2state child1state (PAGE div 2) child2_at,
     new_state gchild1state child2state (PAGE div 2) p8leaf_at,
     new_state gchild2state gchild1state (PAGE div 2) p8leaf_at,
     new_state gchild3state gchild2state (PAGE div 2) p8leaf_at,
     new_state gchild4state gchild3state (PAGE div 2) p8leaf_at]"

definition p1_round :: "nat \<Rightarrow> tprog" where
  "p1_round i = pseq (modv (\<lambda>g. g\<lparr>p8inc := of_nat i\<rparr>)) (pbind (DO_CREATEPROC p8rootstate) (\<lambda>r2.
     pseq (if r2 = CREATENOGOOD then pseq (print ''error in process termination'') HALT else skip)
       (passeren endp8)))"

definition p1_end :: tprog where
  "p1_end = stmts
    [print ''p1 finishes OK'',
     DIVU 0 skip,
     print ''p1 still alive after progtrap & no trap vector'',
     HALT]"

definition p1 :: tprog where
  "p1 = stmts
    [verhogen testsem,
     print ''p1 v(testsem)'',
     p1_states,
     create_proc p2state,
     print ''p2 was started'',
     SYS3 [(UNLOCK, startp2), (LOCK, endp2)] skip,
     pbind (getv p1p2synch) (\<lambda>x. if x = 0 then print ''p1/p2 synchronization bad'' else skip),
     create_proc p4state,
     create_proc p5state,
     create_proc p6state,
     create_proc p7state,
     passeren endp5,
     print ''p1 knows p5 ended'',
     passeren blkp4,
     pfor [0..<4] p1_round,
     modv (\<lambda>g. g\<lparr>p8inc := 4\<rparr>),
     p1_end]"

text \<open>The clock and CPU readings are compared as unsigned 32-bit numbers; the idle loop of \<open>p2\<close> only takes time.\<close>

definition p2_verdict :: "int32 \<Rightarrow> int32 \<Rightarrow> tprog" where
  "p2_verdict elapsed used = (if used \<le> elapsed \<and> 5000 \<le> used then print ''p2 is OK''
     else stmts
       [if elapsed < used then print ''more cpu time than real time'' else skip,
        if used < 5000 then print ''not enough cpu time went by'' else skip,
        print ''p2 blew it!''])"

definition p2_vp :: "nat \<Rightarrow> tprog" where
  "p2_vp i = stmts
    [verhogen (s_sem i),
     passeren (s_sem i),
     pbind (gets (s_sem i)) (\<lambda>x. if x \<noteq> 0 then print ''p2 bad v/p pairs'' else skip)]"

definition p2_times :: tprog where
  "p2_times = prog.STCK (\<lambda>now1. SYS6 (\<lambda>cpu_t1. SYS6 (\<lambda>cpu_t2. prog.STCK (\<lambda>now2.
     p2_verdict (now2 - now1) (cpu_t2 - cpu_t1)))))"

definition p2_end :: tprog where
  "p2_end = stmts
    [modv (\<lambda>g. g\<lparr>p1p2synch := 1\<rparr>),
     verhogen endp2,
     SYS2,
     print ''p2 didn't terminate'',
     HALT]"

definition p2 :: tprog where
  "p2 = stmts
    [passeren startp2,
     print ''p2 starts'',
     pfor [0..<MAXPROC + 1] (\<lambda>i. puts (s_sem i) 0),
     pfor [0..<MAXPROC + 1] p2_vp,
     print ''p2 v's successfully'',
     p2_times,
     p2_end]"

definition p4_end :: tprog where
  "p4_end = stmts
    [print ''p4 is OK'',
     verhogen endp4,
     SYS2,
     print ''p4 didn't terminate'',
     HALT]"

definition p4 :: tprog where
  "p4 = stmts
    [pbind (getv p4inc) (\<lambda>x.
       if x = 1 then pseq (print ''first incarnation of p4 starts'') (modv (\<lambda>g. g\<lparr>p4inc := p4inc g + 1\<rparr>))
       else if x = 2 then print ''second incarnation of p4 starts''
       else skip),
     verhogen synp4,
     passeren blkp4,
     passeren synp4,
     moda p4state (\<lambda>st. set_reg 15 (s_sp st - PAGE div 2) st),
     create_proc p4state,
     passeren synp4,
     p4_end]"

definition p5_mmtrap :: tprog where
  "p5_mmtrap = STST (\<lambda>st. LDST_state (st\<lparr>s_crp := 0, s_sr := (s_sr st)\<lparr>ps_m := 1\<rparr>\<rparr>))"

definition p5_vectors :: tprog where
  "p5_vectors = SYS5 0 pstat_o pstat_n (SYS5 1 mstat_o mstat_n (SYS5 2 sstat_o sstat_n skip))"

definition p5 :: tprog where
  "p5 = stmts
    [print ''p5 starts'',
     new_state pstat_n pstat_n 60 p5prog_at,
     new_state mstat_n mstat_n 120 p5mm_at,
     new_state sstat_n sstat_n 180 p5sys_at,
     p5_vectors,
     DIVU 0 skip,
     p5_mmtrap]"













section \<open>The run\<close>








end
