(* ===== verification/Inttest.thy ===== *)
theory Inttest
  imports Testdata
begin

text \<open>
  The test program \<open>src/nucleus/interrupts/intp1.c\<close>: the processes of \<open>src/nucleus/traps/p1.c\<close> once more, but they
  print on the line printer, one at a time, and wait for it; \<open>p3\<close> and \<open>p5a\<close> wait for
  the pseudo clock, and \<open>p6\<close> and \<open>p7\<close> print in loops.
\<close>

section \<open>The printer\<close>

definition pr_mut :: addr where "pr_mut = 0x9100"
definition endp3 :: addr where "endp3 = 0x9104"
definition endp6 :: addr where "endp6 = 0x9108"
definition p7v :: addr where "p7v = 0x910c"

lemmas int_semaphores = pr_mut_def endp3_def endp6_def p7v_def clocksem_def devsem_def

lemma int_sems_distinct:
  "distinct [testsem, startp2, endp2, blkp4, synp4, endp4, endp5, endp8, endcreate, blkp8, gchild1sem, gchild2sem, gchild3sem, gchild4sem,
     pr_mut, endp3, endp6, p7v, clocksem, devsem 5]"
  "distinct [devsem 5, clocksem, p7v, endp6, endp3, pr_mut,
     gchild4sem, gchild3sem, gchild2sem, gchild1sem, blkp8, endcreate, endp8, endp5, endp4, synp4, blkp4, endp2, startp2, testsem]"
  by (simp_all add: semaphores int_semaphores)

lemma int_sems_above: "0x9000 \<le> pr_mut" "0x9000 \<le> endp3" "0x9000 \<le> endp6" "0x9000 \<le> p7v"
  by (simp_all add: int_semaphores)

lemma int_sems_below: "clocksem < 0x8000" "devsem 5 < 0x8000"
  by (simp_all add: int_semaphores)

lemmas int_sems_differ = int_sems_distinct [unfolded distinct.simps list.set insert_iff empty_iff de_Morgan_disj simp_thms]
  int_sems_above [THEN s_sem_other(1) [rotated]] int_sems_above [THEN s_sem_other(2) [rotated]]
  int_sems_below [THEN s_sem_other(3) [rotated]] int_sems_below [THEN s_sem_other(4) [rotated]]

text \<open>
  The registers of the printer at \<open>p_devrg\<close>; \<open>p_badd\<close> stands for the characters at the address in the
  register. \<open>paper\<close> is what the printer has printed.
\<close>

record ivars =
  d_amnt :: int32
  p_badd :: string
  p_op :: int32
  paper :: "string list"
  i_p1p2synch :: int32
  i_p8inc :: int32
  i_p4inc :: int32

type_synonym iprog = "(area, ivars) uprog"

definition PRINT0 :: nat where "PRINT0 = 5"
definition iong :: string where "iong = ''i/o no good''"

definition start_io :: "string \<Rightarrow> iprog" where
  "start_io msg = pseq (modv (\<lambda>g. g\<lparr>d_amnt := of_nat (length msg)\<rparr>))
     (pseq (modv (\<lambda>g. g\<lparr>p_badd := msg\<rparr>)) (modv (\<lambda>g. g\<lparr>p_op := IOWRITE\<rparr>)))"

definition print :: "string \<Rightarrow> iprog" where
  "print msg = stmts
    [passeren pr_mut,
     start_io msg,
     SYS8 PRINT0 (\<lambda>(r2, r3). if r3 \<noteq> NORMAL \<or> r2 \<noteq> of_nat (length msg)
       then pseq (start_io iong) (SYS8 PRINT0 (\<lambda>_. skip)) else skip),
     verhogen pr_mut]"


text \<open>\<open>sprintf\<close> of decimal numbers, \<open>%d\<close> and \<open>%7d\<close>.\<close>

fun digits :: "nat \<Rightarrow> string" where
  "digits n = (if n < 10 then [''0123456789'' ! n] else digits (n div 10) @ [''0123456789'' ! (n mod 10)])"

declare digits.simps [simp del]

definition dec :: "int32 \<Rightarrow> string" where
  "dec x = (if sint x < 0 then ''-'' @ digits (nat (- sint x)) else digits (nat (sint x)))"

definition dec7 :: "int32 \<Rightarrow> string" where
  "dec7 x = replicate (7 - length (dec x)) (CHR '' '') @ dec x"

section \<open>The processes\<close>

definition p1a_at :: int32 where "p1a_at = 2"
definition p2_at :: int32 where "p2_at = 3"
definition p3_at :: int32 where "p3_at = 4"
definition p4_at :: int32 where "p4_at = 5"
definition p5_at :: int32 where "p5_at = 6"
definition p5a_at :: int32 where "p5a_at = 7"
definition p5prog_at :: int32 where "p5prog_at = 8"
definition p5mm_at :: int32 where "p5mm_at = 9"
definition p5sys_at :: int32 where "p5sys_at = 10"
definition p6_at :: int32 where "p6_at = 11"
definition p7_at :: int32 where "p7_at = 12"
definition p8root_at :: int32 where "p8root_at = 13"
definition child1_at :: int32 where "child1_at = 14"
definition child2_at :: int32 where "child2_at = 15"
definition gchild1_at :: int32 where "gchild1_at = 16"
definition gchild2_at :: int32 where "gchild2_at = 17"
definition gchild3_at :: int32 where "gchild3_at = 18"
definition gchild4_at :: int32 where "gchild4_at = 19"

lemmas int_entries = p1a_at_def p2_at_def p3_at_def p4_at_def p5_at_def p5a_at_def p5prog_at_def p5mm_at_def p5sys_at_def
  p6_at_def p7_at_def p8root_at_def child1_at_def child2_at_def gchild1_at_def gchild2_at_def gchild3_at_def gchild4_at_def

definition create_proc :: "area \<Rightarrow> iprog" where
  "create_proc w = pbind (DO_CREATEPROC w) (\<lambda>_. skip)"

text \<open>\<open>p1\<close> enables interrupts and goes on as \<open>p1a\<close>.\<close>

definition p1 :: iprog where
  "p1 = STST (\<lambda>st. stmts
    [moda p2state (\<lambda>_. st),
     moda p2state (\<lambda>st. st\<lparr>s_sr := (s_sr st)\<lparr>ps_int := 0\<rparr>\<rparr>),
     moda p2state (set_reg 16 p1a_at),
     LDST_area p2state])"

definition p1_states :: iprog where
  "p1_states = stmts
    [new_state p2state p2state (PAGE * 2) p2_at,
     new_state p3state p2state (PAGE div 2) p3_at,
     new_state p4state p3state (PAGE div 2) p4_at,
     new_state p5state p4state (PAGE div 2 + PAGE div 2) p5_at,
     new_state p6state p5state PAGE p6_at,
     new_state p7state p6state (2 * PAGE) p7_at,
     new_state p8rootstate p7state (2 * PAGE) p8root_at,
     new_state child1state p8rootstate (2 * PAGE) child1_at,
     new_state child2state child1state (PAGE div 2) child2_at,
     new_state gchild1state child2state (PAGE div 2) gchild1_at,
     new_state gchild2state gchild1state (PAGE div 2) gchild2_at,
     new_state gchild3state gchild2state (PAGE div 2) gchild3_at,
     new_state gchild4state gchild3state (PAGE div 2) gchild4_at]"

definition p1_round :: "nat \<Rightarrow> iprog" where
  "p1_round i = stmts
    [modv (\<lambda>g. g\<lparr>i_p8inc := of_nat i\<rparr>),
     if i \<noteq> 0 then moda p8rootstate (\<lambda>st. set_reg 15 (s_sp st - PAGE div 2) st) else skip,
     pbind (DO_CREATEPROC p8rootstate) (\<lambda>r2.
       if r2 = CREATENOGOOD then pseq (print ''error in process termination'') HALT else skip),
     passeren endp8]"

definition p1_end :: iprog where
  "p1_end = stmts
    [passeren endp2,
     pbind (getv i_p1p2synch) (\<lambda>x. if x = 0 then print ''p1/p2 synchronization bad'' else skip),
     passeren endp3,
     passeren endp5,
     print ''p1 knows p5 ended'',
     passeren blkp4,
     passeren endp6,
     print ''p1 finishes OK'',
     DIVU 0 skip,
     print ''p1 still alive after progtrap & no trap vector'',
     HALT]"

definition p1a :: iprog where
  "p1a = stmts
    [verhogen testsem,
     print ''p1 v(testsem)'',
     p1_states,
     create_proc p2state,
     print ''p2 was started'',
     verhogen startp2,
     create_proc p3state,
     print ''p3 is started'',
     create_proc p4state,
     create_proc p5state,
     create_proc p6state,
     create_proc p7state,
     pfor [0..<4] p1_round,
     modv (\<lambda>g. g\<lparr>i_p8inc := 4\<rparr>),
     p1_end]"

definition p2_verdict :: "int32 \<Rightarrow> int32 \<Rightarrow> iprog" where
  "p2_verdict elapsed used = (if used \<le> elapsed \<and> 5000 \<le> used then print ''p2 is OK''
     else stmts
       [if elapsed < used then print ''more cpu time than real time'' else skip,
        if used < 5000 then print ''not enough cpu time went by'' else skip,
        print ''p2 blew it!''])"

definition p2_vp :: "nat \<Rightarrow> iprog" where
  "p2_vp i = stmts
    [verhogen (s_sem i),
     passeren (s_sem i),
     pbind (gets (s_sem i)) (\<lambda>x. if x \<noteq> 0 then print ''p2 bad v/p pairs'' else skip)]"

definition p2_times :: iprog where
  "p2_times = prog.STCK (\<lambda>now1. SYS6 (\<lambda>cpu_t1. SYS6 (\<lambda>cpu_t2. prog.STCK (\<lambda>now2.
     p2_verdict (now2 - now1) (cpu_t2 - cpu_t1)))))"

definition p2_end :: iprog where
  "p2_end = stmts
    [modv (\<lambda>g. g\<lparr>i_p1p2synch := 1\<rparr>),
     verhogen endp2,
     SYS2,
     print ''p2 didn't terminate'',
     HALT]"

definition p2 :: iprog where
  "p2 = stmts
    [passeren startp2,
     print ''p2 starts'',
     pfor [0..<MAXPROC + 1] (\<lambda>i. puts (s_sem i) 0),
     pfor [0..<MAXPROC + 1] p2_vp,
     print ''p2 v's successfully'',
     p2_times,
     p2_end]"

text \<open>
  The loop until a wait for the clock takes at least half of its interval; \<open>n\<close> bounds the
  rounds. A run that used up its 1000 rounds would be \<open>Astray\<close>.
\<close>

definition CLOCKINTERVAL :: int32 where "CLOCKINTERVAL = 100000"

fun wait_long :: "nat \<Rightarrow> int32 \<Rightarrow> int32 \<Rightarrow> iprog" where
  "wait_long 0 time1 time2 = STUCK"
| "wait_long (Suc n) time1 time2 =
     (if sint (time2 - time1) < sint (drop_bit 1 CLOCKINTERVAL)
      then prog.STCK (\<lambda>time1. SYS7 (prog.STCK (\<lambda>time2. wait_long n time1 time2)))
      else skip)"

definition p3_end :: iprog where
  "p3_end = stmts
    [verhogen endp3,
     SYS2,
     print ''p3 didn't terminate'',
     HALT]"

definition p3_cpu :: iprog where
  "p3_cpu = SYS6 (\<lambda>cpu_t1. pseq (pfor [0..<10] (\<lambda>_. SYS7 skip)) (SYS6 (\<lambda>cpu_t2.
     if cpu_t2 - cpu_t1 < 1000 then print ''p3 - CPU time incorrectly maintained''
     else print ''p3 - CPU time correctly maintained'')))"

definition p3 :: iprog where
  "p3 = stmts
    [wait_long 1000 0 0,
     print ''p3 - WAITCLOCK OK'',
     p3_cpu,
     p3_end]"

definition p4_end :: iprog where
  "p4_end = stmts
    [print ''p4 is OK'',
     verhogen endp4,
     SYS2,
     print ''p4 didn't terminate'',
     HALT]"

definition p4 :: iprog where
  "p4 = stmts
    [pbind (getv i_p4inc) (\<lambda>x.
       if x = 1 then pseq (print ''first incarnation of p4 starts'') (modv (\<lambda>g. g\<lparr>i_p4inc := i_p4inc g + 1\<rparr>))
       else if x = 2 then print ''second incarnation of p4 starts''
       else skip),
     verhogen synp4,
     passeren blkp4,
     passeren synp4,
     moda p4state (\<lambda>st. set_reg 15 (s_sp st - PAGE div 2) st),
     create_proc p4state,
     passeren synp4,
     p4_end]"

definition p5_mmtrap :: iprog where
  "p5_mmtrap = STST (\<lambda>st. LDST_state (st\<lparr>s_crp := 0, s_sr := (s_sr st)\<lparr>ps_m := 1\<rparr>\<rparr>))"

definition p5_vectors :: iprog where
  "p5_vectors = SYS5 0 pstat_o pstat_n (SYS5 1 mstat_o mstat_n (SYS5 2 sstat_o sstat_n skip))"

definition p5 :: iprog where
  "p5 = stmts
    [print ''p5 starts'',
     new_state pstat_n pstat_n 60 p5prog_at,
     new_state mstat_n mstat_n 120 p5mm_at,
     new_state sstat_n sstat_n 180 p5sys_at,
     p5_vectors,
     DIVU 0 skip,
     p5_mmtrap]"

definition p5a_end :: iprog where
  "p5a_end = stmts
    [verhogen blkp4,
     verhogen endp5,
     SYS5 0 pstat_o pstat_n skip,
     print ''p5 didn't terminate'',
     HALT]"

definition p5a :: iprog where
  "p5a = stmts
    [SYS9 skip,
     passeren endp4,
     wait_long 1000 0 0,
     p5a_end]"

definition p5prog :: iprog where
  "p5prog = stmts
    [pbind (geta pstat_o) (\<lambda>st.
       if pr_typ (s_tmp st) = ZERODIVIDE then pseq (print ''divide by zero'') (moda pstat_o (set_reg 3 1))
       else if pr_typ (s_tmp st) = PRIVILEGE
       then pseq (print ''privileged instruction'')
         (moda pstat_o (\<lambda>st. set_reg 16 p5a_at (st\<lparr>s_sr := (s_sr st)\<lparr>ps_s := 1\<rparr>\<rparr>)))
       else print ''other program trap''),
     LDST_area pstat_o]"

definition p5mm :: iprog where
  "p5mm = stmts
    [print ''memory management trap'',
     moda mstat_o (\<lambda>st. set_reg 16 p5a_at (st\<lparr>s_sr := (s_sr st)\<lparr>ps_m := 0, ps_s := 0\<rparr>\<rparr>)),
     LDST_area mstat_o]"

definition p5sys :: iprog where
  "p5sys = stmts
    [pbind (geta sstat_o) (\<lambda>st.
       if ps_s (s_sr st) = 0 then print ''high level SYS call from user mode process''
       else print ''high level SYS call from kernel mode process''),
     LDST_area sstat_o]"

definition p6_message :: "nat \<Rightarrow> int32 \<Rightarrow> int32 \<Rightarrow> string" where
  "p6_message i p6systemtime p6cputime =
     ''p6  iteration: '' @ dec (of_nat i) @ '' , system time '' @ dec7 p6systemtime @ '' , cpu-time '' @ dec7 p6cputime"

definition p6_round :: "nat \<Rightarrow> iprog" where
  "p6_round i = SYS6 (\<lambda>p6cputime. prog.STCK (\<lambda>p6systemtime. print (p6_message i p6systemtime p6cputime)))"

definition p6_end :: iprog where
  "p6_end = stmts
    [SYS9 skip,
     print ''p6 still alive after SYS9() without specifying trap vector'',
     HALT]"

definition p6 :: iprog where
  "p6 = stmts
    [print ''p6 starts'',
     pfor [0..<7] p6_round,
     verhogen endp6,
     p6_end]"

text \<open>The loop of \<open>p7\<close> ends after ten rounds, which its own V operations count.\<close>

definition p7_message :: "int32 \<Rightarrow> string" where
  "p7_message x = ''p7: '' @ dec x @ '' ''"

fun p7_loop :: "nat \<Rightarrow> iprog" where
  "p7_loop 0 = STUCK"
| "p7_loop (Suc n) = pbind (gets p7v) (\<lambda>x. if sint x < 10
     then pbind (gets p7v) (\<lambda>x. stmts [print (p7_message x), verhogen p7v, p7_loop n])
     else skip)"

definition p7_end :: iprog where
  "p7_end = stmts
    [DIVU 0 skip,
     print ''p7 still alive after program trap with no trap vector'',
     HALT]"

definition p7 :: iprog where
  "p7 = stmts
    [print ''p7 starts'',
     p7_loop 11,
     p7_end]"

definition p8root :: iprog where
  "p8root = stmts
    [print ''p8root starts'',
     create_proc child1state,
     create_proc child2state,
     SYS3 [(LOCK, gchild1sem), (LOCK, gchild2sem), (LOCK, gchild3sem), (LOCK, gchild4sem)] skip,
     verhogen endp8,
     SYS2]"

definition child1 :: iprog where
  "child1 = stmts [print ''child1 starts'', create_proc gchild1state, create_proc gchild2state, passeren blkp8]"

definition child2 :: iprog where
  "child2 = stmts [print ''child2 starts'', create_proc gchild3state, create_proc gchild4state, passeren blkp8]"

definition gchild1 :: iprog where
  "gchild1 = stmts [print ''gchild1 starts'', verhogen gchild1sem, passeren blkp8]"

definition gchild2 :: iprog where
  "gchild2 = stmts [print ''gchild2 starts'', verhogen gchild2sem, passeren blkp8]"

definition gchild3 :: iprog where
  "gchild3 = stmts [print ''gchild3 starts'', verhogen gchild3sem, passeren blkp8]"

definition gchild4 :: iprog where
  "gchild4 = stmts [print ''gchild4 starts'', verhogen gchild4sem, passeren blkp8]"

definition code :: "int32 \<Rightarrow> iprog" where
  "code pc = (case map_of [(1, p1), (p1a_at, p1a), (p2_at, p2), (p3_at, p3), (p4_at, p4), (p5_at, p5), (p5a_at, p5a),
     (p5prog_at, p5prog), (p5mm_at, p5mm), (p5sys_at, p5sys), (p6_at, p6), (p7_at, p7), (p8root_at, p8root),
     (child1_at, child1), (child2_at, child2), (gchild1_at, gchild1), (gchild2_at, gchild2), (gchild3_at, gchild3),
     (gchild4_at, gchild4)] pc of None \<Rightarrow> STUCK | Some c \<Rightarrow> c)"

section \<open>The run\<close>

definition int_started :: "iprog \<Rightarrow> int32 list \<Rightarrow> int32 list \<Rightarrow> (area, ivars) system" where
  "int_started c ts cs =
     \<lparr>smem = \<lparr>sems = (\<lambda>_. 0)(blkp4 := 1, pr_mut := 1), areas = (\<lambda>_. kernel_state 0),
        vars = \<lparr>d_amnt = 0, p_badd = [], p_op = 0, paper = [], i_p1p2synch = 0, i_p8inc = 0, i_p4inc = 1\<rparr>\<rparr>,
      squeues = \<lparr>ready = [0], blocked = [], unused = [1, 2, 3, 4, 5, 6, 7, 8, 9, 10, 11, 12, 13, 14, 15, 16, 17, 18, 19]\<rparr>,
      stree = Some (PNode 0 []),
      sproc = (\<lambda>_. \<lparr>cont = STUCK, pst = kernel_state 0, vecs = (\<lambda>_. None)\<rparr>)
        (0 := \<lparr>cont = c, pst = kernel_state 1, vecs = (\<lambda>_. None)\<rparr>),
      saved = (\<lambda>_. STUCK), time = ts, cputime = cs\<rparr>"

lemma int_started_put:
  "int_started c ts cs =
     \<lparr>smem = \<lparr>sems = put (put (always 0) blkp4 1) pr_mut 1, areas = always (kernel_state 0),
        vars = \<lparr>d_amnt = 0, p_badd = [], p_op = 0, paper = [], i_p1p2synch = 0, i_p8inc = 0, i_p4inc = 1\<rparr>\<rparr>,
      squeues = \<lparr>ready = [0], blocked = [], unused = [1, 2, 3, 4, 5, 6, 7, 8, 9, 10, 11, 12, 13, 14, 15, 16, 17, 18, 19]\<rparr>,
      stree = Some (PNode 0 []),
      sproc = put (always \<lparr>cont = STUCK, pst = kernel_state 0, vecs = always None\<rparr>)
        0 \<lparr>cont = c, pst = kernel_state 1, vecs = always None\<rparr>,
      saved = always STUCK, time = ts, cputime = cs\<rparr>"
  by (simp add: int_started_def put_def always_def)

lemma int_code_at:
  "code 1 = p1" "code 2 = p1a" "code 3 = p2" "code 4 = p3" "code 5 = p4" "code 6 = p5" "code 7 = p5a" "code 8 = p5prog"
  "code 9 = p5mm" "code 10 = p5sys" "code 11 = p6" "code 12 = p7" "code 13 = p8root" "code 14 = child1" "code 15 = child2"
  "code 16 = gchild1" "code 17 = gchild2" "code 18 = gchild3" "code 19 = gchild4"
  by (simp_all add: code_def int_entries)

lemma int_rounds: "[0..<4] = [0, 1, 2, 3]" "[0..<7] = [0, 1, 2, 3, 4, 5, 6]" "[0..<10] = [0, 1, 2, 3, 4, 5, 6, 7, 8, 9]"
  "[0..<21] = [0, 1, 2, 3, 4, 5, 6, 7, 8, 9, 10, 11, 12, 13, 14, 15, 16, 17, 18, 19, 20]"
  by (simp_all add: upt_rec)


lemma numeral_loops:
  "wait_long (numeral v) a b =
     (if sint (b - a) < sint (drop_bit 1 CLOCKINTERVAL)
      then prog.STCK (\<lambda>time1. SYS7 (prog.STCK (\<lambda>time2. wait_long (pred_numeral v) time1 time2)))
      else skip)"
  "p7_loop (numeral v) = pbind (gets p7v) (\<lambda>x. if sint x < 10
     then pbind (gets p7v) (\<lambda>x. stmts [print (p7_message x), verhogen p7v, p7_loop (pred_numeral v)])
     else skip)"
  "p7_loop (Suc 0) = pbind (gets p7v) (\<lambda>x. if sint x < 10
     then pbind (gets p7v) (\<lambda>x. stmts [print (p7_message x), verhogen p7v, p7_loop 0])
     else skip)"
  by (simp_all add: numeral_eq_Suc)

lemmas int_dels = test_dels wait_long.simps p7_loop.simps

lemmas int_defs = int_sems_differ test_defs int_started_put int_code_at int_rounds int_entries numeral_loops print_def start_io_def
  PRINT0_def p1_def p1a_def p1_states_def p1_round_def p1_end_def create_proc_def p2_def p2_verdict_def p2_vp_def p2_times_def
  p2_end_def p3_def p3_cpu_def p3_end_def CLOCKINTERVAL_def p4_def p4_end_def p5_def p5_mmtrap_def p5_vectors_def p5a_def
  p5a_end_def p5prog_def p5mm_def p5sys_def p6_def p6_round_def p6_end_def p7_def p7_end_def p8root_def child1_def child2_def
  gchild1_def gchild2_def gchild3_def gchild4_def pr_typ_def ZERODIVIDE_def PRIVILEGE_def RESUME_def NORMAL_def IOWRITE_def
  append.simps [where ?'a = "char list"]

text \<open>What is left of a run: the printed lines, the semaphore of the printer, the number of free process
  entries, the blocked processes.\<close>

fun printed :: "('w, ivars) outcome \<Rightarrow> (string list \<times> int32 \<times> nat \<times> wait_list) option" where
  "printed (Nothing_ready s) = Some (paper (vars (smem s)), sems (smem s) pr_mut, length (unused (squeues s)), blocked (squeues s))"
| "printed _ = None"




text \<open>A printer that answers every request with length and status \<open>r\<close>.\<close>

definition printer_says :: "int32 \<times> int32 \<Rightarrow> nat \<Rightarrow> ivars \<Rightarrow> ((int32 \<times> int32) \<times> ivars) option" where
  "printer_says r d g = (if d = PRINT0 then Some (r, g\<lparr>paper := paper g @ [p_badd g]\<rparr>) else None)"

text \<open>C39: \<open>print\<close> looks at what the printer reports: when the status is not \<open>NORMAL\<close> or the number of characters is
  not that of the message, it prints ``i/o no good'' after it, and else nothing more. It
  releases the printer in both cases and never waits for ever.\<close>

theorem print_checks_printer:
  "printed (runs_io (printer_says r) PRINT0 code 20 (int_started (pseq (print msg) SYS2) [] [])) =
     Some (msg # (if r = (of_nat (length msg), NORMAL) then [] else [iong]), 1, 20, [])"
  apply (cases r; cases "r = (of_nat (length msg), NORMAL)")
   apply (simp_all add: int_defs printer_says_def cong: test_congs del: int_dels)
  apply blast
  done

end
