(* ===== verification/Simulation.thy ===== *)
theory Simulation
  imports System Nucleus_Properties
begin

text \<open>
  The steps of theory \<open>System\<close> and the handlers of \<open>src/nucleus/traps/syscall.c\<close>: a state of the nucleus agrees
  with a system when it has the nucleus invariant for the system's queues and family tree
  and holds the same semaphores. The handlers of SYS1, SYS2, SYS3, SYS7 and SYS8 and of the interrupts (\<open>src/nucleus/interrupts/int.c\<close>)
  keep the agreement with the steps of the system, so that what the test programs show of the
  latter they show of the code.
\<close>

section \<open>Processes and semaphores\<close>

definition agrees :: "kstate \<Rightarrow> ('w, 'g) system \<Rightarrow> bool" where
  "agrees s S \<longleftrightarrow> nuc_ok s (squeues S) (stree S) \<and> heap_int s = sems (smem S)"

definition vpops :: "addr semop list \<Rightarrow> vpop list" where
  "vpops ops = map (\<lambda>(opr, a). \<lparr>vp_op = opr, vp_sem = a\<rparr>) ops"

lemma agrees_tree:
  assumes "agrees s S" "ready (squeues S) = c # cs"
  obtains T where "stree S = Some T" "nuc_ok s (squeues S) (Some T)" "distinct (procs T)"
proof (cases "stree S")
  case None
  with assms have n: "nuc_ok s (squeues S) None" by (simp add: agrees_def)
  note ok = nuc_okD(1,2,3,5) [OF n]
  have "c < 20" "c \<notin> set (unused (squeues S))" using head_alone [OF ok(1,2) assms(2)] by auto
  then show ?thesis using ok(3) by (auto simp: fam_ok_def)
next
  case (Some T)
  with assms(1) show ?thesis by (intro that [OF Some]) (auto simp: agrees_def nuc_ok_def fam_ok_def)
qed

lemma kill_agrees:
  assumes a: "agrees s S" and ne: "ready (squeues S) = c # cs"
  shows "\<exists>s'. Terminate_Process s = schedule s' \<and> agrees s' (kill c S)"
proof -
  from agrees_tree [OF a ne] obtain T where T: "stree S = Some T" "nuc_ok s (squeues S) (Some T)" "distinct (procs T)" .
  from Terminate_ok [OF T(2) ne] obtain t s' where s': "Terminate_Process s = schedule s'" "t \<in> set (subs T)" "root t = c"
    "killed s (squeues S) (procs t) s'"
    "nuc_ok s' (kill_q (procs t) (squeues S)) (if c = root T then None else Some (pruned c T))" by blast
  have "below c T = procs t" using below_sub [OF T(3) s'(2)] s'(3) by simp
  with s' a show ?thesis by (intro exI [of _ s']) (auto simp: agrees_def kill_def Let_def T(1) killed_def)
qed

lemma create_agrees:
  assumes a: "agrees s S" and ne: "ready (squeues S) = c # cs" and st: "st = heap_state s (s_r (heap_state s old) 4)"
  shows "\<exists>s'. Create_Process old s = Ok s' \<and> agrees s' (create code c st h S)
    \<and> cont (sproc (create code c st h S) c) = h (s_r (heap_state s' old) 2)
    \<and> (\<forall>n ns. unused (squeues S) = n # ns \<longrightarrow> pst (sproc (create code c st h S) n) = p_s (proc_table s' n))"
proof (cases "unused (squeues S)")
  case Nil
  let ?s' = "set_state old (set_reg 2 (- 1) (heap_state s old)) s"
  have n: "nuc_ok s (squeues S) (stree S)" using a by (simp add: agrees_def)
  have "Create_Process old s = Ok ?s'" by (rule Create_none [OF nuc_okD(1) [OF n] Nil]) (simp add: ne)
  moreover have "nuc_ok ?s' (squeues S) (stree S)"
    by (rule nuc_ok_same [OF n]) (simp_all add: same_queues_def same_family_def same_env_def)
  ultimately show ?thesis using a Nil
    by (intro exI [of _ ?s']) (simp add: agrees_def create_def set_cont_def Let_def set_reg_def)
next
  case (Cons n ns)
  from agrees_tree [OF a ne] obtain T where T: "stree S = Some T" "nuc_ok s (squeues S) (Some T)" .
  from Create_ok [OF T(2) ne Cons, of old] obtain s' where s': "Create_Process old s = Ok s'"
    "nuc_ok s' ((squeues S)\<lparr>unused := ns, ready := ready (squeues S) @ [n]\<rparr>) (Some (adopted c n T))"
    "p_s (proc_table s' n) = st" "heap_state s' = (heap_state s)(old := set_reg 2 0 (heap_state s old))"
    "heap_int s' = heap_int s" unfolding st by blast
  then show ?thesis using a Cons T(1)
    by (intro exI [of _ s']) (auto simp: agrees_def create_def set_cont_def load_def Let_def set_reg_def)
qed

lemma semops_agrees:
  assumes a: "agrees s S" and ne: "ready (squeues S) = c # cs"
    and v: "sem_args s old = vpops ops" and g: "sem_guard s (squeues S) c (vpops ops)"
  shows "\<exists>s'. Sem_OP old s = (if some_blocks (vpops ops) (heap_int s) then schedule s' else Ok s')
    \<and> agrees s' (semops c ops S)"
proof -
  have n: "nuc_ok s (squeues S) (stree S)" and h: "heap_int s = sems (smem S)" using a by (simp_all add: agrees_def)
  obtain h' Q' where f: "fold (sem_step c) (vpops ops) (heap_int s, squeues S) = (h', Q')" by fastforce
  from Sem_OP_ok [OF n ne, of old h' Q'] g f v obtain s' where s': "heap_int s' = h'"
    "if some_blocks (vpops ops) (heap_int s)
     then Sem_OP old s = schedule s' \<and> nuc_ok s' (Q'\<lparr>ready := tl (ready Q')\<rparr>) (stree S) \<and> p_s (proc_table s' c) = heap_state s old
     else Sem_OP old s = Ok s' \<and> nuc_ok s' Q' (stree S)" by auto
  have "semops c ops S = S\<lparr>smem := (smem S)\<lparr>sems := h'\<rparr>,
      squeues := (if some_blocks (vpops ops) (heap_int s) then Q'\<lparr>ready := tl (ready Q')\<rparr> else Q')\<rparr>"
    using f by (simp add: semops_def Let_def vpops_def h)
  with s' show ?thesis by (intro exI [of _ s']) (auto simp: agrees_def split: if_splits)
qed

text \<open>C7: The programs of theory \<open>System\<close> run on the nucleus: in a state that agrees with a system whose process
  \<open>c\<close> is at the head of the ready queue, SYS2 goes to the dispatcher in a state that agrees with the system without
  \<open>c\<close> and its progeny; SYS1 returns in one that agrees with the system with a new child of \<open>c\<close>, which
  gets the state given, or, when no entry is free, with the unchanged system, and the value in D2 is the one
  \<open>c\<close> goes on with; and SYS3 goes to the dispatcher or returns in one that agrees with the system after the
  operations of its vector.\<close>

theorem calls_agree:
  assumes "agrees s S" "ready (squeues S) = c # cs"
  shows "(\<exists>s'. Terminate_Process s = schedule s' \<and> agrees s' (kill c S))
    \<and> (let S' = create code c (heap_state s (s_r (heap_state s old) 4)) h S in
       \<exists>s'. Create_Process old s = Ok s' \<and> agrees s' S' \<and> cont (sproc S' c) = h (s_r (heap_state s' old) 2)
         \<and> (\<forall>n ns. unused (squeues S) = n # ns \<longrightarrow> pst (sproc S' n) = p_s (proc_table s' n)))
    \<and> (sem_args s old = vpops ops \<and> sem_guard s (squeues S) c (vpops ops) \<longrightarrow>
       (\<exists>s'. Sem_OP old s = (if some_blocks (vpops ops) (heap_int s) then schedule s' else Ok s')
         \<and> agrees s' (semops c ops S)))"
  using kill_agrees [OF assms] create_agrees [OF assms refl, of old code h] semops_agrees [OF assms, of old ops]
  by (simp add: Let_def)

text \<open>The first process is about to do a P on a semaphore of its own.\<close>

definition call0 :: kstate where
  "call0 = with_memory (\<lambda>_. set_reg 3 1 (set_reg 4 0x7000 blank_state)) (\<lambda>_. \<lparr>vp_op = LOCK, vp_sem = 0x7100\<rparr>) boot0"

definition call_system :: "(unit, unit) system" where
  "call_system = \<lparr>smem = \<lparr>sems = heap_int call0, areas = (\<lambda>_. blank_state), vars = ()\<rparr>, squeues = boot_queues,
     stree = Some (PNode 0 []), sproc = (\<lambda>_. \<lparr>cont = SYS2, pst = blank_state, vecs = (\<lambda>_. None)\<rparr>),
     saved = (\<lambda>_. SYS2), time = [], cputime = []\<rparr>"

lemma call0:
  "agrees call0 call_system" "ready (squeues call_system) = 0 # []"
  "sem_args call0 old_sys_call_state = vpops [(LOCK, 0x7100)]" "sem_guard call0 (squeues call_system) 0 (vpops [(LOCK, 0x7100)])"
proof -
  have "list_all (\<lambda>i. dev_sem blank i \<noteq> 0x7100) [0..<15]" by (simp add: dev_sem_def upt_rec)
  then have "\<forall>i < 15. dev_sem blank i \<noteq> 0x7100" by (simp add: list_all_iff del: upt_rec_numeral)
  then have "0x7100 \<notin> nuc_sems blank" by (auto simp: nuc_sems_def)
  moreover have "same_env blank call0" using boot0(3) by (simp add: same_env_def call0_def with_memory_def)
  ultimately have o: "0x7100 \<notin> nuc_sems call0" using nuc_sems_env by blast
  show "agrees call0 call_system"
    using with_memory_ok [OF boot0(2)] by (simp add: agrees_def call_system_def call0_def)
  show "ready (squeues call_system) = 0 # []" by (simp add: call_system_def boot_queues_def)
  show "sem_args call0 old_sys_call_state = vpops [(LOCK, 0x7100)]"
    by (simp add: sem_args_def call0_def with_memory_def set_reg_def vpops_def)
  show "sem_guard call0 (squeues call_system) 0 (vpops [(LOCK, 0x7100)])"
    using o by (simp add: sem_guard_def vpops_def call_system_def sem_pre_def boot_queues_def occupied_def)
qed

theorem calls_agree_witness:
  "(\<exists>s'. Terminate_Process call0 = schedule s' \<and> agrees s' (kill 0 call_system))
    \<and> (\<exists>s'. Sem_OP old_sys_call_state call0 =
         (if some_blocks (vpops [(LOCK, 0x7100)]) (heap_int call0) then schedule s' else Ok s')
       \<and> agrees s' (semops 0 [(LOCK, 0x7100)] call_system))"
  using calls_agree [OF call0(1,2), of "\<lambda>_. SYS2" old_sys_call_state "\<lambda>_. SYS2" "[(LOCK, 0x7100)]"] call0(3,4) by blast

section \<open>The clock and the devices\<close>

lemma semops_P:
  assumes "ready (squeues S) = c # cs"
  shows "semops c [(LOCK, a)] S = S\<lparr>smem := (smem S)\<lparr>sems := (sems (smem S))(a := sems (smem S) a - 1)\<rparr>,
    squeues := (if sint (sems (smem S) a - 1) < 0 then block_head a (squeues S) else squeues S)\<rparr>"
  using assms by (simp add: semops_def Let_def block_head_def)

lemma V_sem_negative:
  assumes "sint (sems (smem S) a) < 0"
  shows "V_sem a S = S\<lparr>smem := (smem S)\<lparr>sems := (sems (smem S))(a := sems (smem S) a + 1)\<rparr>, squeues := wake a (squeues S)\<rparr>"
  using assms by (simp add: V_sem_def Let_def UNLOCK_def LOCK_def)

lemma pclock_agrees:
  assumes a: "agrees s S" and ne: "ready (squeues S) = c # cs" and cl: "clock_lock_at s = clocksem"
    and room: "\<not> asl_full (squeues S) clocksem"
  shows "\<exists>s'. waitforpclock old s = (if sint (heap_int s clocksem - 1) < 0 then schedule s' else Ok s')
    \<and> agrees s' (semops c [(LOCK, clocksem)] S)"
proof -
  have n: "nuc_ok s (squeues S) (stree S)" and h: "heap_int s = sems (smem S)" using a by (simp_all add: agrees_def)
  from waitforpclock_ok [OF n ne, of old] room obtain s' where
    s': "heap_int s' = (heap_int s)(clocksem := heap_int s clocksem - 1)"
      "if sint (heap_int s clocksem - 1) < 0
       then waitforpclock old s = schedule s' \<and> nuc_ok s' (block_head clocksem (squeues S)) (stree S)
       else waitforpclock old s = Ok s' \<and> nuc_ok s' (squeues S) (stree S)" unfolding cl by blast
  then show ?thesis unfolding semops_P [OF ne] agrees_def h
    by (intro exI [of _ s']) (simp split: if_splits)
qed

lemma io_agrees:
  assumes a: "agrees s S" and ne: "ready (squeues S) = c # cs" and d: "s_r (heap_state s old) 4 = of_nat d" "d < 15"
    and da: "dev_sem s d = devsem d" and v: "sems (smem S) (devsem d) = 0" and room: "\<not> asl_full (squeues S) (devsem d)"
  shows "\<exists>s'. waitforio old s = schedule s' \<and> agrees s' (semops c [(LOCK, devsem d)] S)"
proof -
  have n: "nuc_ok s (squeues S) (stree S)" and h: "heap_int s = sems (smem S)" using a by (simp_all add: agrees_def)
  from waitforio_waits_ok [OF n ne d] room v obtain s' where "waitforio old s = schedule s'"
    "nuc_ok s' (block_head (devsem d) (squeues S)) (stree S)" "heap_int s' = (sems (smem S))(devsem d := - 1)"
    unfolding da h by auto
  then show ?thesis unfolding semops_P [OF ne] agrees_def by (intro exI [of _ s']) (simp add: v)
qed

lemma tick_agrees:
  assumes a: "agrees s S" and e: "ready (squeues S) = []" and cl: "clock_lock_at s = clocksem" and due: "clock_due s"
    and t: "tick S = Some S'"
  shows "\<exists>s'. intclockhandler s = schedule s' \<and> agrees s' S'"
proof -
  have n: "nuc_ok s (squeues S) (stree S)" and h: "heap_int s = sems (smem S)" using a by (simp_all add: agrees_def)
  have w: "wait_of (blocked (squeues S)) clocksem \<noteq> []" and S': "S' = V_sem clocksem S"
    using t by (auto simp: tick_def split: if_splits)
  have "clocksem \<in> nuc_sems s" by (simp add: nuc_sems_def cl)
  from nuc_okD(7) [OF n this] w have neg: "sint (sems (smem S) clocksem) < 0" by (auto simp: sem_ok_def h split: if_splits)
  from clock_ok [OF n] w due e cl h show ?thesis
    by (auto simp: agrees_def S' V_sem_negative [OF neg] after_tick_def rotate_ready_def clock_waits_def)
qed

lemma device_agrees:
  assumes a: "agrees s S" and d: "dev_pos type dev = int d" "d < 15" and da: "dev_sem s d = devsem d"
    and v: "sems (smem S) (devsem d) = - 1"
    and t: "complete (\<lambda>_ g. Some ((d_dadd (devreg s d), d_stat (devreg s d)), f g)) d S = Some S'"
  shows "\<exists>s' p h. inthandler type dev s = Ok s' \<and> agrees s' S' \<and> wait_of (blocked (squeues S)) (devsem d) = [p]
    \<and> cont (sproc S p) = SYS8 d h
    \<and> cont (sproc S' p) = h (s_r (p_s (proc_table s' p)) 2, s_r (p_s (proc_table s' p)) 3)"
proof -
  have n: "nuc_ok s (squeues S) (stree S)" and h: "heap_int s = sems (smem S)" using a by (simp_all add: agrees_def)
  from inthandler_wakes_ok [OF n d] v da h obtain s' p where s': "inthandler type dev s = Ok s'"
    "nuc_ok s' (wake (devsem d) (squeues S)) (stree S)" "heap_int s' = (sems (smem S))(devsem d := 0)"
    "wait_of (blocked (squeues S)) (devsem d) = [p]"
    "p_s (proc_table s' p) = set_reg 3 (d_stat (devreg s d)) (set_reg 2 (d_dadd (devreg s d)) (p_s (proc_table s p)))" by auto
  let ?S = "S\<lparr>smem := (smem S)\<lparr>vars := f (vars (smem S))\<rparr>\<rparr>" and ?r = "(d_dadd (devreg s d), d_stat (devreg s d))"
  obtain k where k: "cont (sproc S p) = SYS8 d k" "S' = V_sem (devsem d) (set_cont p (k ?r) ?S)"
    using t s'(4) by (auto simp: complete_def answers_def split: prog.splits if_splits)
  have "sint (sems (smem (set_cont p (k ?r) ?S)) (devsem d)) < 0" by (simp add: set_cont_def v)
  note V = k(2) [unfolded V_sem_negative [OF this]]
  have "agrees s' S'" using s'(2,3) v by (simp add: agrees_def V set_cont_def)
  moreover have "cont (sproc S' p) = k ?r" by (simp add: V set_cont_def)
  ultimately show ?thesis using s'(1,4,5) k(1) by (intro exI [of _ s'] exI [of _ p] exI [of _ k]) (simp add: set_reg_def)
qed

text \<open>C8: So do waiting and being interrupted: in agreeing states, with the semaphores of the clock and the devices
  where the system has them, SYS7 and SYS8 do what the system's P operations do; a clock interrupt
  that is due while no process is ready is a tick of the system; and the interrupt of a device for which a
  process waits is the system's completion, in which the process goes on with the length and the status
  that the handler has put into its D2 and D3.\<close>

theorem interrupts_agree:
  assumes "agrees s S" "clock_lock_at s = clocksem" "dev_sem s d = devsem d" "d < 15"
  shows "(ready (squeues S) = c # cs \<and> \<not> asl_full (squeues S) clocksem \<longrightarrow>
       (\<exists>s'. waitforpclock old s = (if sint (heap_int s clocksem - 1) < 0 then schedule s' else Ok s')
         \<and> agrees s' (semops c [(LOCK, clocksem)] S)))
    \<and> (ready (squeues S) = c # cs \<and> s_r (heap_state s old) 4 = of_nat d \<and> sems (smem S) (devsem d) = 0
         \<and> \<not> asl_full (squeues S) (devsem d) \<longrightarrow>
       (\<exists>s'. waitforio old s = schedule s' \<and> agrees s' (semops c [(LOCK, devsem d)] S)))
    \<and> (ready (squeues S) = [] \<and> clock_due s \<and> tick S = Some S' \<longrightarrow> (\<exists>s'. intclockhandler s = schedule s' \<and> agrees s' S'))
    \<and> (dev_pos type dev = int d \<and> sems (smem S) (devsem d) = - 1
         \<and> complete (\<lambda>_ g. Some ((d_dadd (devreg s d), d_stat (devreg s d)), f g)) d S = Some S' \<longrightarrow>
       (\<exists>s' p h. inthandler type dev s = Ok s' \<and> agrees s' S' \<and> wait_of (blocked (squeues S)) (devsem d) = [p]
         \<and> cont (sproc S p) = SYS8 d h
         \<and> cont (sproc S' p) = h (s_r (p_s (proc_table s' p)) 2, s_r (p_s (proc_table s' p)) 3)))"
  using pclock_agrees [OF assms(1) _ assms(2), of c cs old] io_agrees [OF assms(1) _ _ assms(4,3), of c cs old]
    tick_agrees [OF assms(1) _ assms(2), of S'] device_agrees [OF assms(1) _ assms(4,3), of type dev f S']
  by (intro conjI) blast+

definition dev_system :: "(unit, unit) system" where
  "dev_system = call_system\<lparr>smem := (smem call_system)\<lparr>sems := heap_int dev0\<rparr>\<rparr>"

theorem interrupts_agree_witness:
  "\<exists>s'. waitforio old_sys_call_state dev0 = schedule s' \<and> agrees s' (semops 0 [(LOCK, devsem 5)] dev_system)"
proof -
  have e: "same_env blank dev0" using boot0(3) by (simp add: same_env_def dev0_def with_memory_def)
  then have "clock_lock_at dev0 = clocksem" "dev_sem dev0 5 = devsem 5"
    by (simp_all add: same_env_def dev_sem_def devsem_def clocksem_def)
  moreover have "agrees dev0 dev_system" using dev0(1) by (simp add: agrees_def dev_system_def call_system_def)
  moreover have "ready (squeues dev_system) = 0 # []" "\<not> asl_full (squeues dev_system) (devsem 5)"
    by (simp_all add: dev_system_def call_system_def boot_queues_def asl_full_def)
  moreover have "sems (smem dev_system) (devsem 5) = 0" using dev0(2) calculation(2) by (simp add: dev_system_def)
  ultimately show ?thesis
    using interrupts_agree [of dev0 dev_system 5 0 "[]" old_sys_call_state] dev0(3) by simp
qed

end
