(* ===== verification/Spec2Isabelle.thy ===== *)
theory Spec2Isabelle
  imports Nucleus_Properties Queue_Properties Init_Properties Handler_Properties Queuetests Treetest Nuctest Inttest Simulation
begin

text \<open>
  \<^bold>\<open>HOCA: a nucleus and support level for a 68000 machine\<close>

  The program is a small operating system. The \<^emph>\<open>queue modules\<close> (\<open>src/queues/procq.c\<close>,
  \<open>src/queues/asl.c\<close>) keep twenty process entries, each of which can be in up to ten queues, and the
  list of the semaphores on which processes wait. The \<^emph>\<open>nucleus\<close> (\<open>src/nucleus/traps\<close>,
  \<open>src/nucleus/interrupts/int.c\<close>) has the ready queue, the system calls SYS1 to SYS8, the trap and
  interrupt handlers and the dispatcher; it calls the queue modules and nothing else. The \<^emph>\<open>support
  level\<close> (\<open>src/support\<close>) consists of processes above the nucleus: it gives up to five
  terminal processes virtual memory, virtual semaphores and the calls SYS9 to SYS17, and it
  reaches the nucleus by system calls only. The \<^emph>\<open>test programs\<close> exercise the queue modules
  and the nucleus.

  \<^bold>\<open>Basis.\<close>
  \<^item> \<open>Prelude\<close>: results of nucleus code (a value, or an exit that never returns: a state is
    loaded, the machine sleeps, halts, panics, uses an invalid address or loops), list segments.
  \<^item> \<open>Interfaces\<close>: the contracts as locales. \<open>fifo\<close> and \<open>fifo_head\<close> are interpreted by the process queues (\<open>pq\<close>),
    the free list of process entries (\<open>pool\<close>) and each semaphore of the active list (\<open>semq\<close>);
    \<open>machine\<close> by the runs of the nucleus (\<open>nuc\<close>).
  \<^item> \<open>Machine\<close>: the structures and constants of \<open>src/h\<close> and the variables of the nucleus in one
    record \<open>kstate\<close>. Machine integers are 32-bit words; pointers into the two tables are optional
    indices, and memory reached through an address is a typed view per kind of object.

  \<^bold>\<open>Queue modules.\<close>
  \<^item> \<open>Procq\<close> and \<open>Asl\<close> translate \<open>procq.c\<close> and \<open>asl.c\<close> function by function on the linked structure.
  \<^item> \<open>Queues\<close> has their joint invariant \<open>wf\<close>; \<open>Blocking\<close> and \<open>Entries\<close> show that each routine refines an
    operation on \<open>aqueues\<close>: a ready list, one list per active semaphore, a list of unused entries.
  \<^item> \<open>Queue_Properties\<close>: the queues are first-in first-out, a process leaves all its semaphores at once,
    and running out of entries or descriptors is reported.

  \<^bold>\<open>Nucleus.\<close>
  \<^item> \<open>Scheduler\<close> (\<open>main.c\<close>, CPU accounting, timer), \<open>Interrupts\<close> (\<open>int.c\<close>), \<open>Syscalls\<close> (\<open>syscall.c\<close>), \<open>Traps\<close> (\<open>trap.c\<close>, start):
    one definition per function, composed as in the code.
  \<^item> \<open>Family\<close>, \<open>Trees\<close>, \<open>Lifecycle\<close>: the tree of processes that the pointers \<open>parent\<close>, \<open>child\<close> and \<open>brother\<close>
    represent; SYS1 grafts a leaf and SYS2 prunes a subtree. \<open>Semops\<close>: SYS3 refines a fold of abstract P and
    V steps. \<open>Nucleus\<close>: the invariant \<open>nuc_ok\<close> and its preservation by every handler, the step relation
    \<open>nuc_step\<close> of user programs, devices, traps and interrupts, and its reachable states.
  \<^item> \<open>Nucleus_Properties\<close> (with the states of \<open>Samples\<close>): the promises of the nucleus, among them that no handler
    panics, faults, loops or loses a process.

  \<^bold>\<open>Support level.\<close>
  \<^item> \<open>Programs\<close>: programs as trees of reads and updates of shared variables and of system calls, and
    runs of one process against the others (\<open>solo\<close> and its rules); \<open>passeren.c\<close> and \<open>verhogen.c\<close>.
  \<^item> \<open>Supdata\<close>, \<open>Pager\<close> (\<open>page.c\<close>), \<open>Slcalls\<close> (\<open>slsyscall1.c\<close>, \<open>slsyscall2.c\<close>), \<open>Support\<close> (\<open>support.c\<close>, \<open>bootcode.c\<close>).
  \<^item> \<open>Pager_Properties\<close>, \<open>Daemon_Properties\<close>, \<open>Slcalls_Properties\<close>, \<open>Init_Properties\<close>, \<open>Handler_Properties\<close> (with \<open>Sup_Samples\<close>):
    frames and the count of free frames, second chance replacement, pages that come back with their
    contents, disk and terminal transfers, virtual semaphores, delays, termination and the start.

  \<^bold>\<open>Processes on the nucleus and the test programs.\<close>
  \<^item> \<open>System\<close>: several programs at once on the abstract queues and the tree; a step runs the process at the head
    of the ready queue. \<open>Simulation\<close> shows that its steps for SYS1, SYS2, SYS3, SYS7, SYS8 and for interrupts are what
    the handlers of \<open>syscall.c\<close> and \<open>int.c\<close> do to the linked structures.
  \<^item> \<open>Queuetest\<close>, \<open>Queuetests\<close>: \<open>p1test.c\<close> and \<open>p1test2.c\<close> run on the linked structures from any memory.
  \<^item> \<open>Testdata\<close>, \<open>Treetest\<close> (\<open>p1.2.c\<close>), \<open>Nuctest\<close> (\<open>p1.c\<close>), \<open>Inttest\<close> (\<open>intp1.c\<close>): all processes of the three
    programs, and that they run to their end and print exactly the messages of a correct nucleus.

  \<^bold>\<open>Bounds and fuel.\<close> The walks over linked lists have as fuel the size of the table they walk in (\<open>MAXPROC\<close>, \<open>SEMMAX\<close>,
  the descriptors) and end in the exit \<open>HANG\<close> when it is used up; \<open>check_sibling\<close> has \<open>kill_fuel\<close>. The
  invariant excludes \<open>HANG\<close>, so the fuel is enough in every reachable state. The loops of the daemons,
  which end when no terminal process is left, have the number of rounds as an argument and end in
  \<open>STUCK\<close> when it is used up; their properties are about single rounds or name the rounds they
  need. The runs of the test programs end within 300, 1000 and 1500 steps, as their
  theorems show; the loops of \<open>p3\<close>, \<open>p5a\<close> (1000 rounds) and \<open>p7\<close> (11 rounds) lead \<open>Astray\<close> when their
  fuel is used up, which the theorems exclude.

  \<^bold>\<open>Parameters.\<close> The readings of the clock, the registers and answers of the devices, the number of polls after which the
  printer is ready, the addresses the linker chooses, the end of the program in memory and the
  constants \<open>SEG1\<close> and \<open>SEG2\<close> of a header that the repository lacks are arguments or fields; what is assumed
  of them stands in the theorems.

  \<^bold>\<open>Granularity.\<close> In the support level and the test programs a statement is one step or two, a read of the
  shared variables and an update; \<open>print\<close> of \<open>p1.c\<close> and \<open>p1.2.c\<close>, which only fills a buffer, is such a statement. The test programs of \<open>src/nucleus/traps\<close> run without interrupts, that of
  \<open>src/nucleus/interrupts\<close> with interrupts of the printer and the clock that come when no process is ready.
  \<open>STST\<close> stores the state the process was started with; busy waiting loops without effect are left out.

  \<^bold>\<open>Not modelled.\<close> The assembly files \<open>src/util/LDST.s\<close> and \<open>src/util/STLDSYS.s\<close>: what the C code relies on are the exits and fields above.
  The headers under \<open>src/util/inc\<close> are those of the C library and contain no code of the program.
  Nothing is said about how long a piece of code takes.
\<close>

end
